(* ===== verification/Prelude.thy ===== *)
theory Prelude
  imports Main "HOL-Library.Word" "HOL-Library.Monad_Syntax"
begin

text \<open>
  Shared vocabulary of the development: the machine integers of
  \<^verbatim>\<open>src/kernel/util/types.h\<close>, byte buffers and C strings as lists of bytes, the
  little-endian layout of integers in packed structs, and the lemma collections the
  component theories rewrite with.

  A buffer is a list of bytes. Reading past its end yields \<open>0\<close> (\<open>byte_at\<close>) and writing
  past its end changes nothing (\<open>list_update\<close>): the model gives such an access this fixed
  meaning, C++ leaves it undefined. Theorems that depend on an access being in range state the
  range.
\<close>

unbundle bit_operations_syntax

type_synonym u8 = "8 word"
type_synonym u16 = "16 word"
type_synonym u32 = "32 word"
type_synonym u64 = "64 word"

named_theorems byte_simps \<open>laws of byte buffers and C strings\<close>
named_theorems le_simps \<open>round trips of the little-endian encodings\<close>

section \<open>Byte buffers\<close>

definition byte_at :: "u8 list \<Rightarrow> nat \<Rightarrow> u8" where
  "byte_at xs i = (if i < length xs then xs ! i else 0)"

lemma byte_at_Nil [simp, byte_simps]: "byte_at [] i = 0"
  by (simp add: byte_at_def)

lemma byte_at_Cons_0 [simp, byte_simps]: "byte_at (x # xs) 0 = x"
  by (simp add: byte_at_def)

lemma byte_at_Cons_Suc [simp, byte_simps]: "byte_at (x # xs) (Suc i) = byte_at xs i"
  by (simp add: byte_at_def)

lemma byte_at_numeral [simp, byte_simps]:
  "byte_at (x # xs) (numeral k) = byte_at xs (pred_numeral k)"
  by (simp add: numeral_eq_Suc)

lemma byte_at_update [byte_simps]:
  "byte_at (xs[i := v]) j = (if j = i \<and> i < length xs then v else byte_at xs j)"
  by (auto simp: byte_at_def)

lemma byte_at_replicate [byte_simps]: "byte_at (replicate n 0) i = 0"
  by (simp add: byte_at_def)

lemma byte_at_append [byte_simps]:
  "byte_at (xs @ ys) i = (if i < length xs then byte_at xs i else byte_at ys (i - length xs))"
  by (auto simp: byte_at_def nth_append)

lemma byte_at_drop [byte_simps]: "byte_at (drop k xs) i = byte_at xs (k + i)"
  by (auto simp: byte_at_def)

lemma byte_at_take [byte_simps]: "byte_at (take k xs) i = (if i < k then byte_at xs i else 0)"
  by (auto simp: byte_at_def)

lemma byte_at_eqI:
  assumes "length xs = length ys" and "\<And>i. i < length ys \<Longrightarrow> byte_at xs i = byte_at ys i"
  shows "xs = ys"
  using assms by (intro nth_equalityI) (auto simp: byte_at_def)

definition mem_get :: "u8 list \<Rightarrow> nat \<Rightarrow> u8 list" where
  "mem_get src n = map (byte_at src) [0..<n]"

lemma length_mem_get [simp, byte_simps]: "length (mem_get src n) = n"
  by (simp add: mem_get_def)

lemma mem_get_0 [simp, byte_simps]: "mem_get src 0 = []"
  by (simp add: mem_get_def)

lemma take_mem_get: "take k (mem_get src n) = mem_get src (min n k)"
  by (rule nth_equalityI) (auto simp: mem_get_def)

lemma mem_get_take: "n \<le> length src \<Longrightarrow> mem_get src n = take n src"
  by (intro nth_equalityI) (auto simp: mem_get_def byte_at_def)

section \<open>C strings\<close>

definition cstr :: "u8 list \<Rightarrow> u8 list" where
  "cstr xs = takeWhile (\<lambda>c. c \<noteq> 0) xs"

lemma cstr_simps [simp, byte_simps]:
  "cstr [] = []"
  "cstr (x # xs) = (if x = 0 then [] else x # cstr xs)"
  by (simp_all add: cstr_def)

lemma cstr_no_zero [simp]: "0 \<notin> set (cstr xs)"
  by (auto simp: cstr_def dest: set_takeWhileD)

lemma cstr_id: "0 \<notin> set xs \<Longrightarrow> cstr xs = xs"
  by (auto simp: cstr_def takeWhile_eq_all_conv)

lemma cstr_append_zero: "0 \<notin> set xs \<Longrightarrow> cstr (xs @ 0 # ys) = xs"
  by (induction xs) auto

lemma cstr_idem [simp, byte_simps]: "cstr (cstr xs) = cstr xs"
  by (rule cstr_id) simp

lemma length_cstr_le: "length (cstr xs) \<le> length xs"
  by (simp add: cstr_def length_takeWhile_le)

lemma cstr_eq_take: "cstr xs = take (length (cstr xs)) xs"
  by (metis cstr_def takeWhile_eq_take)

section \<open>Little-endian integers of packed structs\<close>

definition le16 :: "u16 \<Rightarrow> u8 list" where
  "le16 w = [ucast w, ucast (drop_bit 8 w)]"

definition le32 :: "u32 \<Rightarrow> u8 list" where
  "le32 w = [ucast w, ucast (drop_bit 8 w), ucast (drop_bit 16 w), ucast (drop_bit 24 w)]"

definition of_le16 :: "u8 list \<Rightarrow> u16" where
  "of_le16 bs = ucast (byte_at bs 0) OR push_bit 8 (ucast (byte_at bs 1))"

definition of_le32 :: "u8 list \<Rightarrow> u32" where
  "of_le32 bs = ucast (byte_at bs 0) OR push_bit 8 (ucast (byte_at bs 1))
     OR push_bit 16 (ucast (byte_at bs 2)) OR push_bit 24 (ucast (byte_at bs 3))"

lemma length_le16 [simp, le_simps]: "length (le16 w) = 2"
  by (simp add: le16_def)

lemma length_le32 [simp, le_simps]: "length (le32 w) = 4"
  by (simp add: le32_def)

lemma of_le16_le16 [simp, le_simps]: "of_le16 (le16 w @ xs) = w"
  unfolding of_le16_def le16_def
  by (simp, rule bit_word_eqI, simp only: bit_simps, auto)

lemma of_le32_bytes:
  "(ucast (ucast (w :: u32) :: u8) :: u32) OR push_bit 8 (ucast (ucast (drop_bit 8 w) :: u8))
     OR push_bit 16 (ucast (ucast (drop_bit 16 w) :: u8))
     OR push_bit 24 (ucast (ucast (drop_bit 24 w) :: u8)) = w"
  apply (rule bit_word_eqI)
  subgoal for n
    by (cases "n < 8"; cases "n < 16"; cases "n < 24"; simp add: bit_simps less_diff_conv2 not_less)
  done

lemma of_le32_le32 [simp, le_simps]: "of_le32 (le32 w @ xs) = w"
  by (simp add: of_le32_def le32_def of_le32_bytes)

lemmas of_le32_le32_Nil [simp, le_simps] = of_le32_le32 [of _ "[]", simplified]
lemmas of_le16_le16_Nil [simp, le_simps] = of_le16_le16 [of _ "[]", simplified]

section \<open>Words and addresses\<close>

lemma unat_of_nat_u32: "a < 2 ^ 32 \<Longrightarrow> unat (of_nat a :: u32) = a"
  by (simp add: unat_of_nat)

lemma of_nat_eq_u32:
  "a < 2 ^ 32 \<Longrightarrow> b < 2 ^ 32 \<Longrightarrow> (of_nat a = (of_nat b :: u32)) = (a = b)"
  by (metis unat_of_nat_u32)

lemma unat_less_u32 [simp]: "unat (w :: u32) < 4294967296"
  using unsigned_less [of w] by simp

lemma of_nat_unat_u32 [simp]: "of_nat (unat (w :: u32)) = w"
  by simp

end
