(* ===== verification/Kheap.thy ===== *)
theory Kheap
  imports Prelude
begin

text \<open>
  The kernel heap of \<^verbatim>\<open>src/kernel/mem/kheap.cpp\<close>: a first-fit allocator over a
  static array of 65536 bytes, whose blocks carry a 16-byte header (\<^verbatim>\<open>sizeof(BlockHeader)\<close>
  on i386) in a doubly linked list.

  The memory the allocator works on is the map \<open>hmem\<close> from 32-bit addresses to the headers
  that have been written there; the address of the static array, chosen by the linker, is the
  parameter \<open>hb\<close>. An operation returns \<open>None\<close> when it dereferences an address that holds no
  header (or when its list walk does not end), so "returns \<open>Some\<close>" is memory safety.
  The abstract heap is the list of its blocks, in address order, each a size and a free flag.
\<close>

section \<open>The allocator\<close>

record header =
  hsize :: u32
  hfree :: bool
  hnext :: u32
  hprev :: u32

record heap =
  heap_head :: u32
  hmem :: "u32 \<rightharpoonup> header"

definition align8 :: "u32 \<Rightarrow> u32" where
  "align8 n = (n + 7) AND NOT 7"

definition heap_init :: "u32 \<Rightarrow> heap \<Rightarrow> heap" where
  "heap_init hb h =
     (if heap_head h \<noteq> 0 then h
      else h\<lparr>heap_head := hb,
             hmem := (hmem h)(hb \<mapsto> \<lparr>hsize = 65536 - 16, hfree = True, hnext = 0, hprev = 0\<rparr>)\<rparr>)"

definition set_prev :: "u32 \<Rightarrow> u32 \<Rightarrow> (u32 \<rightharpoonup> header) \<Rightarrow> (u32 \<rightharpoonup> header) option" where
  "set_prev a p m =
     (if a = 0 then Some m
      else case m a of None \<Rightarrow> None | Some x \<Rightarrow> Some (m(a \<mapsto> x\<lparr>hprev := p\<rparr>)))"

definition kmalloc_take :: "u32 \<Rightarrow> u32 \<Rightarrow> header \<Rightarrow> heap \<Rightarrow> (u32 \<times> heap) option" where
  "kmalloc_take n cur c h =
     (if n + 16 + 8 \<le> hsize c then
        let split = cur + 16 + n;
            m = (hmem h)(split \<mapsto> \<lparr>hsize = hsize c - n - 16, hfree = True,
                                    hnext = hnext c, hprev = cur\<rparr>)
        in case set_prev (hnext c) split m of
             None \<Rightarrow> None
           | Some m' \<Rightarrow>
               Some (cur + 16,
                 h\<lparr>hmem := m'(cur \<mapsto> c\<lparr>hsize := n, hnext := split, hfree := False\<rparr>)\<rparr>)
      else Some (cur + 16, h\<lparr>hmem := (hmem h)(cur \<mapsto> c\<lparr>hfree := False\<rparr>)\<rparr>))"

partial_function (option) kmalloc_walk :: "u32 \<Rightarrow> u32 \<Rightarrow> heap \<Rightarrow> (u32 \<times> heap) option" where
  "kmalloc_walk n cur h =
     (if cur = 0 then Some (0, h)
      else case hmem h cur of
             None \<Rightarrow> None
           | Some c \<Rightarrow>
               if hfree c \<and> n \<le> hsize c then kmalloc_take n cur c h
               else kmalloc_walk n (hnext c) h)"

definition kmalloc :: "u32 \<Rightarrow> u32 \<Rightarrow> heap \<Rightarrow> (u32 \<times> heap) option" where
  "kmalloc hb n h =
     (if n = 0 then Some (0, h)
      else let h = heap_init hb h; n8 = align8 n
           in kmalloc_walk n8 (heap_head h) h)"

definition coalesce_next :: "u32 \<Rightarrow> heap \<Rightarrow> heap option" where
  "coalesce_next block h =
     (case hmem h block of None \<Rightarrow> None | Some b \<Rightarrow>
        if hnext b = 0 then Some h
        else case hmem h (hnext b) of None \<Rightarrow> None | Some n \<Rightarrow>
          if \<not> hfree n then Some h
          else let b' = b\<lparr>hsize := hsize b + (16 + hsize n), hnext := hnext n\<rparr>
               in map_option (\<lambda>m. h\<lparr>hmem := m\<rparr>)
                    (set_prev (hnext b') block ((hmem h)(block \<mapsto> b'))))"

definition coalesce_prev :: "u32 \<Rightarrow> heap \<Rightarrow> heap option" where
  "coalesce_prev block h =
     (case hmem h block of None \<Rightarrow> None | Some b \<Rightarrow>
        if hprev b = 0 then Some h
        else case hmem h (hprev b) of None \<Rightarrow> None | Some p \<Rightarrow>
          if \<not> hfree p then Some h
          else let p' = p\<lparr>hsize := hsize p + (16 + hsize b), hnext := hnext b\<rparr>
               in map_option (\<lambda>m. h\<lparr>hmem := m\<rparr>)
                    (set_prev (hnext p') (hprev b) ((hmem h)(hprev b \<mapsto> p'))))"

definition coalesce :: "u32 \<Rightarrow> heap \<Rightarrow> heap option" where
  "coalesce block h = do { h \<leftarrow> coalesce_next block h; coalesce_prev block h }"

definition kfree :: "u32 \<Rightarrow> heap \<Rightarrow> heap option" where
  "kfree ptr h =
     (if ptr = 0 then Some h
      else let block = ptr - 16
           in case hmem h block of None \<Rightarrow> None
              | Some b \<Rightarrow> coalesce block (h\<lparr>hmem := (hmem h)(block \<mapsto> b\<lparr>hfree := True\<rparr>)\<rparr>))"

section \<open>The abstract heap: a list of blocks\<close>

type_synonym blk = "nat \<times> bool"

fun total :: "blk list \<Rightarrow> nat" where
  "total [] = 0"
| "total ((n, f) # xs) = n + 16 + total xs"

definition place :: "nat \<Rightarrow> nat \<Rightarrow> blk list" where
  "place n s = (if n + 24 \<le> s then [(n, False), (s - n - 16, True)] else [(s, False)])"

text \<open>First fit: the offset of the payload from the start of the list, and the list after.\<close>

fun first_fit :: "nat \<Rightarrow> blk list \<Rightarrow> (nat \<times> blk list) option" where
  "first_fit n [] = None"
| "first_fit n ((s, f) # xs) =
     (if f \<and> n \<le> s then Some (16, place n s @ xs)
      else map_option (\<lambda>(off, ys). (s + 16 + off, (s, f) # ys)) (first_fit n xs))"

definition merge_right :: "nat \<Rightarrow> blk list \<Rightarrow> blk list" where
  "merge_right n rs = (case rs of (k, True) # rs' \<Rightarrow> (n + 16 + k, True) # rs' | _ \<Rightarrow> (n, True) # rs)"

definition merge_left :: "blk list \<Rightarrow> blk list \<Rightarrow> blk list" where
  "merge_left ls xs =
     (case xs of [] \<Rightarrow> ls
      | (n, f) # rs \<Rightarrow>
          if ls \<noteq> [] \<and> snd (last ls) then butlast ls @ (fst (last ls) + 16 + n, True) # rs
          else ls @ xs)"

text \<open>Freeing the block of size \<open>n\<close> between the blocks \<open>ls\<close> and \<open>rs\<close>.\<close>

definition free_blk :: "blk list \<Rightarrow> nat \<Rightarrow> blk list \<Rightarrow> blk list" where
  "free_blk ls n rs = merge_left ls (merge_right n rs)"

section \<open>The list of headers in memory\<close>

text \<open>
  \<open>chain m p nx a xs\<close>: starting at address \<open>a\<close>, memory \<open>m\<close> holds the headers of the blocks
  \<open>xs\<close>, back to back; the first has \<open>p\<close> as its predecessor, the last \<open>nx\<close> as its successor.
\<close>

fun chain :: "(u32 \<rightharpoonup> header) \<Rightarrow> u32 \<Rightarrow> u32 \<Rightarrow> nat \<Rightarrow> blk list \<Rightarrow> bool" where
  "chain m p nx a [] \<longleftrightarrow> True"
| "chain m p nx a ((n, f) # xs) \<longleftrightarrow>
     m (of_nat a) = Some \<lparr>hsize = of_nat n, hfree = f,
                          hnext = (if xs = [] then nx else of_nat (a + 16 + n)), hprev = p\<rparr> \<and>
     chain m (of_nat a) nx (a + 16 + n) xs"

definition last_addr :: "u32 \<Rightarrow> nat \<Rightarrow> blk list \<Rightarrow> u32" where
  "last_addr p a xs = (if xs = [] then p else of_nat (a + total (butlast xs)))"

definition heap_rep :: "u32 \<Rightarrow> heap \<Rightarrow> blk list \<Rightarrow> bool" where
  "heap_rep hb h xs \<longleftrightarrow>
     heap_head h = hb \<and> hb \<noteq> 0 \<and> unat hb + 65536 < 2 ^ 32 \<and>
     total xs = 65536 \<and> (\<forall>b \<in> set xs. fst b mod 8 = 0) \<and> chain (hmem h) 0 0 (unat hb) xs"

lemma total_append [simp]: "total (xs @ ys) = total xs + total ys"
  by (induction xs rule: total.induct) auto

lemma last_addr_Cons [simp]:
  "last_addr p a ((n, f) # xs) = last_addr (of_nat a) (a + 16 + n) xs"
  by (simp add: last_addr_def algebra_simps)

lemma chain_append:
  "chain m p nx a (xs @ ys) \<longleftrightarrow>
     (if ys = [] then chain m p nx a xs
      else chain m p (of_nat (a + total xs)) a xs \<and>
           chain m (last_addr p a xs) nx (a + total xs) ys)"
proof (induction xs arbitrary: p a)
  case Nil
  then show ?case by (simp add: last_addr_def)
next
  case (Cons b xs)
  obtain n f where "b = (n, f)" by (cases b)
  with Cons show ?case by (auto simp: algebra_simps)
qed

lemma chain_frame:
  assumes "chain m p nx a xs" and "a + total xs \<le> 2 ^ 32"
    and "\<And>z. a \<le> unat z \<Longrightarrow> unat z < a + total xs \<Longrightarrow> m' z = m z"
  shows "chain m' p nx a xs"
  using assms
proof (induction m p nx a xs rule: chain.induct)
  case (1 m p nx a)
  then show ?case by simp
next
  case (2 m p nx a n f xs)
  then have "m' (of_nat a) = m (of_nat a)" by (auto simp: unat_of_nat_u32)
  with 2 show ?case by simp
qed

lemma chain_update_outside:
  assumes "chain m p nx a xs" and "a + total xs \<le> 2 ^ 32"
    and "unat z < a \<or> a + total xs \<le> unat z"
  shows "chain (m(z := v)) p nx a xs"
  using assms(1,2) by (rule chain_frame) (use assms(3) in auto)

lemma chain_set_prev:
  assumes "chain m p nx a (x # xs)" and "a + total (x # xs) \<le> 2 ^ 32" and "0 < a"
  shows "\<exists>m'. set_prev (of_nat a) q m = Some m' \<and> chain m' q nx a (x # xs) \<and>
           (\<forall>z. z \<noteq> of_nat a \<longrightarrow> m' z = m z)"
proof -
  obtain n f where x: "x = (n, f)" by (cases x)
  let ?h = "\<lparr>hsize = of_nat n, hfree = f,
             hnext = (if xs = [] then nx else of_nat (a + 16 + n)), hprev = p\<rparr>"
  have a: "of_nat a \<noteq> (0 :: u32)"
    using assms(2,3) of_nat_eq_u32 [of a 0] by (auto simp: x)
  have m: "m (of_nat a) = Some ?h" and tl: "chain m (of_nat a) nx (a + 16 + n) xs"
    using assms(1) by (auto simp: x)
  have "chain (m(of_nat a \<mapsto> ?h\<lparr>hprev := q\<rparr>)) (of_nat a) nx (a + 16 + n) xs"
    using tl by (rule chain_update_outside) (use assms(2) in \<open>auto simp: x unat_of_nat_u32\<close>)
  then show ?thesis using a m by (auto simp: set_prev_def x)
qed

section \<open>kmalloc implements first fit\<close>

lemma unat_add_small:
  "unat (x :: u32) + k < 2 ^ 32 \<Longrightarrow> unat (x + of_nat k) = unat x + k"
  by (simp add: unat_word_ariths unat_of_nat)

lemma of_nat_add_u32: "(of_nat a :: u32) + 16 + n = of_nat (a + 16 + unat n)"
  by simp

lemma total_ge: "xs \<noteq> [] \<Longrightarrow> 16 \<le> total xs"
  by (cases xs rule: total.cases) auto

lemma kmalloc_take_chain:
  assumes ch: "chain (hmem h) p 0 a ((s, True) # xs)" and pos: "0 < a"
    and bnd: "a + total ((s, True) # xs) \<le> 2 ^ 32" "total ((s, True) # xs) \<le> 65536"
    and fit: "unat n \<le> s" and c: "hmem h (of_nat a) = Some c"
  shows "\<exists>m'. kmalloc_take n (of_nat a) c h = Some (of_nat (a + 16), h\<lparr>hmem := m'\<rparr>) \<and>
           chain m' p 0 a (place (unat n) s @ xs) \<and> (\<forall>z. unat z < a \<longrightarrow> m' z = hmem h z)"
proof -
  have c_eq: "c = \<lparr>hsize = of_nat s, hfree = True,
                    hnext = (if xs = [] then 0 else of_nat (a + 16 + s)), hprev = p\<rparr>"
    and tl: "chain (hmem h) (of_nat a) 0 (a + 16 + s) xs"
    using ch c by auto
  have s: "unat (of_nat s :: u32) = s" and a: "unat (of_nat a :: u32) = a"
    using bnd by (auto simp: unat_of_nat_u32)
  have n24: "unat (24 + n) = unat n + 24"
    using unat_add_small [of n 24] fit bnd by (simp add: add.commute)
  have dec: "24 + n \<le> of_nat s \<longleftrightarrow> unat n + 24 \<le> s"
    by (simp add: word_le_nat_alt n24 s)
  show ?thesis
  proof (cases "unat n + 24 \<le> s")
    case False
    have "chain ((hmem h)(of_nat a \<mapsto> c\<lparr>hfree := False\<rparr>)) (of_nat a) 0 (a + 16 + s) xs"
      using tl by (rule chain_update_outside) (use bnd a in auto)
    moreover have "kmalloc_take n (of_nat a) c h = Some (of_nat (a + 16),
        h\<lparr>hmem := (hmem h)(of_nat a \<mapsto> c\<lparr>hfree := False\<rparr>)\<rparr>)"
      using False by (simp add: kmalloc_take_def dec c_eq)
    ultimately show ?thesis
      using False
      by (intro exI [of _ "(hmem h)(of_nat a \<mapsto> c\<lparr>hfree := False\<rparr>)"])
        (auto simp: place_def a c_eq simp del: of_nat_add)
  next
    case True
    define sp where "sp = (of_nat (a + 16 + unat n) :: u32)"
    define sx where "sx = \<lparr>hsize = of_nat (s - unat n - 16), hfree = True,
                hnext = (if xs = [] then 0 else of_nat (a + 16 + s)), hprev = of_nat a\<rparr>"
    define m where "m = (hmem h)(sp \<mapsto> sx)"
    have sp: "unat sp = a + 16 + unat n"
      unfolding sp_def using bnd True by (intro unat_of_nat_u32) auto
    have sp': "of_nat a + 16 + n = sp" by (simp add: sp_def)
    have sz: "of_nat s - n - 16 = (of_nat (s - unat n - 16) :: u32)"
      using True by (simp add: of_nat_diff)
    have tl1: "chain m (of_nat a) 0 (a + 16 + s) xs"
      unfolding m_def using tl by (rule chain_update_outside) (use bnd True sp in auto)
    have "\<exists>m1. set_prev (if xs = [] then 0 else of_nat (a + 16 + s)) sp m = Some m1 \<and>
            chain m1 sp 0 (a + 16 + s) xs \<and> (\<forall>z. unat z < a + 16 + s \<longrightarrow> m1 z = m z)"
    proof (cases xs)
      case Nil
      then show ?thesis by (simp add: set_prev_def)
    next
      case (Cons y ys)
      have u: "unat (of_nat (a + 16 + s) :: u32) = a + 16 + s"
        using bnd Cons by (intro unat_of_nat_u32) (cases y, auto)
      obtain m1 where m1: "set_prev (of_nat (a + 16 + s)) sp m = Some m1"
          "chain m1 sp 0 (a + 16 + s) xs" "\<forall>z. z \<noteq> of_nat (a + 16 + s) \<longrightarrow> m1 z = m z"
        using chain_set_prev [of m "of_nat a" 0 "a + 16 + s" y ys sp] tl1 bnd Cons by auto
      have "m1 z = m z" if "unat z < a + 16 + s" for z
        using m1(3) that u by (metis less_irrefl)
      with m1(1,2) show ?thesis unfolding Cons by auto
    qed
    then obtain m1 where m1: "set_prev (if xs = [] then 0 else of_nat (a + 16 + s)) sp m = Some m1"
        and tl2: "chain m1 sp 0 (a + 16 + s) xs"
        and m1z: "\<And>z. unat z < a + 16 + s \<Longrightarrow> m1 z = m z" by blast
    define m2 where "m2 = m1(of_nat a \<mapsto> c\<lparr>hsize := n, hnext := sp, hfree := False\<rparr>)"
    have hn: "hnext c = (if xs = [] then 0 else of_nat (a + 16 + s))" and hs: "hsize c = of_nat s"
      by (simp_all add: c_eq)
    have take_eq: "kmalloc_take n (of_nat a) c h = Some (of_nat (a + 16), h\<lparr>hmem := m2\<rparr>)"
      unfolding kmalloc_take_def Let_def sp' hs sz hn sx_def [symmetric] m_def [symmetric] m1
      using True by (simp add: dec m2_def)
    have tl3: "chain m2 sp 0 (a + 16 + s) xs"
      unfolding m2_def using tl2 by (rule chain_update_outside) (use bnd a in auto)
    have ne: "sp \<noteq> of_nat a" using sp a by auto
    have "m1 sp = Some sx" using m1z [of sp] sp True by (simp add: m_def)
    then have m2sp: "m2 sp = Some sx" using ne by (simp add: m2_def)
    have m2a: "m2 (of_nat a) = Some \<lparr>hsize = n, hfree = False, hnext = sp, hprev = p\<rparr>"
      by (simp add: m2_def c_eq)
    have "chain m2 p 0 a ((unat n, False) # (s - unat n - 16, True) # xs)"
      using tl3 m2sp m2a True by (simp add: sx_def sp_def algebra_simps)
    moreover have "m2 z = hmem h z" if "unat z < a" for z
      using m1z [of z] that sp a by (auto simp: m2_def m_def)
    ultimately show ?thesis
      using take_eq True by (intro exI [of _ m2]) (simp add: place_def)
  qed
qed

lemma kmalloc_walk_chain:
  assumes "chain (hmem h) p 0 a xs" and "xs \<noteq> []" and "0 < a"
    and "a + total xs \<le> 2 ^ 32" and "total xs \<le> 65536"
  shows "case first_fit (unat n) xs of
           None \<Rightarrow> kmalloc_walk n (of_nat a) h = Some (0, h)
         | Some (off, ys) \<Rightarrow>
             \<exists>m'. kmalloc_walk n (of_nat a) h = Some (of_nat (a + off), h\<lparr>hmem := m'\<rparr>) \<and>
                  chain m' p 0 a ys \<and> (\<forall>z. unat z < a \<longrightarrow> m' z = hmem h z)"
  using assms
proof (induction xs arbitrary: p a)
  case Nil
  then show ?case by simp
next
  case (Cons b xs)
  obtain s f where b: "b = (s, f)" by (cases b)
  let ?c = "\<lparr>hsize = of_nat s, hfree = f,
             hnext = (if xs = [] then 0 else of_nat (a + 16 + s)), hprev = p\<rparr>"
  have a0: "of_nat a \<noteq> (0 :: u32)"
    using Cons.prems of_nat_eq_u32 [of a 0] by (auto simp: b)
  have c: "hmem h (of_nat a) = Some ?c" and tl: "chain (hmem h) (of_nat a) 0 (a + 16 + s) xs"
    using Cons.prems(1) by (auto simp: b)
  have s: "unat (of_nat s :: u32) = s"
    using Cons.prems by (intro unat_of_nat_u32) (auto simp: b)
  show ?case
  proof (cases "f \<and> unat n \<le> s")
    case True
    then have "kmalloc_walk n (of_nat a) h = kmalloc_take n (of_nat a) ?c h"
      using a0 c s by (subst kmalloc_walk.simps) (simp add: word_le_nat_alt)
    with True kmalloc_take_chain [of h p a s xs n ?c] Cons.prems c show ?thesis
      by (auto simp: b)
  next
    case False
    then have step: "kmalloc_walk n (of_nat a) h = kmalloc_walk n (hnext ?c) h"
      using a0 c s by (subst kmalloc_walk.simps) (auto simp: word_le_nat_alt)
    show ?thesis
    proof (cases "xs = []")
      case True
      with False step show ?thesis
        by (auto simp: b kmalloc_walk.simps [of n 0])
    next
      case ne: False
      let ?P = "\<lambda>off ys m'. kmalloc_walk n (of_nat (a + 16 + s)) h =
                   Some (of_nat (a + 16 + s + off), h\<lparr>hmem := m'\<rparr>) \<and>
                 chain m' (of_nat a) 0 (a + 16 + s) ys \<and>
                 (\<forall>z. unat z < a + 16 + s \<longrightarrow> m' z = hmem h z)"
      have IH: "case first_fit (unat n) xs of
           None \<Rightarrow> kmalloc_walk n (of_nat (a + 16 + s)) h = Some (0, h)
         | Some (off, ys) \<Rightarrow> \<exists>m'. ?P off ys m'"
        using Cons.IH [OF tl ne] Cons.prems by (simp add: b algebra_simps)
      show ?thesis
      proof (cases "first_fit (unat n) xs")
        case None
        with IH step False ne show ?thesis by (auto simp: b)
      next
        case (Some r)
        obtain off ys where r: "r = (off, ys)" by (cases r)
        with IH Some obtain m' where m': "?P off ys m'" by auto
        have "ys \<noteq> []" using Some r by (cases xs rule: total.cases)
          (auto simp: place_def split: if_splits)
        moreover have "unat (of_nat a :: u32) = a"
          using Cons.prems by (intro unat_of_nat_u32) (auto simp: b)
        ultimately have "chain m' p 0 a ((s, f) # ys)" using m' c ne by auto
        with m' step False Some r ne show ?thesis
          by (auto simp: b algebra_simps intro!: exI [of _ m'])
      qed
    qed
  qed
qed

section \<open>kfree implements the merging release\<close>

text \<open>Both halves of \<open>coalesce\<close> merge a block with the one after it.\<close>

lemma merge_chain:
  assumes ch: "chain m q 0 a ((n, f) # (k, g) # rs)" and pos: "0 < a"
    and bnd: "a + total ((n, f) # (k, g) # rs) \<le> 2 ^ 32"
    and nx: "nx = (if rs = [] then 0 else of_nat (a + 16 + n + 16 + k))"
  shows "\<exists>m'. set_prev nx (of_nat a)
               (m(of_nat a \<mapsto> \<lparr>hsize = of_nat n + (16 + of_nat k), hfree = f,
                                hnext = nx, hprev = q\<rparr>)) = Some m' \<and>
           chain m' q 0 a ((n + 16 + k, f) # rs) \<and> (\<forall>z. unat z < a \<longrightarrow> m' z = m z)"
proof -
  define b where "b = a + 16 + (n + 16 + k)"
  define m1 where "m1 = m(of_nat a \<mapsto> \<lparr>hsize = of_nat n + (16 + of_nat k), hfree = f,
                                hnext = nx, hprev = q\<rparr>)"
  have a: "unat (of_nat a :: u32) = a" using bnd by (intro unat_of_nat_u32) auto
  have nxb: "nx = (if rs = [] then 0 else of_nat b)" by (simp add: nx b_def algebra_simps)
  have tl: "chain m (of_nat (a + 16 + n)) 0 b rs"
    using ch by (simp add: b_def algebra_simps)
  have tl1: "chain m1 (of_nat (a + 16 + n)) 0 b rs"
    unfolding m1_def using tl by (rule chain_update_outside) (use bnd a in \<open>auto simp: b_def\<close>)
  have "\<exists>m'. set_prev nx (of_nat a) m1 = Some m' \<and> chain m' (of_nat a) 0 b rs \<and>
          (\<forall>z. unat z < b \<longrightarrow> m' z = m1 z)"
  proof (cases rs)
    case Nil
    then show ?thesis by (simp add: nxb set_prev_def)
  next
    case (Cons y ys)
    have u: "unat (of_nat b :: u32) = b"
      using bnd Cons by (intro unat_of_nat_u32) (cases y, auto simp: b_def)
    obtain m' where m': "set_prev (of_nat b) (of_nat a) m1 = Some m'"
        "chain m' (of_nat a) 0 b rs" "\<forall>z. z \<noteq> of_nat b \<longrightarrow> m' z = m1 z"
      using chain_set_prev [of m1 "of_nat (a + 16 + n)" 0 b y ys "of_nat a"] tl1 bnd Cons pos
      by (auto simp: b_def)
    have "m' z = m1 z" if "unat z < b" for z
      using m'(3) that u by (metis less_irrefl)
    with m'(1,2) show ?thesis unfolding nxb Cons by auto
  qed
  then obtain m' where m': "set_prev nx (of_nat a) m1 = Some m'" and tl2: "chain m' (of_nat a) 0 b rs"
      and m'z: "\<And>z. unat z < b \<Longrightarrow> m' z = m1 z" by blast
  have "m' (of_nat a) = m1 (of_nat a)" using m'z a by (simp add: b_def)
  then have "chain m' q 0 a ((n + 16 + k, f) # rs)"
    using tl2 by (simp add: m1_def nxb b_def algebra_simps)
  moreover have "m' z = m z" if "unat z < a" for z
    using m'z [of z] that a by (auto simp: m1_def b_def)
  ultimately show ?thesis using m' unfolding m1_def by blast
qed

lemma coalesce_next_chain:
  assumes ch: "chain (hmem h) q 0 a ((n, True) # rs)" and pos: "0 < a"
    and bnd: "a + total ((n, True) # rs) \<le> 2 ^ 32"
  shows "\<exists>m'. coalesce_next (of_nat a) h = Some (h\<lparr>hmem := m'\<rparr>) \<and>
           chain m' q 0 a (merge_right n rs) \<and> (\<forall>z. unat z < a \<longrightarrow> m' z = hmem h z)"
proof (cases rs)
  case Nil
  with ch show ?thesis
    by (intro exI [of _ "hmem h"]) (simp add: coalesce_next_def merge_right_def)
next
  case (Cons b rs')
  obtain k g where b: "b = (k, g)" by (cases b)
  have ne: "of_nat (a + 16 + n) \<noteq> (0 :: u32)"
    using bnd pos of_nat_eq_u32 [of "a + 16 + n" 0] by (auto simp: Cons b)
  show ?thesis
  proof (cases g)
    case False
    with ch ne show ?thesis
      by (intro exI [of _ "hmem h"]) (simp add: coalesce_next_def merge_right_def Cons b)
  next
    case True
    define nx where "nx = (if rs' = [] then 0 else of_nat (a + 16 + n + 16 + k) :: u32)"
    obtain m' where m': "set_prev nx (of_nat a)
               ((hmem h)(of_nat a \<mapsto> \<lparr>hsize = of_nat n + (16 + of_nat k), hfree = True,
                                hnext = nx, hprev = q\<rparr>)) = Some m'"
        "chain m' q 0 a ((n + 16 + k, True) # rs')" "\<forall>z. unat z < a \<longrightarrow> m' z = hmem h z"
      using merge_chain [of "hmem h" q a n True k g rs' nx] ch pos bnd
      by (auto simp: Cons b nx_def simp del: chain.simps)
    have "coalesce_next (of_nat a) h = Some (h\<lparr>hmem := m'\<rparr>)"
      using ch ne m'(1) True
      by (simp add: coalesce_next_def Cons b nx_def Let_def algebra_simps cong: if_cong)
    with m' True show ?thesis by (auto simp: merge_right_def Cons b)
  qed
qed

lemma coalesce_prev_chain:
  assumes ls: "chain (hmem h) 0 (of_nat a) b ls" and a: "a = b + total ls" and pos: "0 < b"
    and ch: "chain (hmem h) (last_addr 0 b ls) 0 a ((n, f) # rs)"
    and bnd: "a + total ((n, f) # rs) \<le> 2 ^ 32"
  shows "\<exists>m'. coalesce_prev (of_nat a) h = Some (h\<lparr>hmem := m'\<rparr>) \<and>
           chain m' 0 0 b (merge_left ls ((n, f) # rs))"
proof (cases ls rule: rev_cases)
  case Nil
  with ch a show ?thesis
    by (intro exI [of _ "hmem h"]) (simp add: coalesce_prev_def merge_left_def last_addr_def)
next
  case (snoc ls' x)
  obtain k g where x: "x = (k, g)" by (cases x)
  define c where "c = b + total ls'"
  have ac: "a = c + 16 + k" by (simp add: a c_def snoc x)
  have prv: "last_addr 0 b ls = of_nat c" by (simp add: last_addr_def snoc c_def)
  have ne: "of_nat c \<noteq> (0 :: u32)"
    using bnd pos of_nat_eq_u32 [of c 0] by (auto simp: ac c_def)
  have ls': "chain (hmem h) 0 (of_nat c) b ls'"
    and xc: "hmem h (of_nat c) = Some \<lparr>hsize = of_nat k, hfree = g, hnext = of_nat a,
               hprev = last_addr 0 b ls'\<rparr>"
    using ls by (auto simp: snoc x chain_append c_def)
  have hd: "hmem h (of_nat a) = Some \<lparr>hsize = of_nat n, hfree = f,
      hnext = (if rs = [] then 0 else of_nat (a + 16 + n)), hprev = of_nat c\<rparr>"
    using ch by (simp add: prv)
  have whole: "chain (hmem h) (last_addr 0 b ls') 0 c ((k, g) # (n, f) # rs)"
    using xc ch by (simp add: prv ac)
  show ?thesis
  proof (cases g)
    case False
    have "chain (hmem h) 0 0 b (ls @ (n, f) # rs)"
      using ls ch a by (simp add: chain_append)
    moreover have "coalesce_prev (of_nat a) h = Some h"
      using False hd ne xc by (simp add: coalesce_prev_def)
    moreover have "merge_left ls ((n, f) # rs) = ls @ (n, f) # rs"
      using False by (simp add: merge_left_def snoc x)
    ultimately show ?thesis by (intro exI [of _ "hmem h"]) simp
  next
    case True
    define nx where "nx = (if rs = [] then 0 else of_nat (c + 16 + k + 16 + n) :: u32)"
    have nx: "(if rs = [] then 0 else of_nat (a + 16 + n)) = nx" by (simp add: nx_def ac)
    obtain m' where m': "set_prev nx (of_nat c)
               ((hmem h)(of_nat c \<mapsto> \<lparr>hsize = of_nat k + (16 + of_nat n), hfree = g,
                                hnext = nx, hprev = last_addr 0 b ls'\<rparr>)) = Some m'"
        "chain m' (last_addr 0 b ls') 0 c ((k + 16 + n, g) # rs)"
        "\<forall>z. unat z < c \<longrightarrow> m' z = hmem h z"
      using merge_chain [OF whole, of nx] pos bnd ac by (auto simp: c_def nx_def)
    have "chain m' 0 (of_nat c) b ls'"
      using ls' by (rule chain_frame) (use bnd m'(3) ac in \<open>auto simp: c_def\<close>)
    then have "chain m' 0 0 b (ls' @ (k + 16 + n, g) # rs)"
      using m'(2) by (simp add: chain_append c_def)
    moreover have "coalesce_prev (of_nat a) h = Some (h\<lparr>hmem := m'\<rparr>)"
      using hd ne xc m'(1) True by (simp add: coalesce_prev_def nx Let_def)
    ultimately show ?thesis using True by (auto simp: merge_left_def snoc x)
  qed
qed

section \<open>Laws of the abstract heap\<close>

lemma total_place: "n \<le> s \<Longrightarrow> total (place n s) = s + 16"
  by (simp add: place_def)

text \<open>First fit replaces one free block, the first that is large enough.\<close>

lemma first_fit_Some:
  "first_fit n xs = Some (off, ys) \<Longrightarrow>
   \<exists>ls s rs. xs = ls @ (s, True) # rs \<and> n \<le> s \<and> ys = ls @ place n s @ rs \<and>
             off = total ls + 16 \<and> (\<forall>(t, g) \<in> set ls. g \<longrightarrow> t < n)"
proof (induction n xs arbitrary: off ys rule: first_fit.induct)
  case (1 n)
  then show ?case by simp
next
  case (2 n s f xs)
  show ?case
  proof (cases "f \<and> n \<le> s")
    case True
    with "2.prems" show ?thesis by (intro exI [of _ "[]"] exI [of _ s] exI [of _ xs]) auto
  next
    case False
    with "2.prems" obtain off' ys' where r: "first_fit n xs = Some (off', ys')"
        "off = s + 16 + off'" "ys = (s, f) # ys'" by (auto split: if_splits)
    from "2.IH" [OF False r(1)] obtain ls t rs where
      "xs = ls @ (t, True) # rs \<and> n \<le> t \<and> ys' = ls @ place n t @ rs \<and>
       off' = total ls + 16 \<and> (\<forall>(t, g) \<in> set ls. g \<longrightarrow> t < n)" by blast
    with False r(2,3) show ?thesis
      by (intro exI [of _ "(s, f) # ls"] exI [of _ t] exI [of _ rs]) auto
  qed
qed

lemma first_fit_None: "first_fit n xs = None \<longleftrightarrow> (\<forall>(s, f) \<in> set xs. f \<longrightarrow> s < n)"
  by (induction n xs rule: first_fit.induct) auto

text \<open>The payloads of the allocated blocks: address and size.\<close>

fun live :: "nat \<Rightarrow> blk list \<Rightarrow> (nat \<times> nat) set" where
  "live a [] = {}"
| "live a ((n, f) # xs) = (if f then {} else {(a + 16, n)}) \<union> live (a + 16 + n) xs"

lemma live_append [simp]: "live a (xs @ ys) = live a xs \<union> live (a + total xs) ys"
  by (induction a xs rule: live.induct) (auto simp: algebra_simps)

lemma live_bounds: "(p, n) \<in> live a xs \<Longrightarrow> a + 16 \<le> p \<and> p + n \<le> a + total xs"
  by (induction a xs rule: live.induct) (auto split: if_splits)

lemma live_disjoint:
  "(p, n) \<in> live a xs \<Longrightarrow> (q, k) \<in> live a xs \<Longrightarrow>
   (p, n) = (q, k) \<or> p + n + 16 \<le> q \<or> q + k + 16 \<le> p"
proof (induction a xs rule: live.induct)
  case (1 a)
  then show ?case by simp
next
  case (2 a m f xs)
  then show ?case using live_bounds [of _ _ "a + 16 + m" xs] by (auto split: if_splits)
qed

lemma live_split: "(p, k) \<in> live a xs \<Longrightarrow>
   \<exists>ls rs. xs = ls @ (k, False) # rs \<and> p = a + total ls + 16"
proof (induction a xs rule: live.induct)
  case (1 a)
  then show ?case by simp
next
  case (2 a m f xs)
  show ?case
  proof (cases "(p, k) \<in> live (a + 16 + m) xs")
    case True
    with "2.IH" obtain ls rs where "xs = ls @ (k, False) # rs \<and> p = a + 16 + m + total ls + 16"
      by blast
    then show ?thesis by (intro exI [of _ "(m, f) # ls"] exI [of _ rs]) auto
  next
    case False
    with "2.prems" show ?thesis
      by (intro exI [of _ "[]"] exI [of _ xs]) (auto split: if_splits)
  qed
qed

lemma live_place: "live a (place n s) = {(a + 16, if n + 24 \<le> s then n else s)}"
  by (simp add: place_def)

lemma total_merge_right [simp]: "total (merge_right n rs) = n + 16 + total rs"
  by (auto simp: merge_right_def split: list.splits prod.splits bool.splits)

lemma live_merge_right [simp]: "live a (merge_right n rs) = live (a + 16 + n) rs"
  by (auto simp: merge_right_def algebra_simps split: list.splits prod.splits bool.splits)

lemma merge_left_laws:
  "total (merge_left ls ((n, True) # rs)) = total ls + total ((n, True) # rs)"
  "live a (merge_left ls ((n, True) # rs)) = live a ls \<union> live (a + total ls) ((n, True) # rs)"
  by (cases ls rule: rev_cases; auto simp: merge_left_def algebra_simps)+

lemma merge_right_head: "\<exists>n' rs'. merge_right n rs = (n', True) # rs'"
  by (auto simp: merge_right_def split: list.splits prod.splits bool.splits)

lemma total_free_blk: "total (free_blk ls n rs) = total (ls @ (n, False) # rs)"
proof -
  obtain n' rs' where m: "merge_right n rs = (n', True) # rs'" using merge_right_head by blast
  with total_merge_right [of n rs] show ?thesis
    by (simp add: free_blk_def merge_left_laws del: total_merge_right)
qed

lemma live_free_blk: "live a (free_blk ls n rs) = live a ls \<union> live (a + total ls + 16 + n) rs"
proof -
  obtain n' rs' where m: "merge_right n rs = (n', True) # rs'" using merge_right_head by blast
  with live_merge_right [of "a + total ls" n rs] show ?thesis
    by (simp add: free_blk_def merge_left_laws del: live_merge_right)
qed

lemma merge_left_sizes:
  assumes "\<forall>b \<in> set ls \<union> set xs. 8 dvd fst b"
  shows "\<forall>b \<in> set (merge_left ls xs). (8 :: nat) dvd fst b"
proof (cases xs)
  case Nil
  with assms show ?thesis by (simp add: merge_left_def)
next
  case (Cons c rs)
  have "ls \<noteq> [] \<Longrightarrow> 8 dvd fst (last ls)" using assms by simp
  then have "ls \<noteq> [] \<Longrightarrow> 8 dvd fst (last ls) + 16 + fst c"
    using assms Cons by (intro dvd_add) auto
  moreover have "\<forall>b \<in> set (butlast ls). 8 dvd fst b"
    using assms by (auto dest: in_set_butlastD)
  ultimately show ?thesis
    using assms unfolding Cons by (cases c) (simp add: merge_left_def ball_Un)
qed

lemma free_blk_sizes:
  assumes "\<forall>b \<in> set (ls @ (n, False) # rs). fst b mod 8 = 0"
  shows "\<forall>b \<in> set (free_blk ls n rs). fst b mod 8 = 0"
proof -
  have dvd: "\<forall>b \<in> set (ls @ (n, False) # rs). 8 dvd fst b"
    using assms by (simp add: dvd_eq_mod_eq_0)
  then have ls: "\<forall>b \<in> set ls. 8 dvd fst b" by simp
  have mr: "\<forall>b \<in> set (merge_right n rs). 8 dvd fst b"
  proof (cases rs)
    case Nil
    with dvd show ?thesis by (simp add: merge_right_def)
  next
    case (Cons c rs')
    obtain k g where c: "c = (k, g)" by (cases c)
    have "8 dvd n + 16 + k" using dvd unfolding Cons c by (intro dvd_add) simp_all
    with dvd show ?thesis unfolding Cons c by (cases g) (simp_all add: merge_right_def)
  qed
  have "\<forall>b \<in> set (free_blk ls n rs). 8 dvd fst b"
    unfolding free_blk_def by (rule merge_left_sizes) (use ls mr in blast)
  then show ?thesis by (simp add: dvd_eq_mod_eq_0)
qed

text \<open>No two neighbouring blocks are both free.\<close>

fun coalesced :: "blk list \<Rightarrow> bool" where
  "coalesced (b # c # xs) = (\<not> (snd b \<and> snd c) \<and> coalesced (c # xs))"
| "coalesced _ = True"

lemma coalesced_Cons: "coalesced (b # xs) \<longleftrightarrow> coalesced xs \<and> (xs = [] \<or> \<not> (snd b \<and> snd (hd xs)))"
  by (cases xs) auto

lemma coalesced_append:
  "coalesced (xs @ ys) \<longleftrightarrow> coalesced xs \<and> coalesced ys \<and>
     (xs = [] \<or> ys = [] \<or> \<not> (snd (last xs) \<and> snd (hd ys)))"
  by (induction xs) (auto simp: coalesced_Cons)

lemma coalesced_first_fit:
  assumes "coalesced xs" and "first_fit n xs = Some (off, ys)" shows "coalesced ys"
  using first_fit_Some [OF assms(2)] assms(1)
  by (auto simp: coalesced_append coalesced_Cons place_def)

lemma coalesced_free_blk: "coalesced (ls @ (n, False) # rs) \<Longrightarrow> coalesced (free_blk ls n rs)"
  by (cases ls rule: rev_cases; cases rs)
    (auto simp: free_blk_def merge_left_def merge_right_def coalesced_append coalesced_Cons
      split: list.splits bool.splits prod.splits)

text \<open>Releasing the block first fit has just carved out restores the list.\<close>

lemma free_blk_first_fit:
  assumes "coalesced (ls @ (s, True) # rs)" and "n \<le> s"
  shows "\<exists>k rs'. ls @ place n s @ rs = ls @ (k, False) # rs' \<and>
           free_blk ls k rs' = ls @ (s, True) # rs"
proof (cases "n + 24 \<le> s")
  case True
  have "free_blk ls n ((s - n - 16, True) # rs) = ls @ (s, True) # rs"
    using assms True by (auto simp: free_blk_def merge_left_def merge_right_def coalesced_append)
  with True show ?thesis by (auto simp: place_def)
next
  case False
  have "free_blk ls s rs = ls @ (s, True) # rs"
    using assms
    by (cases rs) (auto simp: free_blk_def merge_left_def merge_right_def coalesced_append
        split: bool.splits)
  with False show ?thesis by (auto simp: place_def)
qed

lemma coalesced_all_free:
  assumes "coalesced xs" and "live a xs = {}" and "xs \<noteq> []"
  shows "\<exists>n. xs = [(n, True)]"
proof (cases xs rule: coalesced.cases)
  case (1 b c ys)
  then show ?thesis using assms by (cases b; cases c) (auto split: if_splits)
qed (use assms in \<open>auto split: if_splits\<close>)

section \<open>The heap invariant and the two operations\<close>

text \<open>
  \<open>heap_inv hb h xs\<close>: once initialised (which the first \<open>kmalloc\<close> does), the memory of \<open>h\<close>
  represents the block list \<open>xs\<close>.
\<close>

definition heap_inv :: "u32 \<Rightarrow> heap \<Rightarrow> blk list \<Rightarrow> bool" where
  "heap_inv hb h xs \<longleftrightarrow> heap_rep hb (heap_init hb h) xs"

definition fresh_heap :: heap where
  "fresh_heap = \<lparr>heap_head = 0, hmem = Map.empty\<rparr>"

lemma heap_init_idem: "hb \<noteq> 0 \<Longrightarrow> heap_init hb (heap_init hb h) = heap_init hb h"
  by (simp add: heap_init_def)

lemma heap_rep_init: "heap_rep hb h xs \<Longrightarrow> heap_init hb h = h"
  by (auto simp: heap_init_def heap_rep_def)

lemma heap_inv_rep: "heap_rep hb h xs \<Longrightarrow> heap_inv hb h xs"
  by (simp add: heap_inv_def heap_rep_init)

lemma heap_inv_fresh:
  "hb \<noteq> 0 \<Longrightarrow> unat hb + 65536 < 2 ^ 32 \<Longrightarrow> heap_head h = 0 \<Longrightarrow> heap_inv hb h [(65520, True)]"
  by (simp add: heap_inv_def heap_rep_def heap_init_def)

lemma align8_eq: "unat (align8 n) = unat (n + 7) div 8 * 8"
proof -
  have seven: "(7 :: u32) = mask 3" by (simp add: mask_eq_exp_minus_1)
  have "(n + 7) AND NOT 7 = push_bit 3 (drop_bit 3 (n + 7))"
    unfolding seven by (rule bit_word_eqI) (auto simp: bit_simps)
  moreover have "unat (push_bit 3 (drop_bit 3 (n + 7))) = unat (n + 7) div 8 * 8"
  proof -
    have "unat (drop_bit 3 (n + 7)) = unat (n + 7) div 8"
      by (subst unat_drop_bit_eq) (simp add: drop_bit_eq_div)
    moreover have "unat (n + 7) div 8 < 536870912"
      using unat_less_u32 [of "n + 7"] by (intro less_mult_imp_div_less) simp
    ultimately show ?thesis
      by (simp add: push_bit_eq_mult unat_word_ariths mult.commute)
  qed
  ultimately show ?thesis by (simp add: align8_def)
qed

lemma align8_mod: "unat (align8 n) mod 8 = 0"
  by (simp add: align8_eq)

lemma align8_ge:
  assumes "unat n + 7 < 2 ^ 32"
  shows "unat n \<le> unat (align8 n)" and "unat (align8 n) < unat n + 8"
proof -
  have "unat (n + 7) = unat n + 7" using unat_add_small [of n 7] assms by simp
  then have "unat (align8 n) = (unat n + 7) div 8 * 8" by (simp add: align8_eq)
  then show "unat n \<le> unat (align8 n)" and "unat (align8 n) < unat n + 8"
    by presburger+
qed

lemma first_fit_heap_sizes:
  assumes "first_fit n xs = Some (off, ys)" and "n mod 8 = 0" and "\<forall>b \<in> set xs. fst b mod 8 = 0"
  shows "\<forall>b \<in> set ys. fst b mod 8 = 0"
proof -
  obtain ls s rs where d: "xs = ls @ (s, True) # rs" "n \<le> s" "ys = ls @ place n s @ rs"
    using first_fit_Some [OF assms(1)] by blast
  have "n + 24 \<le> s \<Longrightarrow> (s - n - 16) mod 8 = 0"
    using assms(2,3) d(1) by (auto intro!: mod_eq_0_iff_dvd [THEN iffD2] dvd_diff_nat)
  then show ?thesis using assms(2,3) d by (auto simp: place_def)
qed

lemma kmalloc_step:
  assumes inv: "heap_inv hb h xs" and n: "n \<noteq> 0"
  shows "case first_fit (unat (align8 n)) xs of
           None \<Rightarrow> kmalloc hb n h = Some (0, heap_init hb h)
         | Some (off, ys) \<Rightarrow>
             \<exists>h'. kmalloc hb n h = Some (of_nat (unat hb + off), h') \<and> heap_inv hb h' ys"
proof -
  let ?h = "heap_init hb h"
  have rep: "heap_head ?h = hb" "hb \<noteq> 0" "unat hb + 65536 < 2 ^ 32" "total xs = 65536"
    "\<forall>b \<in> set xs. fst b mod 8 = 0" "chain (hmem ?h) 0 0 (unat hb) xs"
    using inv by (simp_all add: heap_inv_def heap_rep_def)
  have hb: "0 < unat hb" using rep(2) by (simp add: unat_gt_0)
  have eq: "kmalloc hb n h = kmalloc_walk (align8 n) (of_nat (unat hb)) ?h"
    using n rep(1) by (simp add: kmalloc_def Let_def)
  have walk: "case first_fit (unat (align8 n)) xs of
           None \<Rightarrow> kmalloc hb n h = Some (0, ?h)
         | Some (off, ys) \<Rightarrow>
             \<exists>m'. kmalloc hb n h = Some (of_nat (unat hb + off), ?h\<lparr>hmem := m'\<rparr>) \<and>
                  chain m' 0 0 (unat hb) ys \<and> (\<forall>z. unat z < unat hb \<longrightarrow> m' z = hmem ?h z)"
    unfolding eq
    by (rule kmalloc_walk_chain [OF rep(6)]) (use rep hb in auto)
  show ?thesis
  proof (cases "first_fit (unat (align8 n)) xs")
    case None
    with walk show ?thesis by simp
  next
    case (Some r)
    obtain off ys where r: "r = (off, ys)" by (cases r)
    with walk Some obtain m' where m': "kmalloc hb n h = Some (of_nat (unat hb + off), ?h\<lparr>hmem := m'\<rparr>)"
      "chain m' 0 0 (unat hb) ys" by auto
    have "total ys = 65536"
      using first_fit_Some [OF Some [unfolded r]] rep(4) by (auto simp: total_place)
    moreover have "\<forall>b \<in> set ys. fst b mod 8 = 0"
      using first_fit_heap_sizes [OF Some [unfolded r] align8_mod rep(5)] .
    ultimately have "heap_rep hb (?h\<lparr>hmem := m'\<rparr>) ys"
      using m'(2) rep by (simp add: heap_rep_def)
    with m'(1) Some r show ?thesis by (auto dest: heap_inv_rep)
  qed
qed

lemma kfree_step:
  assumes inv: "heap_inv hb h (ls @ (n, False) # rs)" and init: "heap_head h \<noteq> 0"
    and p: "p = of_nat (unat hb + total ls + 16)"
  shows "\<exists>h'. kfree p h = Some h' \<and> heap_inv hb h' (free_blk ls n rs)"
proof -
  let ?a = "unat hb + total ls"
  have rep: "heap_head h = hb" "hb \<noteq> 0" "unat hb + 65536 < 2 ^ 32"
    "total (ls @ (n, False) # rs) = 65536" "\<forall>b \<in> set (ls @ (n, False) # rs). fst b mod 8 = 0"
    "chain (hmem h) 0 0 (unat hb) (ls @ (n, False) # rs)"
    using inv init by (simp_all add: heap_inv_def heap_rep_def heap_init_def)
  have hb: "0 < unat hb" using rep(2) by (simp add: unat_gt_0)
  have a: "unat (of_nat ?a :: u32) = ?a" using rep by (intro unat_of_nat_u32) auto
  have p0: "p \<noteq> 0"
    using of_nat_eq_u32 [of "?a + 16" 0] rep hb by (auto simp: p simp del: of_nat_add)
  have blk: "p - 16 = of_nat ?a" by (simp add: p)
  have ls0: "chain (hmem h) 0 (of_nat ?a) (unat hb) ls"
    and ch0: "chain (hmem h) (last_addr 0 (unat hb) ls) 0 ?a ((n, False) # rs)"
    using rep(6) unfolding chain_append by (simp_all only: list.distinct if_False)
  define h1 where "h1 = h\<lparr>hmem := (hmem h)(of_nat ?a \<mapsto>
      \<lparr>hsize = of_nat n, hfree = True, hnext = (if rs = [] then 0 else of_nat (?a + 16 + n)),
       hprev = last_addr 0 (unat hb) ls\<rparr>)\<rparr>"
  have hm: "hmem h1 = (hmem h)(of_nat ?a \<mapsto>
      \<lparr>hsize = of_nat n, hfree = True, hnext = (if rs = [] then 0 else of_nat (?a + 16 + n)),
       hprev = last_addr 0 (unat hb) ls\<rparr>)"
    by (simp add: h1_def)
  have h1_hd: "heap_head h1 = heap_head h" by (simp add: h1_def)
  have free_eq: "kfree p h = coalesce (of_nat ?a) h1"
    using p0 ch0 by (simp add: kfree_def blk Let_def h1_def del: of_nat_add)
  have "chain (hmem h1) (of_nat ?a) 0 (?a + 16 + n) rs"
    unfolding hm by (rule chain_update_outside [where m = "hmem h"]) (use ch0 rep a in auto)
  then have ch1: "chain (hmem h1) (last_addr 0 (unat hb) ls) 0 ?a ((n, True) # rs)"
    by (simp add: hm)
  have ls1: "chain (hmem h1) 0 (of_nat ?a) (unat hb) ls"
    unfolding hm by (rule chain_update_outside [OF ls0]) (use rep a in auto)
  obtain m2 where m2: "coalesce_next (of_nat ?a) h1 = Some (h1\<lparr>hmem := m2\<rparr>)"
      "chain m2 (last_addr 0 (unat hb) ls) 0 ?a (merge_right n rs)"
      "\<forall>z. unat z < ?a \<longrightarrow> m2 z = hmem h1 z"
    using coalesce_next_chain [OF ch1] rep hb by auto
  have ls2: "chain m2 0 (of_nat ?a) (unat hb) ls"
    using ls1 by (rule chain_frame) (use m2(3) rep in auto)
  obtain n' rs' where mr: "merge_right n rs = (n', True) # rs'" using merge_right_head by blast
  have tot: "total ((n', True) # rs') = n + 16 + total rs"
    using total_merge_right [of n rs] by (simp add: mr)
  obtain m3 where m3: "coalesce_prev (of_nat ?a) (h1\<lparr>hmem := m2\<rparr>) = Some (h1\<lparr>hmem := m3\<rparr>)"
      "chain m3 0 0 (unat hb) (free_blk ls n rs)"
    using coalesce_prev_chain [of "h1\<lparr>hmem := m2\<rparr>" ?a "unat hb" ls n' True rs'] ls2 m2(2) rep hb tot
    by (auto simp: mr free_blk_def)
  have "heap_rep hb (h1\<lparr>hmem := m3\<rparr>) (free_blk ls n rs)"
    unfolding heap_rep_def using m3(2) rep(1-3) h1_hd total_free_blk [of ls n rs]
      free_blk_sizes [OF rep(5)] rep(4) by simp
  then show ?thesis
    using free_eq m2(1) m3(1) by (auto simp: coalesce_def dest: heap_inv_rep)
qed

section \<open>The interface the rest of the kernel uses\<close>

text \<open>
  What \<^verbatim>\<open>operator new\<close> and \<^verbatim>\<open>operator delete\<close> promise their callers. \<open>holds h L\<close>: heap
  \<open>h\<close> is intact and \<open>L\<close> is the set of the allocated blocks, each an address and a size.
  \<open>room h n\<close>: it can serve a request of \<open>n\<close> bytes; it answers with the null pointer exactly if not.
\<close>

locale allocator =
  fixes alloc :: "u32 \<Rightarrow> 'h \<Rightarrow> (u32 \<times> 'h) option"
    and free :: "u32 \<Rightarrow> 'h \<Rightarrow> 'h option"
    and holds :: "'h \<Rightarrow> (nat \<times> nat) set \<Rightarrow> bool"
    and room :: "'h \<Rightarrow> u32 \<Rightarrow> bool"
  assumes alloc_law: "holds h L \<Longrightarrow> n \<noteq> 0 \<Longrightarrow> unat n + 7 < 2 ^ 32 \<Longrightarrow>
      \<exists>p h'. alloc n h = Some (p, h') \<and>
        (if p = 0 then holds h' L
         else \<exists>k. unat n \<le> k \<and> holds h' (insert (unat p, k) L) \<and>
                  (\<forall>(q, j) \<in> L. unat p + k < q \<or> q + j < unat p))"
    and alloc_room: "holds h L \<Longrightarrow> n \<noteq> 0 \<Longrightarrow> alloc n h = Some (p, h') \<Longrightarrow> p \<noteq> 0 \<longleftrightarrow> room h n"
    and free_law: "holds h L \<Longrightarrow> (unat p, k) \<in> L \<Longrightarrow>
      \<exists>h'. free p h = Some h' \<and> holds h' (L - {(unat p, k)})"
    and free_null: "free 0 h = Some h"
    and live_apart: "holds h L \<Longrightarrow> (a, i) \<in> L \<Longrightarrow> (b, j) \<in> L \<Longrightarrow>
      (a, i) = (b, j) \<or> a + i < b \<or> b + j < a"
    and live_finite: "holds h L \<Longrightarrow> finite L"
    and live_range: "holds h L \<Longrightarrow> (a, i) \<in> L \<Longrightarrow> a \<noteq> 0 \<and> a + i < 2 ^ 32"
begin

lemma alloc_new:
  assumes "holds h L" and "n \<noteq> 0" and "unat n + 7 < 2 ^ 32" and "alloc n h = Some (p, h')"
    and "p \<noteq> 0"
  obtains k where "unat n \<le> k" and "holds h' (insert (unat p, k) L)" and "(unat p, k) \<notin> L"
  using alloc_law [OF assms(1-3)] assms(4,5) by fastforce

lemma alloc_null:
  assumes "holds h L" and "n \<noteq> 0" and "unat n + 7 < 2 ^ 32" and "alloc n h = Some (0, h')"
  shows "holds h' L"
  using alloc_law [OF assms(1-3)] assms(4) by auto

text \<open>An allocation that is released at once leaves the set of live blocks as it was.\<close>

lemma alloc_free:
  assumes "holds h L" and "n \<noteq> 0" and "unat n + 7 < 2 ^ 32" and "alloc n h = Some (p, h')"
  shows "\<exists>h''. free p h' = Some h'' \<and> holds h'' L"
proof (cases "p = 0")
  case True
  with assms alloc_null free_null show ?thesis by auto
next
  case False
  with assms obtain k where k: "holds h' (insert (unat p, k) L)" "(unat p, k) \<notin> L"
    by (blast elim: alloc_new)
  with free_law [OF k(1)] show ?thesis by fastforce
qed

text \<open>Replacing a buffer (allocate, copy, release the old one) keeps the number of live blocks.\<close>

lemma replace_count:
  assumes "holds h L" and "(unat old, j) \<in> L" and "n \<noteq> 0" and "unat n + 7 < 2 ^ 32"
    and "alloc n h = Some (p, h1)" and "p \<noteq> 0"
  shows "\<exists>h2 L2. free old h1 = Some h2 \<and> holds h2 L2 \<and> card L2 = card L \<and> (unat old, j) \<notin> L2 \<and>
           (\<exists>k. unat n \<le> k \<and> (unat p, k) \<in> L2)"
proof -
  obtain k where k: "unat n \<le> k" "holds h1 (insert (unat p, k) L)" "(unat p, k) \<notin> L"
    using assms(1,3-6) by (blast elim: alloc_new)
  obtain h2 where h2: "free old h1 = Some h2" "holds h2 (insert (unat p, k) L - {(unat old, j)})"
    using free_law [OF k(2)] assms(2) by blast
  have ne: "(unat p, k) \<noteq> (unat old, j)" using k(3) assms(2) by auto
  have "card (insert (unat p, k) L - {(unat old, j)}) = card L"
    using live_finite [OF assms(1)] k(3) assms(2) by (simp add: card_Diff_singleton)
  with h2 ne k(1) show ?thesis by blast
qed

end

definition heap_holds :: "u32 \<Rightarrow> heap \<Rightarrow> (nat \<times> nat) set \<Rightarrow> bool" where
  "heap_holds hb h L \<longleftrightarrow>
     (\<exists>xs. heap_inv hb h xs \<and> coalesced xs \<and> L = live (unat hb) xs \<and>
           (heap_head h = 0 \<longrightarrow> L = {}))"

text \<open>Room for \<open>n\<close> bytes: a free block of at least that size, rounded up to a multiple of 8.\<close>

definition heap_room :: "u32 \<Rightarrow> heap \<Rightarrow> u32 \<Rightarrow> bool" where
  "heap_room hb h n \<longleftrightarrow> (\<exists>xs s. heap_inv hb h xs \<and> (s, True) \<in> set xs \<and> unat (align8 n) \<le> s)"

lemma heap_inv_bounds:
  "heap_inv hb h xs \<Longrightarrow> hb \<noteq> 0 \<and> unat hb + 65536 < 2 ^ 32 \<and> total xs = 65536"
  by (simp add: heap_inv_def heap_rep_def)

lemma kmalloc_head: "heap_inv hb h' ys \<Longrightarrow> live (unat hb) ys \<noteq> {} \<Longrightarrow> heap_head h' \<noteq> 0"
proof
  assume inv: "heap_inv hb h' ys" and ne: "live (unat hb) ys \<noteq> {}" and z: "heap_head h' = 0"
  obtain n f zs where ys: "ys = (n, f) # zs" using ne by (cases ys) auto
  have "n < 65536" using heap_inv_bounds [OF inv] by (simp add: ys)
  then have "f" and "zs = []"
    using inv z heap_inv_bounds [OF inv] of_nat_eq_u32 [of "unat hb + 16 + n" 0]
    by (auto simp: ys heap_inv_def heap_rep_def heap_init_def split: if_splits)
  with ne show False by (simp add: ys)
qed

lemma heap_init_holds: "heap_inv hb h xs \<Longrightarrow> heap_inv hb (heap_init hb h) xs"
  using heap_inv_bounds [of hb h xs] by (simp add: heap_inv_def heap_init_idem)

lemma kmalloc_law:
  assumes "heap_holds hb h L" and "n \<noteq> 0"
  shows "\<exists>p h'. kmalloc hb n h = Some (p, h') \<and>
        (if p = 0 then heap_holds hb h' L
         else \<exists>k. (unat n + 7 < 2 ^ 32 \<longrightarrow> unat n \<le> k) \<and> heap_holds hb h' (insert (unat p, k) L) \<and>
                  (\<forall>(q, j) \<in> L. unat p + k < q \<or> q + j < unat p) \<and>
                  unat hb + 16 \<le> unat p \<and> unat p + k \<le> unat hb + 65536)"
proof -
  obtain xs where xs: "heap_inv hb h xs" "coalesced xs" "L = live (unat hb) xs"
    using assms(1) by (auto simp: heap_holds_def)
  note step = kmalloc_step [OF xs(1) assms(2)] and bnd = heap_inv_bounds [OF xs(1)]
  show ?thesis
  proof (cases "first_fit (unat (align8 n)) xs")
    case None
    have "heap_holds hb (heap_init hb h) L"
      using xs heap_init_holds [OF xs(1)] bnd assms(1)
      by (auto simp: heap_holds_def heap_init_def split: if_splits)
    with None step show ?thesis by auto
  next
    case (Some r)
    obtain off ys where r: "r = (off, ys)" by (cases r)
    obtain ls s rs where d: "xs = ls @ (s, True) # rs" "unat (align8 n) \<le> s"
      "ys = ls @ place (unat (align8 n)) s @ rs" "off = total ls + 16"
      using first_fit_Some [OF Some [unfolded r]] by blast
    obtain h' where h': "kmalloc hb n h = Some (of_nat (unat hb + off), h')" "heap_inv hb h' ys"
      using step Some r by auto
    define p where "p = (of_nat (unat hb + off) :: u32)"
    define k where "k = (if unat (align8 n) + 24 \<le> s then unat (align8 n) else s)"
    have "unat hb + off < 2 ^ 32" using bnd d by simp
    then have p: "unat p = unat hb + total ls + 16"
      unfolding p_def d(4) by (subst unat_of_nat_u32) simp_all
    have liv: "live (unat hb) ys = insert (unat p, k) L"
      using d(2) by (auto simp: xs(3) d(1,3) p k_def live_place total_place algebra_simps)
    have kge: "unat n + 7 < 2 ^ 32 \<longrightarrow> unat n \<le> k" using align8_ge(1) [of n] d(2) by (auto simp: k_def)
    have "heap_holds hb h' (insert (unat p, k) L)"
      unfolding heap_holds_def liv [symmetric]
      using h'(2) coalesced_first_fit [OF xs(2) Some [unfolded r]] kmalloc_head [OF h'(2)] by blast
    moreover have new: "(unat p, k) \<notin> L"
      using live_bounds [of "unat p" k "unat hb" ls] live_bounds [of "unat p" k "unat hb + total ls + 16 + s" rs]
      by (auto simp: xs(3) d(1) p algebra_simps)
    moreover have "unat p + k < q \<or> q + j < unat p" if "(q, j) \<in> L" for q j
      using live_disjoint [of "unat p" k "unat hb" ys q j] that new by (auto simp: liv)
    moreover have "p \<noteq> 0" using p by (auto simp: unat_eq_zero)
    moreover have "unat hb + 16 \<le> unat p \<and> unat p + k \<le> unat hb + 65536"
      using live_bounds [of "unat p" k "unat hb" ys] heap_inv_bounds [OF h'(2)] by (simp add: liv)
    ultimately show ?thesis
      using h'(1) kge unfolding p_def [symmetric] by (intro exI [of _ p] exI [of _ h']) auto
  qed
qed

lemma kmalloc_room:
  assumes "heap_inv hb h xs" and "n \<noteq> 0" and "kmalloc hb n h = Some (p, h')"
  shows "p \<noteq> 0 \<longleftrightarrow> (\<exists>s. (s, True) \<in> set xs \<and> unat (align8 n) \<le> s)"
proof (cases "first_fit (unat (align8 n)) xs")
  case None
  then have "p = 0" using kmalloc_step [OF assms(1,2)] assms(3) by simp
  moreover have "\<forall>(s, f) \<in> set xs. f \<longrightarrow> s < unat (align8 n)" using None by (simp only: first_fit_None)
  ultimately show ?thesis by fastforce
next
  case (Some r)
  obtain off ys where r: "r = (off, ys)" by (cases r)
  obtain ls s rs where d: "xs = ls @ (s, True) # rs" "unat (align8 n) \<le> s" "off = total ls + 16"
    using first_fit_Some [OF Some [unfolded r]] by blast
  have "unat hb + off < 2 ^ 32" and "off \<noteq> 0" using heap_inv_bounds [OF assms(1)] d by auto
  then have "of_nat (unat hb + off) \<noteq> (0 :: u32)"
    using of_nat_eq_u32 [of "unat hb + off" 0] by (simp del: of_nat_add)
  moreover have "p = of_nat (unat hb + off)" using kmalloc_step [OF assms(1,2)] assms(3) Some r by auto
  ultimately show ?thesis using d(1,2) by auto
qed

lemma kmalloc_heap_room:
  assumes "heap_holds hb h L" and "n \<noteq> 0" and "kmalloc hb n h = Some (p, h')"
  shows "p \<noteq> 0 \<longleftrightarrow> heap_room hb h n"
proof -
  obtain xs where xs: "heap_inv hb h xs" using assms(1) by (auto simp: heap_holds_def)
  show ?thesis
    using kmalloc_room [OF xs assms(2,3)] kmalloc_room [OF _ assms(2,3)] xs unfolding heap_room_def by blast
qed

lemma kfree_law:
  assumes "heap_holds hb h L" and "(unat p, k) \<in> L"
  shows "\<exists>h'. kfree p h = Some h' \<and> heap_holds hb h' (L - {(unat p, k)})"
proof -
  obtain xs where xs: "heap_inv hb h xs" "coalesced xs" "L = live (unat hb) xs"
    and hd: "heap_head h \<noteq> 0" using assms by (auto simp: heap_holds_def)
  obtain ls rs where d: "xs = ls @ (k, False) # rs" "unat p = unat hb + total ls + 16"
    using live_split assms(2) xs(3) by blast
  have p: "p = of_nat (unat hb + total ls + 16)" using d(2) by (metis of_nat_unat_u32)
  obtain h' where h': "kfree p h = Some h'" "heap_inv hb h' (free_blk ls k rs)"
    using kfree_step [OF xs(1) [unfolded d(1)] hd p] by blast
  have "live (unat hb) (free_blk ls k rs) = L - {(unat p, k)}"
    using live_bounds [of "unat p" k "unat hb" ls]
      live_bounds [of "unat p" k "unat hb + total ls + 16 + k" rs]
    by (auto simp: live_free_blk xs(3) d algebra_simps)
  then have "heap_holds hb h' (L - {(unat p, k)})"
    using h'(2) coalesced_free_blk xs(2) d(1) kmalloc_head [OF h'(2)]
    unfolding heap_holds_def by metis
  with h'(1) show ?thesis by blast
qed

lemma finite_live [simp]: "finite (live a xs)"
  by (induction a xs rule: live.induct) auto

lemma heap_holds_range:
  assumes "heap_holds hb h L" and "(a, k) \<in> L"
  shows "unat hb + 16 \<le> a" "a + k \<le> unat hb + 65536" "unat hb + 65536 < 2 ^ 32"
proof -
  obtain xs where xs: "heap_inv hb h xs" "L = live (unat hb) xs" using assms(1) by (auto simp: heap_holds_def)
  show "unat hb + 16 \<le> a" "a + k \<le> unat hb + 65536" "unat hb + 65536 < 2 ^ 32"
    using live_bounds [of a k "unat hb" xs] heap_inv_bounds [OF xs(1)] assms(2) by (simp_all add: xs(2))
qed

interpretation kh: allocator "kmalloc hb" kfree "heap_holds hb" "heap_room hb" for hb
proof unfold_locales
  fix h L n p h' assume "heap_holds hb h L" "n \<noteq> 0" "kmalloc hb n h = Some (p, h')"
  then show "p \<noteq> 0 \<longleftrightarrow> heap_room hb h n" by (rule kmalloc_heap_room)
next
  fix h L and n :: u32 assume "heap_holds hb h L" "n \<noteq> 0" "unat n + 7 < 2 ^ 32"
  then show "\<exists>p h'. kmalloc hb n h = Some (p, h') \<and>
        (if p = 0 then heap_holds hb h' L
         else \<exists>k. unat n \<le> k \<and> heap_holds hb h' (insert (unat p, k) L) \<and>
                  (\<forall>(q, j) \<in> L. unat p + k < q \<or> q + j < unat p))"
    using kmalloc_law [of hb h L n] by (auto split: if_splits; blast)
next
  fix h L p n q k assume "heap_holds hb h L" "(p, n) \<in> L" "(q, k) \<in> L"
  then show "(p, n) = (q, k) \<or> p + n < q \<or> q + k < p"
    by (auto simp: heap_holds_def dest: live_disjoint)
next
  fix h L and p :: u32 and k assume "heap_holds hb h L" "(unat p, k) \<in> L"
  then show "\<exists>h'. kfree p h = Some h' \<and> heap_holds hb h' (L - {(unat p, k)})"
    by (rule kfree_law)
next
  fix h L a i assume "heap_holds hb h L" "(a, i) \<in> L"
  from heap_holds_range [OF this] show "a \<noteq> 0 \<and> a + i < 2 ^ 32" by simp
qed (auto simp: heap_holds_def kfree_def)

section \<open>Runs of the allocator\<close>

text \<open>
  \<open>heap_run hb h P\<close>: heap \<open>h\<close> is reached from the state at boot by calls of \<open>kmalloc\<close> (any
  size) and of \<open>kfree\<close> on a pointer that is still allocated; \<open>P\<close> are the allocated pointers.
\<close>

inductive heap_run :: "u32 \<Rightarrow> heap \<Rightarrow> u32 set \<Rightarrow> bool" where
  boot: "hb \<noteq> 0 \<Longrightarrow> unat hb + 65536 < 2 ^ 32 \<Longrightarrow> heap_run hb fresh_heap {}"
| alloc: "heap_run hb h P \<Longrightarrow> kmalloc hb n h = Some (p, h') \<Longrightarrow> p \<noteq> 0 \<Longrightarrow>
    heap_run hb h' (insert p P)"
| alloc_fails: "heap_run hb h P \<Longrightarrow> kmalloc hb n h = Some (0, h') \<Longrightarrow> heap_run hb h' P"
| release: "heap_run hb h P \<Longrightarrow> p \<in> P \<Longrightarrow> kfree p h = Some h' \<Longrightarrow> heap_run hb h' (P - {p})"

inductive_cases heap_runE: "heap_run hb h P"

lemma kmalloc_zero [simp]: "kmalloc hb 0 h = Some (0, h)"
  by (simp add: kmalloc_def)

lemma heap_holds_inj: "heap_holds hb h L \<Longrightarrow> (p, k) \<in> L \<Longrightarrow> (p, j) \<in> L \<Longrightarrow> k = j"
  using kh.live_apart [of hb h L p k p j] by auto

lemma heap_run_holds: "heap_run hb h P \<Longrightarrow> \<exists>L. heap_holds hb h L \<and> fst ` L = unat ` P"
proof (induction rule: heap_run.induct)
  case (boot hb)
  then show ?case
    using heap_inv_fresh [of hb fresh_heap]
    by (auto simp: heap_holds_def fresh_heap_def intro!: exI [of _ "[(65520, True)]"])
next
  case (alloc hb h P n p h')
  then have "n \<noteq> 0" by auto
  from alloc obtain L where L: "heap_holds hb h L" "fst ` L = unat ` P" by blast
  from kmalloc_law [OF L(1) \<open>n \<noteq> 0\<close>] alloc.hyps(2,3) obtain k where
    "heap_holds hb h' (insert (unat p, k) L)" by auto
  with L(2) show ?case by (intro exI [of _ "insert (unat p, k) L"]) simp
next
  case (alloc_fails hb h P n h')
  then obtain L where L: "heap_holds hb h L" "fst ` L = unat ` P" by blast
  have "heap_holds hb h' L"
  proof (cases "n = 0")
    case True
    with alloc_fails.hyps(2) L show ?thesis by simp
  next
    case False
    from kmalloc_law [OF L(1) False] alloc_fails.hyps(2) show ?thesis by simp
  qed
  with L(2) show ?case by blast
next
  case (release hb h P p h')
  then obtain L where L: "heap_holds hb h L" "fst ` L = unat ` P" by blast
  then obtain k where k: "(unat p, k) \<in> L" using release.hyps(2)
    by (metis (no_types, lifting) fst_conv image_iff prod.collapse)
  have "heap_holds hb h' (L - {(unat p, k)})" using kfree_law [OF L(1) k] release.hyps(3) by auto
  moreover have "fst ` (L - {(unat p, k)}) = unat ` (P - {p})"
  proof -
    have inj: "inj_on fst L" using heap_holds_inj [OF L(1)] by (auto simp: inj_on_def)
    have "fst ` (L - {(unat p, k)}) = fst ` L - {unat p}"
      using inj_on_image_set_diff [of fst L L "{(unat p, k)}"] inj k by simp
    also have "\<dots> = unat ` (P - {p})" unfolding L(2) by (auto simp: word_unat_eq_iff)
    finally show ?thesis .
  qed
  ultimately show ?case by blast
qed

section \<open>Properties\<close>

text \<open>C3: \<open>kmalloc\<close> is first fit. On an intact heap it never touches an address without a header
  and always returns; the block it returns is the first free one of the list that is large
  enough for the request rounded up to 8 bytes, split when the rest can hold a block of its own.
  It returns the null pointer, and leaves the blocks as they were, exactly when no free block is
  large enough.\<close>

theorem kmalloc_refines_first_fit:
  assumes "heap_inv hb h xs" and "n \<noteq> 0"
  shows "\<exists>p h'. kmalloc hb n h = Some (p, h') \<and>
           (case first_fit (unat (align8 n)) xs of
              None \<Rightarrow> p = 0 \<and> heap_inv hb h' xs \<and> (\<forall>(s, f) \<in> set xs. f \<longrightarrow> s < unat (align8 n))
            | Some (off, ys) \<Rightarrow> p = hb + of_nat off \<and> p \<noteq> 0 \<and> heap_inv hb h' ys)"
proof (cases "first_fit (unat (align8 n)) xs")
  case None
  then have "\<forall>(s, f) \<in> set xs. f \<longrightarrow> s < unat (align8 n)" by (simp only: first_fit_None)
  with None kmalloc_step [OF assms] heap_init_holds [OF assms(1)] show ?thesis
    by simp
next
  case (Some r)
  obtain off ys where r: "r = (off, ys)" by (cases r)
  obtain h' where h': "kmalloc hb n h = Some (of_nat (unat hb + off), h')" "heap_inv hb h' ys"
    using kmalloc_step [OF assms] Some r by auto
  have "unat hb + off < 2 ^ 32" and "off \<noteq> 0"
    using first_fit_Some [OF Some [unfolded r]] heap_inv_bounds [OF assms(1)] by auto
  then have "of_nat (unat hb + off) \<noteq> (0 :: u32)"
    using of_nat_eq_u32 [of "unat hb + off" 0] by (simp del: of_nat_add)
  with h' Some r show ?thesis by simp
qed

theorem kmalloc_refines_first_fit_witness:
  "heap_inv 65536 fresh_heap [(65520, True)] \<and>
   (\<exists>h'. kmalloc 65536 13 fresh_heap = Some (65552, h') \<and>
         heap_inv 65536 h' [(16, False), (65488, True)])"
proof -
  have inv: "heap_inv 65536 fresh_heap [(65520, True)]"
    by (rule heap_inv_fresh) (simp_all add: fresh_heap_def)
  show ?thesis
    using inv kmalloc_refines_first_fit [OF inv, of 13]
    by (simp add: align8_def place_def)
qed

text \<open>C26: what \<open>kmalloc\<close> returns is memory nobody else holds. On an intact heap a request of
  \<open>n\<close> bytes returns; a non-null result is the start of at least \<open>n\<close> bytes inside the heap
  array, disjoint from every block still allocated, and the other blocks stay allocated.\<close>

theorem kmalloc_fresh:
  assumes "heap_holds hb h L" and "n \<noteq> 0" and "unat n + 7 < 2 ^ 32"
  shows "\<exists>p h'. kmalloc hb n h = Some (p, h') \<and>
           (p = 0 \<and> heap_holds hb h' L \<or>
            p \<noteq> 0 \<and> (\<exists>k. unat n \<le> k \<and> unat hb \<le> unat p \<and> unat p + k \<le> unat hb + 65536 \<and>
                  (\<forall>(q, j) \<in> L. unat p + k < q \<or> q + j < unat p) \<and>
                  heap_holds hb h' (insert (unat p, k) L)))"
  using kmalloc_law [OF assms(1,2)] assms(3) by (auto split: if_splits; fastforce)

lemma fresh_heap_holds: "hb \<noteq> 0 \<Longrightarrow> unat hb + 65536 < 2 ^ 32 \<Longrightarrow> heap_holds hb fresh_heap {}"
  using heap_inv_fresh [of hb fresh_heap]
  by (auto simp: heap_holds_def fresh_heap_def intro!: exI [of _ "[(65520, True)]"])

theorem kmalloc_fresh_witness:
  "heap_holds 4096 fresh_heap {} \<and>
   (\<exists>p h'. kmalloc 4096 100 fresh_heap = Some (p, h'))"
proof -
  have h: "heap_holds 4096 fresh_heap {}" by (rule fresh_heap_holds) simp_all
  show ?thesis using h kmalloc_fresh [OF h, of 100] by auto
qed

text \<open>C27: \<open>kfree\<close> of a block that is allocated touches only headers of the heap, returns, and
  releases exactly that block: the heap stays intact (its neighbours, if free, merged with it)
  and every other block stays allocated.\<close>

theorem kfree_releases:
  assumes "heap_holds hb h L" and "(unat p, k) \<in> L"
  shows "\<exists>h'. kfree p h = Some h' \<and> heap_holds hb h' (L - {(unat p, k)})"
  using assms by (rule kh.free_law)

theorem kfree_releases_witness:
  "\<exists>p k h h'. heap_holds 4096 h {(unat p, k)} \<and> kfree p h = Some h' \<and> heap_holds 4096 h' {}"
proof -
  have h0: "heap_holds 4096 fresh_heap {}" by (rule fresh_heap_holds) simp_all
  have inv: "heap_inv 4096 fresh_heap [(65520, True)]"
    by (rule heap_inv_fresh) (simp_all add: fresh_heap_def)
  obtain h1 where h1: "kmalloc 4096 8 fresh_heap = Some (4112, h1)"
    using kmalloc_step [OF inv, of 8] by (auto simp: align8_def place_def)
  obtain k where k: "heap_holds 4096 h1 {(unat (4112 :: u32), k)}"
    using kh.alloc_new [OF h0 _ _ h1] by auto
  obtain h2 where h2: "kfree 4112 h1 = Some h2" "heap_holds 4096 h2 {}"
    using kfree_releases [OF k, of 4112 k] by auto
  show ?thesis
    by (rule exI [of _ 4112], rule exI [of _ k], rule exI [of _ h1], rule exI [of _ h2])
      (use k h2 in simp)
qed

text \<open>Releasing a block right after allocating it restores the block list exactly, splits
  undone: coalescing leaves no fragmentation behind.\<close>

theorem kmalloc_kfree_restores:
  assumes "heap_inv hb h xs" and "coalesced xs" and "n \<noteq> 0"
    and "kmalloc hb n h = Some (p, h')"
  shows "\<exists>h''. kfree p h' = Some h'' \<and> heap_inv hb h'' xs"
proof (cases "first_fit (unat (align8 n)) xs")
  case None
  with kmalloc_step [OF assms(1,3)] assms(4) heap_init_holds [OF assms(1)]
  show ?thesis by (simp add: kfree_def)
next
  case (Some r)
  obtain off ys where r: "r = (off, ys)" by (cases r)
  obtain ls s rs where d: "xs = ls @ (s, True) # rs" "unat (align8 n) \<le> s"
      "ys = ls @ place (unat (align8 n)) s @ rs" "off = total ls + 16"
    using first_fit_Some [OF Some [unfolded r]] by blast
  have h': "p = of_nat (unat hb + off)" "heap_inv hb h' ys"
    using kmalloc_step [OF assms(1,3)] Some r assms(4) by auto
  obtain k rs' where k: "ys = ls @ (k, False) # rs'" "free_blk ls k rs' = xs"
    using free_blk_first_fit [OF assms(2) [unfolded d(1)] d(2)] by (auto simp: d)
  have "heap_head h' \<noteq> 0" using h'(2) by (rule kmalloc_head) (auto simp: k(1))
  with kfree_step [OF h'(2) [unfolded k(1)], of p] h'(1) d(4) k(2) show ?thesis
    by (simp add: add.assoc)
qed

theorem kmalloc_kfree_restores_witness:
  "\<exists>p h' h''. kmalloc 4096 100 fresh_heap = Some (p, h') \<and> kfree p h' = Some h'' \<and>
     heap_inv 4096 h'' [(65520, True)]"
proof -
  have inv: "heap_inv 4096 fresh_heap [(65520, True)]"
    by (rule heap_inv_fresh) (simp_all add: fresh_heap_def)
  obtain p h' where r: "kmalloc 4096 100 fresh_heap = Some (p, h')"
    using kmalloc_step [OF inv, of 100] by (auto simp: align8_def place_def)
  with kmalloc_kfree_restores [OF inv _ _ r] show ?thesis by auto
qed

text \<open>C28: the heap never decays. After any run of calls of \<open>kmalloc\<close> and of \<open>kfree\<close> on allocated
  pointers, in any order, the header list tiles the 65536 bytes of the heap, no two neighbouring
  blocks are both free, the blocks marked allocated are exactly those handed out and not yet
  released, and once everything is released a single free block of 65520 bytes is left.\<close>

theorem heap_run_intact:
  assumes "heap_run hb h P"
  shows "\<exists>xs. heap_inv hb h xs \<and> total xs = 65536 \<and> coalesced xs \<and>
           fst ` live (unat hb) xs = unat ` P \<and> (P = {} \<longrightarrow> xs = [(65520, True)])"
proof -
  obtain L where L: "heap_holds hb h L" "fst ` L = unat ` P"
    using heap_run_holds [OF assms] by blast
  obtain xs where xs: "heap_inv hb h xs" "coalesced xs" "L = live (unat hb) xs"
    using L(1) by (auto simp: heap_holds_def)
  have tot: "total xs = 65536" using heap_inv_bounds [OF xs(1)] by simp
  have "xs = [(65520, True)]" if "P = {}"
  proof -
    have "live (unat hb) xs = {}" using that L(2) xs(3) by simp
    moreover have "xs \<noteq> []" using tot by auto
    ultimately show ?thesis using coalesced_all_free [OF xs(2)] tot by fastforce
  qed
  with xs tot L(2) show ?thesis by blast
qed

text \<open>The witness allocates two blocks and releases the first one first.\<close>

theorem heap_run_intact_witness:
  "\<exists>h1 h2 h3 h4. kmalloc 4096 13 fresh_heap = Some (4112, h1) \<and> kmalloc 4096 40 h1 = Some (4144, h2) \<and>
     kfree 4112 h2 = Some h3 \<and> kfree 4144 h3 = Some h4 \<and> heap_inv 4096 h4 [(65520, True)]"
proof -
  have i0: "heap_inv 4096 fresh_heap [(65520, True)]"
    by (rule heap_inv_fresh) (simp_all add: fresh_heap_def)
  obtain h1 where h1: "kmalloc 4096 13 fresh_heap = Some (4112, h1)" "heap_inv 4096 h1 [(16, False), (65488, True)]"
    using kmalloc_step [OF i0, of 13] by (auto simp: align8_def place_def)
  obtain h2 where h2: "kmalloc 4096 40 h1 = Some (4144, h2)" "heap_inv 4096 h2 [(16, False), (40, False), (65432, True)]"
    using kmalloc_step [OF h1(2), of 40] by (auto simp: align8_def place_def)
  have r2: "heap_run 4096 h2 {4144, 4112}"
    by (rule heap_run.alloc [OF heap_run.alloc [OF heap_run.boot h1(1)] h2(1)]) simp_all
  obtain h3 where h3: "kfree 4112 h2 = Some h3" "heap_inv 4096 h3 [(16, True), (40, False), (65432, True)]"
    using kfree_step [of 4096 h2 "[]" 16 "[(40, False), (65432, True)]" 4112] h2(2) kmalloc_head [OF h2(2)]
    by (auto simp: free_blk_def merge_left_def merge_right_def)
  obtain h4 where h4: "kfree 4144 h3 = Some h4"
    using kfree_step [of 4096 h3 "[(16, True)]" 40 "[(65432, True)]" 4144] h3(2) kmalloc_head [OF h3(2)] by auto
  have "heap_run 4096 h4 ({4144, 4112} - {4112} - {4144})"
    by (rule heap_run.release [OF heap_run.release [OF r2 _ h3(1)] _ h4]) simp_all
  moreover have "{4144, 4112} - {4112} - {4144} = ({} :: u32 set)" by auto
  ultimately have r4: "heap_run 4096 h4 {}" by simp
  from heap_run_intact [OF r4] h1(1) h2(1) h3(1) h4 show ?thesis by auto
qed

lemma align8_wraps: "2 ^ 32 - 8 < unat n \<Longrightarrow> align8 n = 0"
proof -
  assume n: "2 ^ 32 - 8 < unat n"
  have "unat (n + 7) = (unat n + 7) mod 2 ^ 32" by (simp add: unat_word_ariths)
  also have "\<dots> = unat n + 7 - 2 ^ 32"
    using n unat_less_u32 [of n] by (subst le_mod_geq) (simp_all add: less_imp_diff_less)
  finally have "unat (n + 7) = unat n - 4294967289" by simp
  moreover have "unat n - 4294967289 < 8" using unat_less_u32 [of n] by linarith
  ultimately have "unat (n + 7) div 8 = 0" by simp
  then show "align8 n = 0" using align8_eq [of n] by (simp add: unat_eq_zero)
qed

lemma first_fit_zero:
  "\<forall>b \<in> set ls. \<not> snd b \<Longrightarrow> first_fit 0 (ls @ (s, True) # rs) = Some (total ls + 16, ls @ place 0 s @ rs)"
  by (induction ls) auto

text \<open>C30: A request of more than \<open>2 ^ 32 - 8\<close> bytes is not refused: rounding it up to a multiple of 8
  wraps to 0. On every intact heap that has a free block, the first free block is handed out, cut down to no bytes
  at all if it has 24 bytes or more, whole if it has fewer.\<close>

theorem kmalloc_wraps_huge_request:
  assumes "heap_inv hb h (ls @ (s, True) # rs)" and "\<forall>b \<in> set ls. \<not> snd b" and "2 ^ 32 - 8 < unat n"
  shows "\<exists>p h'. kmalloc hb n h = Some (p, h') \<and> p \<noteq> 0 \<and> unat p = unat hb + total ls + 16 \<and>
    heap_inv hb h' (ls @ (if 24 \<le> s then [(0, False), (s - 16, True)] else [(s, False)]) @ rs)"
proof -
  have "n \<noteq> 0" using assms(3) by auto
  from kmalloc_step [OF assms(1) this] obtain h' where
    h': "kmalloc hb n h = Some (of_nat (unat hb + (total ls + 16)), h')" "heap_inv hb h' (ls @ place 0 s @ rs)"
    by (auto simp: align8_wraps [OF assms(3)] first_fit_zero [OF assms(2)])
  have "unat hb + (total ls + 16) < 2 ^ 32" using heap_inv_bounds [OF assms(1)] by simp
  then have "unat (of_nat (unat hb + (total ls + 16)) :: u32) = unat hb + total ls + 16"
    by (subst unat_of_nat_u32) simp_all
  then show ?thesis using h' by (intro exI conjI [OF h'(1)]) (auto simp: place_def split: if_splits)
qed

theorem kmalloc_wraps_huge_request_witness:
  "\<exists>h1 p h2. kmalloc 4096 13 fresh_heap = Some (4112, h1) \<and>
     kmalloc 4096 0xFFFFFFFA h1 = Some (p, h2) \<and> unat p = 4144 \<and>
     heap_inv 4096 h2 [(16, False), (0, False), (65472, True)]"
proof -
  have inv: "heap_inv 4096 fresh_heap [(65520, True)]"
    by (rule heap_inv_fresh) (simp_all add: fresh_heap_def)
  obtain h1 where h1: "kmalloc 4096 13 fresh_heap = Some (4112, h1)"
    "heap_inv 4096 h1 ([(16, False)] @ (65488, True) # [])"
    using kmalloc_step [OF inv, of 13] by (auto simp: align8_def place_def)
  show ?thesis using kmalloc_wraps_huge_request [OF h1(2), of "0xFFFFFFFA"] h1(1) by auto
qed

end
