(* ===== verification/Util.thy ===== *)
theory Util
  imports Prelude "HOL-Library.Signed_Division"
begin

text \<open>
  The helpers of \<^verbatim>\<open>src/kernel/util/util.cpp\<close>: comparing and reversing C strings, printing an
  \<^verbatim>\<open>int\<close> in decimal, and adding up the memory map that the boot loader leaves. An \<^verbatim>\<open>int\<close>
  is a 32-bit word read with \<open>sint\<close>; its division truncates towards zero.
\<close>

type_synonym i32 = "32 word"

section \<open>C strings\<close>

fun strcmp :: "u8 list \<Rightarrow> u8 list \<Rightarrow> bool" where
  "strcmp (a # s1) (b # s2) =
     (if a \<noteq> 0 \<and> b \<noteq> 0 then (if a \<noteq> b then False else strcmp s1 s2) else a = b)"
| "strcmp s1 s2 = (byte_at s1 0 = byte_at s2 0)"

text \<open>The loop of \<^verbatim>\<open>reverse\<close>: \<open>e\<close> is \<^verbatim>\<open>end + 1\<close>, so that it stays a natural number.\<close>

function reverse_loop :: "u8 list \<Rightarrow> nat \<Rightarrow> nat \<Rightarrow> u8 list" where
  "reverse_loop str start e =
     (if start + 1 < e
      then reverse_loop (str[start := byte_at str (e - 1), e - 1 := byte_at str start]) (start + 1) (e - 1)
      else str)"
  by pat_completeness auto
termination
  by (relation "measure (\<lambda>(_, start, e). e - start)") auto

declare reverse_loop.simps [simp del]

definition reverse :: "u8 list \<Rightarrow> nat \<Rightarrow> u8 list" where
  "reverse str len = reverse_loop str 0 len"

section \<open>Decimal numbers\<close>

text \<open>
  The digit loop, least significant digit first. \<open>n\<close> is the value of the \<^verbatim>\<open>int\<close> at each turn; it
  is negative only for the number whose negation does not fit.
\<close>

function digits_loop :: "int \<Rightarrow> u8 list" where
  "digits_loop n = (if n \<noteq> 0 then of_int (n smod 10 + 48) # digits_loop (n sdiv 10) else [])"
  by pat_completeness auto
termination
proof (relation "measure (\<lambda>n. nat \<bar>n\<bar>)", goal_cases)
  case (2 n)
  then have "\<bar>n sdiv 10\<bar> < \<bar>n\<bar>"
    by (simp add: signed_divide_int_def abs_mult)
  then show ?case by simp
qed simp

declare digits_loop.simps [simp del]

text \<open>
  The bytes stored at \<^verbatim>\<open>str\<close>, with the terminator; the reversal is that of \<^verbatim>\<open>reverse\<close> on the
  first \<open>i\<close> of them.
\<close>

definition int_to_str :: "i32 \<Rightarrow> u8 list" where
  "int_to_str n =
     (if n = 0 then [48, 0] else
      let is_negative = sint n < 0;
          n = if is_negative then - n else n;
          str = digits_loop (sint n);
          str = if is_negative then str @ [45] else str
      in reverse (str @ [0]) (length str))"

section \<open>The memory map\<close>

record e820_entry =
  e_base :: u64
  e_length :: u64
  e_type :: u32
  acpi :: u32

definition get_ram_bytes :: "u16 \<Rightarrow> e820_entry list \<Rightarrow> u64" where
  "get_ram_bytes count m =
     (let entries = if 32 < count then 32 else count
      in foldl (\<lambda>total i. if e_type (m ! i) = 1 then total + e_length (m ! i) else total) 0 [0..<unat entries])"

definition get_ram_mb :: "u16 \<Rightarrow> e820_entry list \<Rightarrow> u32" where
  "get_ram_mb count m = ucast (drop_bit 20 (get_ram_bytes count m))"

section \<open>Laws\<close>

lemma strcmp_cstr: "strcmp a b \<longleftrightarrow> cstr a = cstr b"
proof (induction a arbitrary: b)
  case Nil
  then show ?case by (cases b) auto
next
  case (Cons x xs)
  then show ?case by (cases b) auto
qed

lemma reverse_loop_middle:
  "reverse_loop (xs @ ys @ zs) (length xs) (length xs + length ys) = xs @ rev ys @ zs"
proof (induction "length ys" arbitrary: xs ys zs rule: less_induct)
  case less
  show ?case
  proof (cases "2 \<le> length ys")
    case False
    then have "rev ys = ys" by (cases ys; cases "tl ys") auto
    then show ?thesis using False by (subst reverse_loop.simps) simp
  next
    case True
    then obtain a m b where ys: "ys = a # m @ [b]"
      by (cases ys; cases "tl ys" rule: rev_cases) auto
    have upd: "(xs @ ys @ zs)[length xs := byte_at (xs @ ys @ zs) (length xs + length ys - 1),
        length xs + length ys - 1 := byte_at (xs @ ys @ zs) (length xs)] = (xs @ [b]) @ m @ (a # zs)"
      by (simp add: ys list_update_append nth_append byte_at_append)
    have "reverse_loop (xs @ ys @ zs) (length xs) (length xs + length ys) =
        reverse_loop ((xs @ [b]) @ m @ (a # zs)) (length (xs @ [b])) (length (xs @ [b]) + length m)"
      by (subst reverse_loop.simps) (simp only: upd, simp add: ys)
    also have "\<dots> = (xs @ [b]) @ rev m @ (a # zs)"
      by (rule less) (simp add: ys)
    finally show ?thesis by (simp add: ys)
  qed
qed

lemma reverse_rev: "length xs = n \<Longrightarrow> reverse (xs @ zs) n = rev xs @ zs"
  using reverse_loop_middle [of "[]" xs zs] by (simp add: reverse_def)


text \<open>The number a string of decimal digits stands for.\<close>

definition decimal_value :: "u8 list \<Rightarrow> nat" where
  "decimal_value ds = foldl (\<lambda>v d. 10 * v + (unat d - 48)) 0 ds"

definition is_digit :: "u8 \<Rightarrow> bool" where
  "is_digit c \<longleftrightarrow> 48 \<le> c \<and> c \<le> 57"

lemma digits_loop_nat:
  "digits_loop (int n) = (if n = 0 then [] else of_nat (48 + n mod 10) # digits_loop (int (n div 10)))"
proof -
  have "of_int (int n mod 10 + 48) = (of_nat (48 + n mod 10) :: u8)"
    by (metis add.commute of_int_of_nat_eq of_nat_add of_nat_mod of_nat_numeral)
  then show ?thesis
    by (subst digits_loop.simps) (simp add: signed_divide_int_def signed_modulo_int_def zdiv_int)
qed

lemma digit_byte: "m < 10 \<Longrightarrow> unat (of_nat (48 + m) :: u8) = 48 + m"
  by (simp add: unat_of_nat del: of_nat_add)

lemma unat_numeral_u8: "unat (48 :: u8) = 48"
  by simp

lemma decimal_value_snoc: "decimal_value (ds @ [d]) = 10 * decimal_value ds + (unat d - 48)"
  by (simp add: decimal_value_def)

lemma digits_loop_spec:
  "set (digits_loop (int n)) \<subseteq> Collect is_digit \<and> decimal_value (rev (digits_loop (int n))) = n \<and>
   (n \<noteq> 0 \<longrightarrow> digits_loop (int n) \<noteq> [] \<and> last (digits_loop (int n)) \<noteq> 48) \<and>
   (\<forall>k. n < 10 ^ k \<longrightarrow> length (digits_loop (int n)) \<le> k)"
proof (induction n rule: less_induct)
  case (less n)
  show ?case
  proof (cases "n = 0")
    case True
    then show ?thesis by (simp add: digits_loop.simps decimal_value_def)
  next
    case False
    then have IH: "set (digits_loop (int (n div 10))) \<subseteq> Collect is_digit"
        "decimal_value (rev (digits_loop (int (n div 10)))) = n div 10"
        "n div 10 \<noteq> 0 \<Longrightarrow> digits_loop (int (n div 10)) \<noteq> [] \<and> last (digits_loop (int (n div 10))) \<noteq> 48"
        "\<And>k. n div 10 < 10 ^ k \<Longrightarrow> length (digits_loop (int (n div 10))) \<le> k"
      using less.IH [of "n div 10"] by auto
    have e: "digits_loop (int n) = of_nat (48 + n mod 10) # digits_loop (int (n div 10))"
      using False by (simp add: digits_loop_nat [of n])
    have d: "unat (of_nat (48 + n mod 10) :: u8) = 48 + n mod 10"
      by (rule digit_byte) simp
    then have "is_digit (of_nat (48 + n mod 10))"
      unfolding is_digit_def word_le_nat_alt by simp
    moreover have "last (digits_loop (int n)) \<noteq> 48"
    proof (cases "n div 10 = 0")
      case True
      then have "n mod 10 = n" by (metis div_mult_mod_eq add_0 mult_0)
      with False d have "of_nat (48 + n mod 10) \<noteq> (48 :: u8)" by (metis add_cancel_left_right unat_numeral_u8)
      then show ?thesis using True by (simp add: e digits_loop_nat [of 0, simplified])
    next
      case False
      then show ?thesis using IH(3) by (simp add: e)
    qed
    moreover have "length (digits_loop (int n)) \<le> k" if "n < 10 ^ k" for k
      using that False IH(4) [of "k - 1"] by (cases k) (auto simp: e)
    moreover have "decimal_value (rev (digits_loop (int n))) = n"
      using IH(2) d by (simp only: e rev.simps decimal_value_snoc) simp
    ultimately show ?thesis using IH(1) by (simp add: e)
  qed
qed

lemma word_of_sint: "word_of_int (sint (n :: i32)) = n"
  using scast_id [of n] by (simp add: scast_eq)

lemma sint_negated:
  fixes n :: i32
  assumes "n \<noteq> 0x80000000"
  shows "sint (- n) = - sint n" "- (2 ^ 31) < sint n"
proof -
  have "sint n \<noteq> - (2 ^ 31)"
  proof
    assume "sint n = - (2 ^ 31)"
    then have "(word_of_int (- (2 ^ 31)) :: i32) = n" by (metis word_of_sint)
    with assms show False by simp
  qed
  then show l: "- (2 ^ 31) < sint n" using sint_ge [of n] by simp
  show "sint (- n) = - sint n"
    unfolding sint_word_ariths by (rule signed_take_bit_int_eq_self) (use l sint_lt [of n] in auto)
qed

text \<open>C34: \<open>int_to_str\<close> stores the decimal digits of any \<open>int\<close> but the least, without leading zero, after
  a minus sign if it is negative, and at most 12 bytes with the terminator.\<close>

theorem int_to_str_spec:
  assumes "n \<noteq> 0x80000000"
  shows "\<exists>ds. int_to_str n = (if sint n < 0 then [45] else []) @ ds @ [0] \<and> ds \<noteq> [] \<and>
    list_all is_digit ds \<and> decimal_value ds = nat \<bar>sint n\<bar> \<and> (hd ds = 48 \<longleftrightarrow> n = 0) \<and>
    length (int_to_str n) \<le> 12"
proof (cases "n = 0")
  case True
  then show ?thesis
    by (intro exI [of _ "[48]"]) (simp add: int_to_str_def is_digit_def decimal_value_def)
next
  case False
  define m where "m = nat \<bar>sint n\<bar>"
  have "m < 2 ^ 31 \<and> sint (if sint n < 0 then - n else n) = int m"
    using sint_negated [OF assms] sint_ge [of n] sint_lt [of n] by (auto simp: m_def)
  moreover have "sint n \<noteq> 0" using False by (metis word_of_sint of_int_0)
  ultimately have m: "m \<noteq> 0" "m < 10 ^ 10" and sm: "sint (if sint n < 0 then - n else n) = int m"
    using False by (auto simp: m_def)
  define ds where "ds = rev (digits_loop (int m))"
  have ds: "list_all is_digit ds" "decimal_value ds = m" "ds \<noteq> []" "hd ds \<noteq> 48" "length ds \<le> 10"
    using digits_loop_spec [of m] m by (auto simp: ds_def list_all_iff hd_rev)
  have "int_to_str n = (if sint n < 0 then [45] else []) @ ds @ [0]"
    using False sm by (auto simp: int_to_str_def Let_def reverse_rev ds_def)
  then show ?thesis
    using ds m_def False by (intro exI [of _ ds]) simp
qed

theorem int_to_str_spec_witness: "\<exists>ds. int_to_str (- 1234) = [45] @ ds @ [0] \<and> decimal_value ds = 1234"
  using int_to_str_spec [of "- 1234"] by auto

text \<open>The least \<open>int\<close> is its own negation; its digits come out as punctuation, \<open>"-./,),(-*,("\<close>.\<close>

theorem int_to_str_least:
  "int_to_str 0x80000000 = [45, 46, 47, 44, 41, 44, 40, 45, 42, 44, 40, 0]"
  by code_simp

end
