(* ===== verification/Text.thy ===== *)
theory Text
  imports Util
begin

text \<open>
  The string and list classes of \<^verbatim>\<open>src/kernel/util/string.cpp\<close> and \<^verbatim>\<open>types.h\<close>. A \<open>String\<close> is a
  pointer and a length; the arrays it points to are in a store, so that sharing, leaking and freeing
  of arrays are visible. \<^verbatim>\<open>new char[n]\<close> takes an address that was never used and succeeds: the
  allocator is theory \<open>Kheap\<close>. A freed array reads as empty here; in C++ such a read is undefined.
\<close>

section \<open>Arrays\<close>

record store =
  arrays :: "nat \<Rightarrow> u8 list option"
  next_array :: nat

text \<open>\<^verbatim>\<open>new char[n]\<close> followed by the loops that fill it.\<close>

definition new_array :: "u8 list \<Rightarrow> store \<Rightarrow> nat \<times> store" where
  "new_array bs m = (next_array m, m\<lparr>arrays := (arrays m)(next_array m := Some bs), next_array := next_array m + 1\<rparr>)"

definition delete_array :: "nat \<Rightarrow> store \<Rightarrow> store" where
  "delete_array p m = m\<lparr>arrays := (arrays m)(p := None)\<rparr>"

definition array_at :: "store \<Rightarrow> nat \<Rightarrow> u8 list" where
  "array_at m p = (case arrays m p of None \<Rightarrow> [] | Some bs \<Rightarrow> bs)"

section \<open>Strings\<close>

record string_obj =
  chars :: nat
  slen :: u32

definition string_new :: "store \<Rightarrow> string_obj \<times> store" where
  "string_new m = (let (p, m) = new_array [0] m in (\<lparr>chars = p, slen = 0\<rparr>, m))"

definition string_of_chars :: "u8 list \<Rightarrow> store \<Rightarrow> string_obj \<times> store" where
  "string_of_chars s m =
     (let (p, m) = new_array (cstr s @ [0]) m in (\<lparr>chars = p, slen = of_nat (length (cstr s))\<rparr>, m))"

definition string_copy :: "string_obj \<Rightarrow> store \<Rightarrow> string_obj \<times> store" where
  "string_copy s m =
     (let (p, m) = new_array (mem_get (array_at m (chars s)) (unat (slen s) + 1)) m
      in (\<lparr>chars = p, slen = slen s\<rparr>, m))"

text \<open>There is no assignment operator: an assignment copies pointer and length.\<close>

definition string_assign :: "string_obj \<Rightarrow> string_obj \<Rightarrow> string_obj" where
  "string_assign s t = t"

definition string_append :: "u8 \<Rightarrow> string_obj \<Rightarrow> store \<Rightarrow> string_obj \<times> store" where
  "string_append c s m =
     (let (p, m) = new_array (mem_get (array_at m (chars s)) (unat (slen s)) @ [c, 0]) m
      in (\<lparr>chars = p, slen = slen s + 1\<rparr>, m))"

definition string_pop_back :: "string_obj \<Rightarrow> store \<Rightarrow> string_obj \<times> store" where
  "string_pop_back s m =
     (if 0 < slen s then
        let s = s\<lparr>slen := slen s - 1\<rparr>
        in (s, m\<lparr>arrays := (arrays m)(chars s := map_option (\<lambda>bs. bs[unat (slen s) := 0]) (arrays m (chars s)))\<rparr>)
      else (s, m))"

definition string_equals_chars :: "string_obj \<Rightarrow> u8 list \<Rightarrow> store \<Rightarrow> bool" where
  "string_equals_chars s t m = strcmp (array_at m (chars s)) t"

definition string_equals :: "string_obj \<Rightarrow> string_obj \<Rightarrow> store \<Rightarrow> bool" where
  "string_equals s t m =
     (if slen s \<noteq> slen t then False
      else list_all (\<lambda>i. byte_at (array_at m (chars s)) i = byte_at (array_at m (chars t)) i) [0..<unat (slen s)])"

definition string_index :: "string_obj \<Rightarrow> i32 \<Rightarrow> store \<Rightarrow> u8" where
  "string_index s i m =
     (if sint i < 0 \<or> sint (slen s) \<le> sint i then 0 else byte_at (array_at m (chars s)) (unat i))"

definition string_add_char :: "u8 \<Rightarrow> string_obj \<Rightarrow> store \<Rightarrow> string_obj \<times> store" where
  "string_add_char c s m =
     (let (p, m) = new_array (mem_get (array_at m (chars s)) (unat (slen s)) @ [c, 0]) m;
          m = delete_array (chars s) m
      in (\<lparr>chars = p, slen = slen s + 1\<rparr>, m))"

definition string_add :: "string_obj \<Rightarrow> string_obj \<Rightarrow> store \<Rightarrow> string_obj \<times> store" where
  "string_add t s m =
     (let (p, m) = new_array (mem_get (array_at m (chars s)) (unat (slen s)) @
            mem_get (array_at m (chars t)) (unat (slen t)) @ [0]) m;
          m = delete_array (chars s) m
      in (\<lparr>chars = p, slen = slen s + slen t\<rparr>, m))"

definition string_size :: "string_obj \<Rightarrow> i32" where
  "string_size s = slen s"

text \<open>
  \<^verbatim>\<open>toString\<close>: the digits least significant first (the loop runs only for positive numbers), then
  added to an empty string from the last to the first.
\<close>

function to_string_loop :: "int \<Rightarrow> u8 list" where
  "to_string_loop x = (if 0 < x then of_int (48 + x smod 10) # to_string_loop (x sdiv 10) else [])"
  by pat_completeness auto
termination
  by (relation "measure nat") (auto simp: signed_divide_int_def)

declare to_string_loop.simps [simp del]

fun add_chars :: "u8 list \<Rightarrow> string_obj \<Rightarrow> store \<Rightarrow> string_obj \<times> store" where
  "add_chars [] s m = (s, m)"
| "add_chars (c # cs) s m = (let (s, m) = string_add_char c s m in add_chars cs s m)"

definition to_string :: "i32 \<Rightarrow> store \<Rightarrow> string_obj \<times> store" where
  "to_string x m =
     (if x = 0 then string_of_chars [48, 0] m else
      let buf = to_string_loop (sint x); (s, m) = string_new m in add_chars (rev buf) s m)"

section \<open>Splitting\<close>

text \<open>
  The loop of \<^verbatim>\<open>split\<close> over the characters: the segments it makes strings of. \<open>start\<close> is the position
  after the last delimiter.
\<close>

function split_loop :: "u8 list \<Rightarrow> u8 \<Rightarrow> nat \<Rightarrow> nat \<Rightarrow> nat \<Rightarrow> u8 list list" where
  "split_loop data d len i start =
     (if len < i then []
      else if i = len \<or> byte_at data i = d then
        (if start < i then [mem_get (drop start data) (i - start)] else []) @ split_loop data d len (i + 1) (i + 1)
      else split_loop data d len (i + 1) start)"
  by pat_completeness auto
termination
  by (relation "measure (\<lambda>(_, _, len, i, _). Suc len - i)") auto

declare split_loop.simps [simp del]

text \<open>Each segment is copied to a temporary array, made a string and the array freed.\<close>

fun push_parts :: "u8 list list \<Rightarrow> string_obj list \<Rightarrow> store \<Rightarrow> string_obj list \<times> store" where
  "push_parts [] parts m = (parts, m)"
| "push_parts (seg # segs) parts m =
     (let (temp, m) = new_array (seg @ [0]) m;
          (part, m) = string_of_chars (array_at m temp) m;
          m = delete_array temp m
      in push_parts segs (parts @ [part]) m)"

definition string_split :: "u8 \<Rightarrow> string_obj \<Rightarrow> store \<Rightarrow> string_obj list \<times> store" where
  "string_split d s m = push_parts (split_loop (array_at m (chars s)) d (unat (slen s)) 0 0) [] m"

definition string_split_chars :: "u8 list option \<Rightarrow> string_obj \<Rightarrow> store \<Rightarrow> string_obj list \<times> store" where
  "string_split_chars delimiter s m =
     (case delimiter of
        None \<Rightarrow> (let (copy, m) = string_of_chars (array_at m (chars s)) m in ([copy], m))
      | Some d \<Rightarrow>
          if byte_at d 0 = 0 then (let (copy, m) = string_of_chars (array_at m (chars s)) m in ([copy], m))
          else string_split (byte_at d 0) s m)"

section \<open>Array lists\<close>

text \<open>
  \<^verbatim>\<open>ArrayList<T>\<close>: the first \<open>len\<close> elements of the array and its capacity; \<open>grow\<close> copies them to an
  array of the new capacity. Elements beyond \<open>len\<close> are not modelled: nothing in the program reads them.
\<close>

record 'a array_list =
  elems :: "'a list"
  cap :: u32

definition al_new :: "'a array_list" where
  "al_new = \<lparr>elems = [], cap = 0\<rparr>"

definition al_len :: "'a array_list \<Rightarrow> u32" where
  "al_len l = of_nat (length (elems l))"

definition al_grow :: "u32 \<Rightarrow> 'a array_list \<Rightarrow> 'a array_list" where
  "al_grow new_cap l = l\<lparr>cap := new_cap\<rparr>"

definition al_get :: "'a array_list \<Rightarrow> u32 \<Rightarrow> 'a" where
  "al_get l index = elems l ! unat index"

definition al_clear :: "'a array_list \<Rightarrow> 'a array_list" where
  "al_clear l = l\<lparr>elems := []\<rparr>"

definition al_contains :: "('a \<Rightarrow> 'a \<Rightarrow> bool) \<Rightarrow> 'a \<Rightarrow> 'a array_list \<Rightarrow> bool" where
  "al_contains equals value l = list_ex (equals value) (elems l)"

definition al_release :: "'a array_list \<Rightarrow> 'a array_list" where
  "al_release l = l\<lparr>elems := [], cap := 0\<rparr>"

definition al_reserve :: "u32 \<Rightarrow> 'a array_list \<Rightarrow> 'a array_list" where
  "al_reserve new_cap l = (if new_cap \<le> cap l then l else al_grow new_cap l)"

definition al_push_back :: "'a \<Rightarrow> 'a array_list \<Rightarrow> 'a array_list" where
  "al_push_back value l =
     (let l = if cap l < al_len l + 1 then al_grow (if cap l = 0 then 4 else cap l * 2) l else l
      in l\<lparr>elems := elems l @ [value]\<rparr>)"

definition al_pop_back :: "'a array_list \<Rightarrow> 'a array_list" where
  "al_pop_back l = (if al_len l = 0 then l else l\<lparr>elems := butlast (elems l)\<rparr>)"

text \<open>The loop of \<^verbatim>\<open>remove_at\<close> moves each later element one place down.\<close>

primrec shift_down :: "'a list \<Rightarrow> nat \<Rightarrow> nat \<Rightarrow> 'a list" where
  "shift_down xs i 0 = xs"
| "shift_down xs i (Suc n) = shift_down (xs[i - 1 := xs ! i]) (i + 1) n"

definition al_remove_at :: "u32 \<Rightarrow> 'a array_list \<Rightarrow> 'a array_list" where
  "al_remove_at index l =
     (if al_len l \<le> index then l
      else l\<lparr>elems := butlast (shift_down (elems l) (unat index + 1) (length (elems l) - (unat index + 1)))\<rparr>)"

section \<open>Splitting, by specification\<close>

text \<open>The pieces between delimiters, and those of them that are not empty.\<close>

fun split_at :: "u8 \<Rightarrow> u8 list \<Rightarrow> u8 list list" where
  "split_at d [] = [[]]"
| "split_at d (c # cs) =
     (if c = d then [] # split_at d cs else (c # hd (split_at d cs)) # tl (split_at d cs))"

definition segments :: "u8 \<Rightarrow> u8 list \<Rightarrow> u8 list list" where
  "segments d cs = filter (\<lambda>w. w \<noteq> []) (split_at d cs)"

lemma split_at_not_Nil [simp]: "split_at d cs \<noteq> []"
  by (cases cs) auto

lemma split_at_append:
  "d \<notin> set xs \<Longrightarrow> split_at d (xs @ ys) = (xs @ hd (split_at d ys)) # tl (split_at d ys)"
  by (induction xs) auto

lemma mem_get_append: "mem_get (cs @ zs) (length cs) = cs"
  by (simp add: mem_get_take)

lemma split_loop_segments:
  "start \<le> i \<Longrightarrow> i \<le> length cs \<Longrightarrow> d \<notin> set (take (i - start) (drop start cs)) \<Longrightarrow>
    split_loop (cs @ zs) d (length cs) i start = segments d (drop start cs)"
proof (induction "length cs - i" arbitrary: i start rule: less_induct)
  case less
  have piece: "mem_get (drop start cs @ zs) (i - start) = take (i - start) (drop start cs)"
    using less.prems(1,2) by (simp add: mem_get_take)
  have cut: "drop start cs = take (i - start) (drop start cs) @ drop i cs"
    using less.prems(1) by (metis append_take_drop_id drop_drop le_add_diff_inverse2)
  show ?case
  proof (cases "i = length cs")
    case True
    then have "split_at d (drop start cs) = [take (i - start) (drop start cs)]"
      using split_at_append [OF less.prems(3), of "[]"] cut by simp
    then show ?thesis
      using True less.prems(1) mem_get_append [of "drop start cs" zs]
      by (subst split_loop.simps) (auto simp: segments_def piece split_loop.simps [of _ _ _ "Suc (length cs)"])
  next
    case False
    then have i: "i < length cs" using less.prems(2) by simp
    then have b: "byte_at (cs @ zs) i = cs ! i" by (simp add: byte_at_def nth_append)
    have dr: "drop i cs = cs ! i # drop (Suc i) cs" by (rule Cons_nth_drop_Suc [OF i, symmetric])
    show ?thesis
    proof (cases "cs ! i = d")
      case True
      have "split_at d (drop start cs) = take (i - start) (drop start cs) # split_at d (drop (Suc i) cs)"
        using split_at_append [OF less.prems(3), of "drop i cs"] cut dr True by simp
      moreover have "split_loop (cs @ zs) d (length cs) (Suc i) (Suc i) = segments d (drop (Suc i) cs)"
        using i by (intro less.hyps) auto
      ultimately show ?thesis
        using True i False less.prems(1)
        by (subst split_loop.simps) (auto simp: segments_def b piece)
    next
      case d: False
      have "take (Suc i - start) (drop start cs) = take (i - start) (drop start cs) @ [cs ! i]"
        using i less.prems(1) by (simp add: Suc_diff_le take_Suc_conv_app_nth)
      then have "split_loop (cs @ zs) d (length cs) (Suc i) start = segments d (drop start cs)"
        using i less.prems d by (intro less.hyps) auto
      then show ?thesis
        using d i False by (subst split_loop.simps) (simp add: b)
    qed
  qed
qed

lemma split_loop_all: "split_loop (cs @ zs) d (length cs) 0 0 = segments d cs"
  using split_loop_segments [of 0 0 cs d zs] by simp

section \<open>What a string object stands for\<close>

definition holds :: "store \<Rightarrow> string_obj \<Rightarrow> u8 list \<Rightarrow> bool" where
  "holds m s cs \<longleftrightarrow> (\<exists>zs. arrays m (chars s) = Some (cs @ 0 # zs)) \<and> length cs = unat (slen s)"

definition store_ok :: "store \<Rightarrow> bool" where
  "store_ok m \<longleftrightarrow> (\<forall>p. arrays m p \<noteq> None \<longrightarrow> p < next_array m)"

lemma holdsE:
  assumes "holds m s cs"
  obtains zs where "arrays m (chars s) = Some (cs @ 0 # zs)" "array_at m (chars s) = cs @ 0 # zs"
    "length cs = unat (slen s)"
  using assms by (auto simp: holds_def array_at_def)

lemma holds_cong: "arrays m' (chars s) = arrays m (chars s) \<Longrightarrow> holds m' s cs = holds m s cs"
  by (simp add: holds_def)

lemma store_okD: "store_ok m \<Longrightarrow> next_array m \<le> p \<Longrightarrow> arrays m p = None"
  unfolding store_ok_def by (meson linorder_not_le)

lemma store_ok_new:
  "store_ok m \<Longrightarrow> store_ok (m\<lparr>arrays := (arrays m)(next_array m \<mapsto> bs), next_array := Suc (next_array m)\<rparr>)"
  by (auto simp: store_ok_def intro: less_SucI)

lemma string_of_chars_spec:
  assumes "string_of_chars s m = (t, m')" "store_ok m" "length (cstr s) < 2 ^ 32"
  shows "holds m' t (cstr s)" "chars t = next_array m" "store_ok m'" "next_array m' = next_array m + 1"
    "arrays m' = (arrays m)(next_array m \<mapsto> cstr s @ [0])"
  using assms by (auto simp: string_of_chars_def new_array_def holds_def store_ok_new unat_of_nat)

lemma push_parts_spec:
  assumes "push_parts segs parts m = (ps, m')" "store_ok m"
    and "\<forall>seg \<in> set segs. 0 \<notin> set seg \<and> length seg < 2 ^ 32"
  shows "\<exists>new. ps = parts @ new \<and> list_all2 (holds m') new segs \<and> store_ok m' \<and>
    arrays m' |` dom (arrays m) = arrays m \<and>
    dom (arrays m') = dom (arrays m) \<union> chars ` set new \<and> next_array m \<le> next_array m' \<and>
    (\<forall>t \<in> set new. next_array m \<le> chars t)"
  using assms
proof (induction segs arbitrary: parts m)
  case Nil
  then show ?case by (auto simp: restrict_map_def fun_eq_iff domIff)
next
  case (Cons seg segs)
  let ?n = "next_array m"
  obtain temp m1 where 1: "new_array (seg @ [0]) m = (temp, m1)" by fastforce
  obtain part m2 where 2: "string_of_chars (array_at m1 temp) m1 = (part, m2)" by fastforce
  let ?m3 = "delete_array temp m2"
  have a: "temp = ?n" "m1 = m\<lparr>arrays := (arrays m)(?n \<mapsto> seg @ [0]), next_array := ?n + 1\<rparr>"
    using 1 by (auto simp: new_array_def)
  have at: "array_at m1 temp = seg @ [0]" by (simp add: a array_at_def)
  have seg: "0 \<notin> set seg" "length seg < 2 ^ 32" using Cons.prems(3) by auto
  have c: "cstr (seg @ [0]) = seg" using cstr_append_zero [OF seg(1), of "[]"] by simp
  have ok1: "store_ok m1" using Cons.prems(2) by (auto simp: a store_ok_def less_Suc_eq)
  note p = string_of_chars_spec [OF 2 [unfolded at] ok1, unfolded c]
  have n: "arrays m ?n = None" "arrays m (Suc ?n) = None"
    using store_okD [OF Cons.prems(2)] by auto
  have arr: "arrays ?m3 = (arrays m)(Suc ?n \<mapsto> seg @ [0])"
    using p(5) seg n by (auto simp: a delete_array_def fun_eq_iff)
  have h: "chars part = Suc ?n" "holds ?m3 part seg"
    using p(1,2) seg by (auto simp: a delete_array_def holds_def)
  have ok3: "store_ok ?m3" "next_array ?m3 = Suc (Suc ?n)"
    using p(3,4) seg by (auto simp: a delete_array_def store_ok_def)
  have r: "push_parts segs (parts @ [part]) ?m3 = (ps, m')"
    using Cons.prems(1) by (simp add: 1 2)
  obtain new where new: "ps = (parts @ [part]) @ new" "list_all2 (holds m') new segs" "store_ok m'"
      "arrays m' |` dom (arrays ?m3) = arrays ?m3"
      "dom (arrays m') = dom (arrays ?m3) \<union> chars ` set new" "next_array ?m3 \<le> next_array m'"
      "\<forall>t \<in> set new. next_array ?m3 \<le> chars t"
    using Cons.IH [OF r ok3(1)] Cons.prems(3) by auto
  have keep: "arrays m' q = arrays ?m3 q" if "arrays ?m3 q \<noteq> None" for q
    using fun_cong [OF new(4), of q] that by (auto simp: restrict_map_def domIff)
  have "holds m' part seg"
    using h keep [of "Suc ?n"] by (simp add: holds_def arr)
  moreover have "arrays m' |` dom (arrays m) = arrays m"
    using keep n by (auto simp: restrict_map_def fun_eq_iff arr domIff split: if_splits)
  moreover have "dom (arrays m') = dom (arrays m) \<union> chars ` set (part # new)"
    using new(5) h(1) by (auto simp: arr)
  ultimately show ?case
    using new ok3(2) h(1) by (intro exI [of _ "part # new"]) auto
qed

lemma split_at_ok:
  "\<forall>w \<in> set (split_at d cs). set w \<subseteq> set cs \<and> d \<notin> set w \<and> length w \<le> length cs"
proof (induction cs)
  case (Cons c cs)
  then show ?case by (cases "split_at d cs") auto
qed simp

lemma segments_ok:
  "w \<in> set (segments d cs) \<Longrightarrow> w \<noteq> [] \<and> set w \<subseteq> set cs \<and> d \<notin> set w \<and> length w \<le> length cs"
  using split_at_ok [of d cs] by (auto simp: segments_def)

text \<open>C35: \<open>split\<close> makes one string of each non-empty piece of the text between delimiters, in order. The
  arrays of other strings stay, the temporary ones are freed.\<close>

theorem string_split_spec:
  assumes "holds m s cs" and "0 \<notin> set cs" and "store_ok m"
    and "string_split d s m = (parts, m')"
  shows "list_all2 (holds m') parts (segments d cs) \<and> (\<forall>t ts. holds m t ts \<longrightarrow> holds m' t ts) \<and>
    dom (arrays m') = dom (arrays m) \<union> chars ` set parts"
proof -
  obtain zs where s: "array_at m (chars s) = cs @ 0 # zs" "length cs = unat (slen s)"
    using assms(1) by (rule holdsE)
  have l: "length cs < 2 ^ 32" using s(2) by simp
  have "push_parts (segments d cs) [] m = (parts, m')"
    using assms(4) split_loop_all [of cs "0 # zs" d] by (simp add: string_split_def s)
  moreover have "\<forall>seg \<in> set (segments d cs). 0 \<notin> set seg \<and> length seg < 2 ^ 32"
    using segments_ok assms(2) l by (meson le_less_trans subsetD)
  ultimately obtain new where n: "parts = new" "list_all2 (holds m') new (segments d cs)"
      "arrays m' |` dom (arrays m) = arrays m" "dom (arrays m') = dom (arrays m) \<union> chars ` set new"
    using push_parts_spec [of "segments d cs" "[]" m parts m'] assms(3) by auto
  moreover have "holds m' t ts" if "holds m t ts" for t ts
    using that fun_cong [OF n(3), of "chars t"] by (auto simp: holds_def restrict_map_def split: if_splits)
  ultimately show ?thesis by blast
qed

theorem string_split_spec_witness:
  "let m = \<lparr>arrays = [1 \<mapsto> [32, 97, 32, 98, 0]], next_array = 2\<rparr>;
     (parts, m') = string_split 32 \<lparr>chars = 1, slen = 4\<rparr> m
   in list_all2 (holds m') parts [[97], [98]] \<and> holds m' \<lparr>chars = 1, slen = 4\<rparr> [32, 97, 32, 98]"
proof -
  define m where "m = \<lparr>arrays = [1 \<mapsto> [32, 97, 32, 98, 0 :: u8]], next_array = 2\<rparr>"
  define s where "s = \<lparr>chars = 1, slen = 4\<rparr>"
  obtain parts m' where r: "string_split 32 s m = (parts, m')" by fastforce
  have h: "holds m s [32, 97, 32, 98]" "store_ok m"
    by (auto simp: m_def s_def holds_def store_ok_def split: if_splits)
  show ?thesis
    unfolding Let_def m_def [symmetric] s_def [symmetric]
    using string_split_spec [OF h(1) _ h(2) r] h(1) r by (simp add: segments_def)
qed

section \<open>Editing strings\<close>

lemma store_ok_next:
  assumes "store_ok m" "\<And>p. arrays m' p \<noteq> None \<Longrightarrow> p = next_array m \<or> arrays m p \<noteq> None"
    and "next_array m' = Suc (next_array m)"
  shows "store_ok m'"
  using assms unfolding store_ok_def by (metis less_Suc_eq)

lemma string_add_char_spec:
  assumes "holds m s cs" "store_ok m" "length cs + 1 < 2 ^ 32" "string_add_char c s m = (t, m')"
  shows "holds m' t (cs @ [c]) \<and> store_ok m' \<and> arrays m' = (arrays m)(next_array m \<mapsto> cs @ [c, 0], chars s := None)"
proof -
  obtain zs where s: "arrays m (chars s) = Some (cs @ 0 # zs)" "array_at m (chars s) = cs @ 0 # zs"
      "length cs = unat (slen s)"
    using assms(1) by (rule holdsE)
  have n: "chars s \<noteq> next_array m" using s(1) store_okD [OF assms(2)] by force
  have "unat (slen s + 1) = length cs + 1"
    using assms(3) s(3) by (simp add: unat_word_ariths)
  moreover have "mem_get (cs @ 0 # zs) (unat (slen s)) = cs"
    using mem_get_append s(3) by metis
  moreover have "store_ok m'"
    by (rule store_ok_next [OF assms(2)])
      (use assms(4) in \<open>auto simp: string_add_char_def new_array_def delete_array_def split: if_splits\<close>)
  ultimately show ?thesis
    using assms(4) n by (auto simp: string_add_char_def new_array_def delete_array_def s(2) holds_def)
qed

lemma string_append_spec:
  assumes "holds m s cs" "store_ok m" "length cs + 1 < 2 ^ 32" "string_append c s m = (t, m')"
  shows "holds m' t (cs @ [c]) \<and> store_ok m' \<and> arrays m' = (arrays m)(next_array m \<mapsto> cs @ [c, 0])"
proof -
  obtain zs where s: "arrays m (chars s) = Some (cs @ 0 # zs)" "array_at m (chars s) = cs @ 0 # zs"
      "length cs = unat (slen s)"
    using assms(1) by (rule holdsE)
  have "unat (slen s + 1) = length cs + 1"
    using assms(3) s(3) by (simp add: unat_word_ariths)
  moreover have "mem_get (cs @ 0 # zs) (unat (slen s)) = cs"
    using mem_get_append s(3) by metis
  moreover have "store_ok m'"
    by (rule store_ok_next [OF assms(2)])
      (use assms(4) in \<open>auto simp: string_append_def new_array_def split: if_splits\<close>)
  ultimately show ?thesis
    using assms(4) by (auto simp: string_append_def new_array_def s(2) holds_def)
qed

lemma string_pop_back_spec:
  assumes "holds m s cs" "string_pop_back s m = (t, m')"
  shows "holds m' t (butlast cs)"
proof (cases cs rule: rev_cases)
  case Nil
  then have "slen s = 0" using assms(1) by (auto simp: holds_def unat_eq_0)
  then show ?thesis using assms Nil by (auto simp: string_pop_back_def)
next
  case (snoc ds d)
  then obtain zs where s: "arrays m (chars s) = Some (ds @ d # 0 # zs)" "Suc (length ds) = unat (slen s)"
    using assms(1) by (auto simp: holds_def)
  then have "0 < slen s" by (metis unat_gt_0 word_neq_0_conv zero_less_Suc)
  moreover then have "unat (slen s - 1) = length ds"
    using s(2) by (simp add: unat_minus_one)
  ultimately show ?thesis
    using assms(2) s(1) snoc by (auto simp: string_pop_back_def holds_def Let_def list_update_append)
qed

lemma add_chars_spec:
  assumes "holds m s cs" "store_ok m" "length cs + length ds < 2 ^ 32" "add_chars ds s m = (t, m')"
  shows "holds m' t (cs @ ds)"
  using assms
proof (induction ds arbitrary: s m cs)
  case (Cons d ds)
  obtain s1 m1 where 1: "string_add_char d s m = (s1, m1)" by fastforce
  show ?case
    using string_add_char_spec [OF Cons.prems(1,2) _ 1] Cons.IH [of m1 s1 "cs @ [d]"] Cons.prems(3,4)
    by (simp add: 1)
qed simp

lemma to_string_loop_nat: "to_string_loop (int n) = digits_loop (int n)"
proof (induction n rule: less_induct)
  case (less n)
  show ?case
  proof (cases "n = 0")
    case True
    then show ?thesis by (simp add: to_string_loop.simps digits_loop.simps)
  next
    case False
    then have "to_string_loop (int n div 10) = digits_loop (int n div 10)"
      using less [of "n div 10"] by (simp add: zdiv_int)
    then show ?thesis
      using False by (simp add: to_string_loop.simps [of "int n"] digits_loop.simps [of "int n"]
          signed_divide_int_def signed_modulo_int_def add.commute)
  qed
qed

text \<open>\<open>toString\<close> gives the text that \<open>int_to_str\<close> stores if its argument is not negative; of a
  negative number it makes the empty string.\<close>

theorem to_string_spec:
  assumes "store_ok m" and "to_string x m = (t, m')"
  shows "holds m' t (if sint x < 0 then [] else butlast (int_to_str x))"
proof (cases "x = 0")
  case True
  then show ?thesis
    using assms string_of_chars_spec(1) [of "[48, 0]" m t m'] by (simp add: to_string_def int_to_str_def)
next
  case False
  obtain s0 m0 where 0: "string_new m = (s0, m0)" by fastforce
  then have h: "holds m0 s0 []" "store_ok m0"
    using assms(1) by (auto simp: string_new_def new_array_def holds_def store_ok_new)
  have t: "add_chars (rev (to_string_loop (sint x))) s0 m0 = (t, m')"
    using assms(2) False 0 by (simp add: to_string_def)
  show ?thesis
  proof (cases "sint x < 0")
    case True
    then show ?thesis using t h by (simp add: to_string_loop.simps)
  next
    case pos: False
    define n where "n = nat (sint x)"
    have n: "sint x = int n" using pos by (simp add: n_def)
    have "n < 10 ^ 10" using n sint_lt [of x] by simp
    then have l: "length (digits_loop (int n)) \<le> 10" using digits_loop_spec [of n] by blast
    have "holds m' t (rev (digits_loop (int n)))"
      using add_chars_spec [OF h _ t] l by (simp add: n to_string_loop_nat)
    then show ?thesis
      using False pos by (simp add: int_to_str_def n reverse_rev butlast_append)
  qed
qed

theorem to_string_spec_witness:
  "let (t, m') = to_string 42 \<lparr>arrays = (\<lambda>_. None), next_array = 1\<rparr> in holds m' t [52, 50]"
proof -
  obtain t m' where t: "to_string 42 \<lparr>arrays = (\<lambda>_. None), next_array = 1\<rparr> = (t, m')" by fastforce
  have "int_to_str 42 = [52, 50, 0]" by code_simp
  then show ?thesis
    using to_string_spec [OF _ t] t by (simp add: store_ok_def)
qed

text \<open>\<open>append\<close> and \<open>+=\<close> make the same text, but \<open>append\<close> leaves the old array allocated and \<open>+=\<close> frees
  it, so an assigned copy of the string, which shares the array, is left without one.\<close>

theorem string_append_leaks:
  assumes "holds m s cs" and "store_ok m" and "length cs + 1 < 2 ^ 32"
    and "string_append c s m = (t, m1)" and "string_add_char c s m = (t', m2)"
  shows "holds m1 t (cs @ [c]) \<and> holds m2 t' (cs @ [c]) \<and>
    dom (arrays m1) = insert (chars t) (dom (arrays m)) \<and> arrays m2 (chars (string_assign u s)) = None"
  using string_append_spec [OF assms(1-4)] string_add_char_spec [OF assms(1-3,5)] assms(4)
  by (auto simp: string_append_def new_array_def string_assign_def)

theorem string_append_leaks_witness:
  "let m = \<lparr>arrays = [1 \<mapsto> [97, 0]], next_array = 2\<rparr>; s = \<lparr>chars = 1, slen = 1\<rparr>;
     (t, m1) = string_append 98 s m; (t', m2) = string_add_char 98 s m
   in holds m1 t [97, 98] \<and> dom (arrays m1) = {1, chars t} \<and> arrays m2 (chars (string_assign t' s)) = None"
proof -
  define m where "m = \<lparr>arrays = [1 \<mapsto> [97, 0]], next_array = 2\<rparr>"
  define s where "s = \<lparr>chars = 1, slen = 1\<rparr>"
  obtain t m1 t' m2 where r: "string_append 98 s m = (t, m1)" "string_add_char 98 s m = (t', m2)" by fastforce
  have "holds m s [97]" "store_ok m" "dom (arrays m) = {1}"
    by (auto simp: m_def s_def holds_def store_ok_def split: if_splits)
  then show ?thesis
    unfolding Let_def m_def [symmetric] s_def [symmetric]
    using string_append_leaks [OF _ _ _ r, of "[97]" t'] r by (auto simp: insert_commute)
qed

section \<open>Array lists, by specification\<close>

lemma length_1_conv_ex: "length xs = 1 \<Longrightarrow> \<exists>x. xs = [x]"
  by (cases xs) auto

lemma shift_down_spec:
  "0 < i \<Longrightarrow> i + n \<le> length xs \<Longrightarrow> shift_down xs i n = take (i - 1) xs @ take n (drop i xs) @ drop (i - 1 + n) xs"
proof (induction n arbitrary: xs i)
  case 0
  then show ?case by simp
next
  case (Suc n)
  let ?ys = "xs[i - 1 := xs ! i]"
  have "shift_down xs i (Suc n) = take i ?ys @ take n (drop (i + 1) ?ys) @ drop (i + n) ?ys"
    using Suc.IH [of "i + 1" ?ys] Suc.prems by simp
  moreover have "take i ?ys = take (i - 1) xs @ [xs ! i]"
    using Suc.prems take_Suc_conv_app_nth [of "i - 1" ?ys] by simp
  moreover have "drop (i + 1) ?ys = drop (i + 1) xs" "drop (i + n) ?ys = drop (i + n) xs"
    using Suc.prems by simp_all
  moreover have "take (Suc n) (drop i xs) = xs ! i # take n (drop (i + 1) xs)"
    using Suc.prems by (simp add: Cons_nth_drop_Suc [symmetric])
  ultimately show ?case using Suc.prems(1) by simp
qed

lemma al_push_back_step:
  assumes "length (elems l) \<le> unat (cap l)" "unat (cap l) \<le> max 4 (2 * length (elems l))"
    and "length (elems l) < 2 ^ 30"
  shows "length (elems (al_push_back x l)) \<le> unat (cap (al_push_back x l)) \<and>
    unat (cap (al_push_back x l)) \<le> max 4 (2 * length (elems (al_push_back x l)))"
proof -
  have "unat (al_len l + 1) = length (elems l) + 1"
    using assms(3) by (simp add: al_len_def unat_word_ariths unat_of_nat)
  then have lt: "cap l < al_len l + 1 \<longleftrightarrow> unat (cap l) = length (elems l)"
    using assms(1) by (auto simp: word_less_nat_alt)
  have z: "cap l = 0 \<longleftrightarrow> unat (cap l) = 0" by (simp add: unat_eq_0)
  have "unat (cap l * 2) = unat (cap l) * 2" if "unat (cap l) = length (elems l)"
    using that assms(3) by (simp add: unat_word_ariths)
  then have "unat (cap (al_push_back x l)) =
      (if unat (cap l) = length (elems l) then (if unat (cap l) = 0 then 4 else 2 * unat (cap l)) else unat (cap l))"
    using lt z by (auto simp: al_push_back_def al_grow_def Let_def)
  moreover have "length (elems (al_push_back x l)) = length (elems l) + 1"
    by (simp add: al_push_back_def al_grow_def)
  moreover define n c where "n = length (elems l)" and "c = unat (cap l)"
  ultimately show ?thesis
    using assms unfolding n_def [symmetric] c_def [symmetric] by (auto simp: max_def split: if_splits)
qed

lemma al_push_back_fold:
  "length (elems l) \<le> unat (cap l) \<Longrightarrow> unat (cap l) \<le> max 4 (2 * length (elems l)) \<Longrightarrow>
    length (elems l) + length xs \<le> 2 ^ 30 \<Longrightarrow>
    elems (fold al_push_back xs l) = elems l @ xs \<and>
    length (elems l @ xs) \<le> unat (cap (fold al_push_back xs l)) \<and>
    unat (cap (fold al_push_back xs l)) \<le> max 4 (2 * length (elems l @ xs))"
proof (induction xs arbitrary: l)
  case (Cons x xs)
  have e: "elems (al_push_back x l) = elems l @ [x]" by (simp add: al_push_back_def al_grow_def)
  show ?case
    using Cons.IH [of "al_push_back x l"] al_push_back_step [of l x] Cons.prems by (simp add: e)
qed simp

text \<open>Up to \<open>2 ^ 30\<close> elements pushed to an empty list stay there in order and the capacity is enough for
  them, at most twice their number.\<close>

theorem al_push_back_spec:
  assumes "length xs \<le> 2 ^ 30"
  shows "elems (fold al_push_back xs al_new) = xs \<and>
    length xs \<le> unat (cap (fold al_push_back xs al_new)) \<and>
    unat (cap (fold al_push_back xs al_new)) \<le> max 4 (2 * length xs)"
  using al_push_back_fold [of al_new xs] assms by (simp add: al_new_def)

theorem al_push_back_spec_witness:
  "elems (fold al_push_back [1, 2, 3, 4, 5 :: nat] al_new) = [1, 2, 3, 4, 5]"
  using al_push_back_spec [of "[1, 2, 3, 4, 5 :: nat]"] by simp

text \<open>\<open>remove_at\<close> takes out exactly the element of its index, and does nothing past the end.\<close>

theorem al_remove_at_spec:
  assumes "length (elems l) < 2 ^ 32"
  shows "elems (al_remove_at index l) =
    take (unat index) (elems l) @ drop (unat index + 1) (elems l)"
proof (cases "unat index < length (elems l)")
  case True
  let ?i = "unat index + 1" and ?n = "length (elems l) - (unat index + 1)"
  have "shift_down (elems l) ?i ?n = take (unat index) (elems l) @ drop ?i (elems l) @ drop (unat index + ?n) (elems l)"
    using True by (subst shift_down_spec) auto
  moreover have "length (drop (unat index + ?n) (elems l)) = 1" using True by simp
  then obtain x where "drop (unat index + ?n) (elems l) = [x]" by (metis length_1_conv_ex)
  ultimately show ?thesis
    using True assms by (simp add: al_remove_at_def al_len_def word_le_nat_alt unat_of_nat butlast_append)
next
  case False
  then show ?thesis
    using assms by (simp add: al_remove_at_def al_len_def word_le_nat_alt unat_of_nat)
qed

theorem al_remove_at_spec_witness:
  "elems (al_remove_at 1 \<lparr>elems = [10, 20, 30 :: nat], cap = 4\<rparr>) = [10, 30]"
  using al_remove_at_spec [of "\<lparr>elems = [10, 20, 30 :: nat], cap = 4\<rparr>" 1] by simp

end
