(* ===== verification/HeapList.thy ===== *)
theory HeapList
  imports Kheap Text
begin

text \<open>
  \<^verbatim>\<open>ArrayList<T>\<close> of \<^verbatim>\<open>src/kernel/util/types.h\<close> on the kernel heap: a pointer, a length and a
  capacity, with the elements in the block the allocator has handed out. The operations take the
  allocator as arguments, their laws are proved in its locale, and they refine the lists of theory \<open>Text\<close>.

  Elements are stored whole, at the address of their first byte; \<open>sz\<close> is the size of one. The headers of
  the heap are in the allocator's state, and a header never lies in a block that is handed out.
\<close>

section \<open>The class\<close>

record list_obj =
  ldata :: u32
  llen :: u32
  lcap :: u32

record ('a, 'h) memory =
  cells :: "u32 \<Rightarrow> 'a"
  kheap :: 'h

definition cell :: "u32 \<Rightarrow> u32 \<Rightarrow> nat \<Rightarrow> u32" where
  "cell sz p i = p + of_nat i * sz"

definition hl_new :: list_obj where
  "hl_new = \<lparr>ldata = 0, llen = 0, lcap = 0\<rparr>"

definition hl_free :: "(u32 \<Rightarrow> 'h \<Rightarrow> 'h option) \<Rightarrow> u32 \<Rightarrow> ('a, 'h) memory \<Rightarrow> ('a, 'h) memory option" where
  "hl_free free p m = (if p \<noteq> 0 then map_option (\<lambda>h. m\<lparr>kheap := h\<rparr>) (free p (kheap m)) else Some m)"

definition copy_cells :: "u32 \<Rightarrow> u32 \<Rightarrow> u32 \<Rightarrow> nat \<Rightarrow> (u32 \<Rightarrow> 'a) \<Rightarrow> u32 \<Rightarrow> 'a" where
  "copy_cells sz p q n c = fold (\<lambda>i c. c(cell sz p i := c (cell sz q i))) [0..<n] c"

definition hl_grow :: "(u32 \<Rightarrow> 'h \<Rightarrow> (u32 \<times> 'h) option) \<Rightarrow> (u32 \<Rightarrow> 'h \<Rightarrow> 'h option) \<Rightarrow> u32 \<Rightarrow> u32 \<Rightarrow>
    list_obj \<Rightarrow> ('a, 'h) memory \<Rightarrow> (list_obj \<times> ('a, 'h) memory) option" where
  "hl_grow alloc free sz new_cap l m =
     do {
       (new_data, h) \<leftarrow> alloc (sz * new_cap) (kheap m);
       let m = m\<lparr>kheap := h, cells := copy_cells sz new_data (ldata l) (unat (llen l)) (cells m)\<rparr>;
       m \<leftarrow> hl_free free (ldata l) m;
       Some (l\<lparr>ldata := new_data, lcap := new_cap\<rparr>, m)
     }"

text \<open>The destructor, and \<^verbatim>\<open>release\<close>.\<close>

definition hl_delete :: "(u32 \<Rightarrow> 'h \<Rightarrow> 'h option) \<Rightarrow> list_obj \<Rightarrow> ('a, 'h) memory \<Rightarrow> ('a, 'h) memory option" where
  "hl_delete free l m = hl_free free (ldata l) m"

definition hl_release :: "(u32 \<Rightarrow> 'h \<Rightarrow> 'h option) \<Rightarrow> list_obj \<Rightarrow> ('a, 'h) memory \<Rightarrow>
    (list_obj \<times> ('a, 'h) memory) option" where
  "hl_release free l m = map_option (\<lambda>m. (hl_new, m)) (hl_free free (ldata l) m)"

text \<open>Moving: the new owner, and what is left of the old one. An assignment to itself does nothing.\<close>

definition hl_move :: "list_obj \<Rightarrow> list_obj \<times> list_obj" where
  "hl_move other = (other, hl_new)"

definition hl_move_assign :: "(u32 \<Rightarrow> 'h \<Rightarrow> 'h option) \<Rightarrow> bool \<Rightarrow> list_obj \<Rightarrow> list_obj \<Rightarrow> ('a, 'h) memory \<Rightarrow>
    (list_obj \<times> list_obj \<times> ('a, 'h) memory) option" where
  "hl_move_assign free same l other m =
     (if same then Some (l, other, m)
      else map_option (\<lambda>m. (other, hl_new, m)) (hl_free free (ldata l) m))"

definition hl_reserve :: "(u32 \<Rightarrow> 'h \<Rightarrow> (u32 \<times> 'h) option) \<Rightarrow> (u32 \<Rightarrow> 'h \<Rightarrow> 'h option) \<Rightarrow> u32 \<Rightarrow> u32 \<Rightarrow>
    list_obj \<Rightarrow> ('a, 'h) memory \<Rightarrow> (list_obj \<times> ('a, 'h) memory) option" where
  "hl_reserve alloc free sz new_cap l m =
     (if new_cap \<le> lcap l then Some (l, m) else hl_grow alloc free sz new_cap l m)"

definition hl_push_back :: "(u32 \<Rightarrow> 'h \<Rightarrow> (u32 \<times> 'h) option) \<Rightarrow> (u32 \<Rightarrow> 'h \<Rightarrow> 'h option) \<Rightarrow> u32 \<Rightarrow> 'a \<Rightarrow>
    list_obj \<Rightarrow> ('a, 'h) memory \<Rightarrow> (list_obj \<times> ('a, 'h) memory) option" where
  "hl_push_back alloc free sz value l m =
     do {
       (l, m) \<leftarrow> (if lcap l < llen l + 1
                  then hl_grow alloc free sz (if lcap l = 0 then 4 else lcap l * 2) l m else Some (l, m));
       Some (l\<lparr>llen := llen l + 1\<rparr>,
         m\<lparr>cells := (cells m)(cell sz (ldata l) (unat (llen l)) := value)\<rparr>)
     }"

definition hl_clear :: "list_obj \<Rightarrow> list_obj" where
  "hl_clear l = l\<lparr>llen := 0\<rparr>"

definition hl_pop_back :: "list_obj \<Rightarrow> list_obj" where
  "hl_pop_back l = (if llen l = 0 then l else l\<lparr>llen := llen l - 1\<rparr>)"

definition hl_get :: "u32 \<Rightarrow> list_obj \<Rightarrow> ('a, 'h) memory \<Rightarrow> u32 \<Rightarrow> 'a" where
  "hl_get sz l m index = cells m (cell sz (ldata l) (unat index))"

definition hl_remove_at :: "u32 \<Rightarrow> u32 \<Rightarrow> list_obj \<Rightarrow> ('a, 'h) memory \<Rightarrow> list_obj \<times> ('a, 'h) memory" where
  "hl_remove_at sz index l m =
     (if llen l \<le> index then (l, m)
      else (l\<lparr>llen := llen l - 1\<rparr>,
        m\<lparr>cells := fold (\<lambda>i c. c(cell sz (ldata l) (i - 1) := c (cell sz (ldata l) i)))
          [unat index + 1..<unat (llen l)] (cells m)\<rparr>))"

section \<open>What a list on the heap stands for\<close>

text \<open>
  \<open>list_at\<close>: the list object \<open>l\<close> in memory \<open>m\<close>, whose allocated blocks are \<open>L\<close>, is the list \<open>x\<close>:
  it has no block and no capacity, or a block of the heap that has room for its capacity.
\<close>

definition list_at :: "('h \<Rightarrow> (nat \<times> nat) set \<Rightarrow> bool) \<Rightarrow> u32 \<Rightarrow> list_obj \<Rightarrow> ('a, 'h) memory \<Rightarrow>
    (nat \<times> nat) set \<Rightarrow> 'a array_list \<Rightarrow> bool" where
  "list_at own sz l m L x \<longleftrightarrow>
     own (kheap m) L \<and> 0 < sz \<and> length (elems x) = unat (llen l) \<and> cap x = lcap l \<and> llen l \<le> lcap l \<and>
     (\<forall>i < length (elems x). cells m (cell sz (ldata l) i) = elems x ! i) \<and>
     (if ldata l = 0 then lcap l = 0
      else \<exists>k. (unat (ldata l), k) \<in> L \<and> unat (lcap l) * unat sz \<le> k)"

text \<open>The blocks but that of the list, and that their contents are kept.\<close>

definition other_blocks :: "list_obj \<Rightarrow> (nat \<times> nat) set \<Rightarrow> (nat \<times> nat) set" where
  "other_blocks l L = {b \<in> L. fst b \<noteq> unat (ldata l)}"

definition blocks_kept :: "(nat \<times> nat) set \<Rightarrow> ('a, 'h) memory \<Rightarrow> ('a, 'h) memory \<Rightarrow> bool" where
  "blocks_kept L m m' \<longleftrightarrow> (\<forall>(q, j) \<in> L. \<forall>a. q \<le> unat a \<longrightarrow> unat a < q + j \<longrightarrow> cells m' a = cells m a)"

lemma unat_cell: "unat p + i * unat sz < 2 ^ 32 \<Longrightarrow> unat (cell sz p i) = unat p + i * unat sz"
proof -
  assume a: "unat p + i * unat sz < 2 ^ 32"
  have "unat (of_nat i * sz :: u32) = i * unat sz"
    using a by (simp add: unat_word_ariths unat_of_nat mod_mult_left_eq)
  then show ?thesis using a by (simp add: cell_def unat_word_ariths)
qed

lemma cell_range:
  assumes "unat p + k < 2 ^ 32" "n * unat sz \<le> k" "i < n"
  shows "unat (cell sz p i) = unat p + i * unat sz" "i * unat sz + unat sz \<le> k"
proof -
  have "(i + 1) * unat sz \<le> n * unat sz" using assms(3) by (intro mult_le_mono1) simp
  then show "i * unat sz + unat sz \<le> k" using assms(2) by simp
  then show "unat (cell sz p i) = unat p + i * unat sz" using assms(1) by (intro unat_cell) simp
qed

lemma copy_cells_Suc: "copy_cells sz p q (Suc n) c = (copy_cells sz p q n c)(cell sz p n := copy_cells sz p q n c (cell sz q n))"
  by (simp add: copy_cells_def)

lemma copy_cells_other: "(\<And>i. i < n \<Longrightarrow> a \<noteq> cell sz p i) \<Longrightarrow> copy_cells sz p q n c a = c a"
  by (induction n) (auto simp: copy_cells_Suc copy_cells_def [of _ _ _ 0])

lemma copy_cells_at:
  assumes "\<And>i j. i < n \<Longrightarrow> j < n \<Longrightarrow> cell sz p i = cell sz p j \<Longrightarrow> i = j"
    and "\<And>i j. i < n \<Longrightarrow> j < n \<Longrightarrow> cell sz p i \<noteq> cell sz q j" and "i < n"
  shows "copy_cells sz p q n c (cell sz p i) = c (cell sz q i)"
  using assms
proof (induction n)
  case (Suc n)
  show ?case
  proof (cases "i = n")
    case True
    have "copy_cells sz p q n c (cell sz q n) = c (cell sz q n)"
    proof (rule copy_cells_other)
      fix i assume "i < n"
      then show "cell sz q n \<noteq> cell sz p i" using Suc.prems(2) [of i n] by auto
    qed
    with True show ?thesis by (simp add: copy_cells_Suc)
  next
    case False
    then have "cell sz p i \<noteq> cell sz p n" "i < n" using Suc.prems(1) [of i n] Suc.prems(3) by auto
    then show ?thesis using Suc.IH Suc.prems(1,2) by (simp add: copy_cells_Suc)
  qed
qed simp

section \<open>Over any allocator\<close>

context allocator
begin

lemma own_block:
  assumes "list_at holds sz l m L x" and "ldata l \<noteq> 0"
  obtains k where "(unat (ldata l), k) \<in> L" "unat (lcap l) * unat sz \<le> k" "unat (ldata l) + k < 2 ^ 32"
    "L = insert (unat (ldata l), k) (other_blocks l L)" "(unat (ldata l), k) \<notin> other_blocks l L"
proof -
  obtain k where k: "(unat (ldata l), k) \<in> L" "unat (lcap l) * unat sz \<le> k"
    using assms by (auto simp: list_at_def)
  have h: "holds (kheap m) L" using assms(1) by (simp add: list_at_def)
  have "b \<in> insert (unat (ldata l), k) (other_blocks l L)" if b: "b \<in> L" for b
  proof (cases "fst b = unat (ldata l)")
    case True
    then have "(unat (ldata l), snd b) \<in> L" using b by (metis prod.collapse)
    from live_apart [OF h this k(1)] have "snd b = k" by simp
    with True have "b = (unat (ldata l), k)" by (simp add: prod_eq_iff)
    then show ?thesis by simp
  qed (simp add: other_blocks_def b)
  then have "L = insert (unat (ldata l), k) (other_blocks l L)"
    using k(1) by (force simp: other_blocks_def)
  moreover have "(unat (ldata l), k) \<notin> other_blocks l L" by (simp add: other_blocks_def)
  ultimately show thesis using live_range [OF h k(1)] by (intro that [OF k]) simp_all
qed

lemma null_blocks:
  assumes "list_at holds sz l m L x" and "ldata l = 0"
  shows "other_blocks l L = L"
proof -
  have "holds (kheap m) L" using assms(1) by (simp add: list_at_def)
  then have "fst b \<noteq> 0" if "b \<in> L" for b using live_range [of "kheap m" L "fst b" "snd b"] that by simp
  then show ?thesis using assms(2) by (auto simp: other_blocks_def)
qed

text \<open>Writing an element in the list's block changes no other block.\<close>

lemma write_kept:
  assumes "holds h L" and "(unat p, k) \<in> L" and "unat p + k < 2 ^ 32" and "n * unat sz \<le> k" and "0 < sz"
    and "\<And>a. (\<forall>i < n. a \<noteq> cell sz p i) \<Longrightarrow> cells m' a = cells m a"
  shows "blocks_kept {b \<in> L. fst b \<noteq> unat p} m m'"
  unfolding blocks_kept_def
proof (intro ballI allI impI; clarsimp)
  fix q j and a :: u32 assume q: "(q, j) \<in> L" "q \<noteq> unat p" "q \<le> unat a" "unat a < q + j"
  have "a \<noteq> cell sz p i" if i: "i < n" for i
  proof
    assume a: "a = cell sz p i"
    have "unat p \<le> unat a" "unat a < unat p + k"
      using cell_range [OF assms(3,4) i] assms(5) by (auto simp: a word_less_nat_alt)
    then show False using live_apart [OF assms(1,2) q(1)] q by auto
  qed
  then show "cells m' a = cells m a" by (intro assms(6)) simp
qed

lemma free_old:
  assumes "list_at holds sz l m L x" and "holds (kheap m') (insert b L)" and "fst b \<noteq> unat (ldata l)"
  shows "\<exists>h. hl_free free (ldata l) m' = Some (m'\<lparr>kheap := h\<rparr>) \<and> holds h (insert b (other_blocks l L))"
proof (cases "ldata l = 0")
  case True
  have "other_blocks l L = L" by (rule null_blocks [OF assms(1) True])
  then show ?thesis using True assms(2) by (auto simp: hl_free_def intro!: exI [of _ "kheap m'"])
next
  case False
  obtain k where k: "(unat (ldata l), k) \<in> L" "L = insert (unat (ldata l), k) (other_blocks l L)"
    "(unat (ldata l), k) \<notin> other_blocks l L" by (rule own_block [OF assms(1) False])
  have "insert b L - {(unat (ldata l), k)} = insert b (other_blocks l L)"
    using k assms(3) by (auto simp: other_blocks_def)
  moreover obtain h where "free (ldata l) (kheap m') = Some h" "holds h (insert b L - {(unat (ldata l), k)})"
    using free_law [OF assms(2)] k(1) by blast
  ultimately show ?thesis using False by (auto simp: hl_free_def)
qed

lemma free_old_null:
  assumes "list_at holds sz l m L x" and "holds (kheap m') L"
  shows "\<exists>h. hl_free free (ldata l) m' = Some (m'\<lparr>kheap := h\<rparr>) \<and> holds h (other_blocks l L)"
proof (cases "ldata l = 0")
  case True
  have "other_blocks l L = L" by (rule null_blocks [OF assms(1) True])
  then show ?thesis using True assms(2) by (auto simp: hl_free_def intro!: exI [of _ "kheap m'"])
next
  case False
  obtain k where k: "(unat (ldata l), k) \<in> L" "L = insert (unat (ldata l), k) (other_blocks l L)"
    "(unat (ldata l), k) \<notin> other_blocks l L" by (rule own_block [OF assms(1) False])
  have "L - {(unat (ldata l), k)} = other_blocks l L" using k by auto
  moreover obtain h where "free (ldata l) (kheap m') = Some h" "holds h (L - {(unat (ldata l), k)})"
    using free_law [OF assms(2)] k(1) by blast
  ultimately show ?thesis using False by (auto simp: hl_free_def)
qed

text \<open>Growing: the call returns. If the heap had room the list has the new block and the old elements;
  if not it has no block.\<close>

lemma grow:
  assumes l: "list_at holds sz l m L x" and n: "llen l \<le> new_cap" "0 < new_cap" "unat sz * unat new_cap + 7 < 2 ^ 32"
  shows "\<exists>p m'. hl_grow alloc free sz new_cap l m = Some (l\<lparr>ldata := p, lcap := new_cap\<rparr>, m') \<and>
    (p \<noteq> 0 \<longleftrightarrow> room (kheap m) (sz * new_cap)) \<and>
    (if p = 0 then holds (kheap m') (other_blocks l L)
     else \<exists>k. list_at holds sz (l\<lparr>ldata := p, lcap := new_cap\<rparr>) m' (insert (unat p, k) (other_blocks l L)) (al_grow new_cap x) \<and>
       unat p \<notin> fst ` L \<and> blocks_kept L m m')"
proof -
  have h: "holds (kheap m) L" and sz: "0 < sz" and len: "length (elems x) = unat (llen l)" "llen l \<le> lcap l"
    and el: "\<forall>i < unat (llen l). cells m (cell sz (ldata l) i) = elems x ! i"
    using l by (auto simp: list_at_def)
  have req: "unat (sz * new_cap) = unat sz * unat new_cap" using n(3) by (simp add: unat_word_ariths)
  have pos: "0 < unat sz" "0 < unat new_cap" using sz n(2) by (simp_all add: word_less_nat_alt)
  then have req0: "sz * new_cap \<noteq> 0" using req by (metis mult_is_0 neq0_conv unat_0)
  have "unat (sz * new_cap) + 7 < 2 ^ 32" using n(3) req by simp
  from alloc_law [OF h req0 this] obtain p h1 where a: "alloc (sz * new_cap) (kheap m) = Some (p, h1)"
    and c: "if p = 0 then holds h1 L
      else \<exists>k. unat (sz * new_cap) \<le> k \<and> holds h1 (insert (unat p, k) L) \<and> (\<forall>(q, j) \<in> L. unat p + k < q \<or> q + j < unat p)"
    by blast
  note rm = alloc_room [OF h req0 a]
  let ?m1 = "m\<lparr>kheap := h1, cells := copy_cells sz p (ldata l) (unat (llen l)) (cells m)\<rparr>"
  have g: "hl_grow alloc free sz new_cap l m =
      do { m \<leftarrow> hl_free free (ldata l) ?m1; Some (l\<lparr>ldata := p, lcap := new_cap\<rparr>, m) }"
    by (simp add: hl_grow_def a Let_def)
  show ?thesis
  proof (cases "p = 0")
    case True
    then obtain h2 where "hl_free free (ldata l) ?m1 = Some (?m1\<lparr>kheap := h2\<rparr>)" "holds h2 (other_blocks l L)"
      using free_old_null [OF l, of ?m1] c by auto
    then show ?thesis using True g rm by (intro exI [of _ p]) auto
  next
    case False
    with c obtain k where k: "unat (sz * new_cap) \<le> k" "holds h1 (insert (unat p, k) L)"
      and apart: "\<And>q j. (q, j) \<in> L \<Longrightarrow> unat p + k < q \<or> q + j < unat p" by auto
    have pk: "unat p + k < 2 ^ 32" using live_range [OF k(2), of "unat p" k] by simp
    have fresh: "unat p \<notin> fst ` L" using apart by fastforce
    have ne: "unat p \<noteq> unat (ldata l)"
    proof (cases "ldata l = 0")
      case nz: False
      then show ?thesis using l fresh by (force simp: list_at_def)
    qed (use False in \<open>simp add: unat_eq_0\<close>)
    obtain h2 where f: "hl_free free (ldata l) ?m1 = Some (?m1\<lparr>kheap := h2\<rparr>)" "holds h2 (insert (unat p, k) (other_blocks l L))"
      using free_old [OF l, of ?m1 "(unat p, k)"] k(2) ne by auto
    have room: "unat new_cap * unat sz \<le> k" using k(1) req by (simp add: mult.commute)
    have le: "unat (llen l) \<le> unat new_cap" using n(1) by (simp add: word_le_nat_alt)
    then have room': "unat (llen l) * unat sz \<le> k" using room by (meson mult_le_mono1 order_trans)
    note new = cell_range [OF pk room']
    have inj: "i = j" if "i < unat (llen l)" "j < unat (llen l)" "cell sz p i = cell sz p j" for i j
    proof -
      have "unat p + i * unat sz = unat p + j * unat sz" using new(1) [OF that(1)] new(1) [OF that(2)] that(3) by metis
      then show ?thesis using pos(1) by simp
    qed
    have sep: "cell sz p i \<noteq> cell sz (ldata l) j" if ij: "i < unat (llen l)" "j < unat (llen l)" for i j
    proof -
      have "llen l \<noteq> 0" using ij(1) by auto
      then have nz: "ldata l \<noteq> 0" using l len(2) by (auto simp: list_at_def)
      obtain k' where k': "(unat (ldata l), k') \<in> L" "unat (lcap l) * unat sz \<le> k'" "unat (ldata l) + k' < 2 ^ 32"
        by (rule own_block [OF l nz])
      have "unat (llen l) * unat sz \<le> k'"
        using len(2) k'(2) by (meson mult_le_mono1 order_trans word_le_nat_alt)
      note old = cell_range [OF k'(3) this ij(2)]
      have "unat (cell sz p i) < unat p + k" "unat p \<le> unat (cell sz p i)"
        using new [OF ij(1)] pos(1) by linarith+
      moreover have "unat (cell sz (ldata l) j) < unat (ldata l) + k'" "unat (ldata l) \<le> unat (cell sz (ldata l) j)"
        using old pos(1) by linarith+
      ultimately show ?thesis using apart [OF k'(1)] by auto
    qed
    have cp: "cells ?m1 (cell sz p i) = elems x ! i" if "i < unat (llen l)" for i
    proof -
      have "copy_cells sz p (ldata l) (unat (llen l)) (cells m) (cell sz p i) = cells m (cell sz (ldata l) i)"
        by (rule copy_cells_at [OF inj sep that])
      then show ?thesis using el that by simp
    qed
    let ?m2 = "?m1\<lparr>kheap := h2\<rparr>"
    have at: "list_at holds sz (l\<lparr>ldata := p, lcap := new_cap\<rparr>) ?m2 (insert (unat p, k) (other_blocks l L)) (al_grow new_cap x)"
      using f(2) sz len n(1) cp False room by (auto simp: list_at_def al_grow_def)
    have "blocks_kept {b \<in> insert (unat p, k) L. fst b \<noteq> unat p} m ?m2"
      by (rule write_kept [OF k(2) _ pk room' sz]) (auto intro: copy_cells_other)
    moreover have "{b \<in> insert (unat p, k) L. fst b \<noteq> unat p} = L"
    proof -
      have "fst b \<noteq> unat p" if "b \<in> L" for b using fresh imageI [OF that, of fst] by metis
      then show ?thesis by auto
    qed
    ultimately have "blocks_kept L m ?m2" by simp
    then show ?thesis using at g f(1) False fresh rm by (intro exI [of _ p] exI [of _ ?m2]) auto
  qed
qed

lemma put:
  fixes v :: 'a
  assumes l: "list_at holds sz l m L x" and lt: "llen l < lcap l"
  defines "m' \<equiv> m\<lparr>cells := (cells m)(cell sz (ldata l) (unat (llen l)) := v)\<rparr>"
  shows "list_at holds sz (l\<lparr>llen := llen l + 1\<rparr>) m' L (x\<lparr>elems := elems x @ [v]\<rparr>)"
    and "blocks_kept (other_blocks l L) m m'"
proof -
  have h: "holds (kheap m) L" and sz: "0 < sz" and len: "length (elems x) = unat (llen l)"
    and el: "\<forall>i < unat (llen l). cells m (cell sz (ldata l) i) = elems x ! i"
    using l by (auto simp: list_at_def)
  have "lcap l \<noteq> 0" using lt by auto
  then have nz: "ldata l \<noteq> 0" using l by (auto simp: list_at_def)
  obtain k where k: "(unat (ldata l), k) \<in> L" "unat (lcap l) * unat sz \<le> k" "unat (ldata l) + k < 2 ^ 32"
    by (rule own_block [OF l nz])
  have n: "unat (llen l) < unat (lcap l)" using lt by (simp add: word_less_nat_alt)
  have pos: "0 < unat sz" using sz by (simp add: word_less_nat_alt)
  note r = cell_range [OF k(3,2)]
  have dist: "cell sz (ldata l) i \<noteq> cell sz (ldata l) (unat (llen l))" if i: "i < unat (llen l)" for i
  proof
    assume "cell sz (ldata l) i = cell sz (ldata l) (unat (llen l))"
    then have "unat (ldata l) + i * unat sz = unat (ldata l) + unat (llen l) * unat sz"
      using r(1) [OF n] r(1) [OF less_trans [OF i n]] by metis
    then show False using pos i by simp
  qed
  have s1: "unat (llen l + 1) = unat (llen l) + 1"
  proof -
    have "unat (llen l) + 1 < 2 ^ 32" by (rule le_less_trans [of _ "unat (lcap l)"]) (use n in simp_all)
    then show ?thesis by (simp add: unat_word_ariths)
  qed
  have "cells m' (cell sz (ldata l) i) = (elems x @ [v]) ! i" if "i < unat (llen l + 1)" for i
    using that dist [of i] el len unfolding m'_def s1 by (cases "i = unat (llen l)") (auto simp: nth_append)
  moreover have "llen l + 1 \<le> lcap l" using n s1 by (simp add: word_le_nat_alt)
  ultimately show "list_at holds sz (l\<lparr>llen := llen l + 1\<rparr>) m' L (x\<lparr>elems := elems x @ [v]\<rparr>)"
    using l s1 len unfolding list_at_def m'_def by auto
  have "blocks_kept {b \<in> L. fst b \<noteq> unat (ldata l)} m m'"
    by (rule write_kept [OF h k(1,3,2) sz]) (use n in \<open>auto simp: m'_def\<close>)
  then show "blocks_kept (other_blocks l L) m m'" by (simp add: other_blocks_def)
qed

lemma other_new: "p \<notin> fst ` L \<Longrightarrow> unat (ldata l') = p \<Longrightarrow> other_blocks l' (insert (p, k) (other_blocks l L)) = other_blocks l L"
  by (auto simp: other_blocks_def image_iff)

lemma kept_trans: "blocks_kept L m m' \<Longrightarrow> blocks_kept L m' m'' \<Longrightarrow> blocks_kept L m m''"
  by (fastforce simp: blocks_kept_def)

lemma kept_subset: "blocks_kept L m m' \<Longrightarrow> blocks_kept (other_blocks l L) m m'"
  by (auto simp: blocks_kept_def other_blocks_def)

lemma push_back:
  assumes l: "list_at holds sz l m L x"
    and n: "4 * unat sz + 7 < 2 ^ 32" "2 * unat (lcap l) * unat sz + 7 < 2 ^ 32"
  shows "\<exists>l' m'. hl_push_back alloc free sz v l m = Some (l', m') \<and>
    (if llen l = lcap l \<and> \<not> room (kheap m) (sz * (if lcap l = 0 then 4 else 2 * lcap l))
     then ldata l' = 0 \<and> holds (kheap m') (other_blocks l L) \<and> cells m' (cell sz 0 (unat (llen l))) = v
     else ldata l' \<noteq> 0 \<and> (\<exists>k. list_at holds sz l' m' (insert (unat (ldata l'), k) (other_blocks l L)) (al_push_back v x) \<and>
       blocks_kept (other_blocks l L) m m'))"
proof -
  have len: "length (elems x) = unat (llen l)" "llen l \<le> lcap l" "cap x = lcap l" "0 < sz"
    using l by (auto simp: list_at_def)
  have pos: "0 < unat sz" using len(4) by (simp add: word_less_nat_alt)
  have "2 * unat (lcap l) \<le> 2 * unat (lcap l) * unat sz" using pos by (cases "unat sz") simp_all
  then have small: "2 * unat (lcap l) + 7 < 2 ^ 32" using n(2) by linarith
  have le: "unat (llen l) \<le> unat (lcap l)" using len(2) by (simp add: word_le_nat_alt)
  have s1: "unat (llen l + 1) = unat (llen l) + 1" using le small by (simp add: unat_word_ariths)
  have full: "lcap l < llen l + 1 \<longleftrightarrow> unat (llen l) = unat (lcap l)"
    using le s1 by (simp add: word_less_nat_alt) linarith
  have al: "al_len x = llen l" using len(1) by (simp add: al_len_def)
  show ?thesis
  proof (cases "lcap l < llen l + 1")
    case False
    then have lt: "llen l < lcap l" using full le by (simp add: word_less_nat_alt)
    then have ne: "llen l \<noteq> lcap l" and "lcap l \<noteq> 0" by auto
    then have nz: "ldata l \<noteq> 0" using l by (auto simp: list_at_def)
    obtain k where k: "L = insert (unat (ldata l), k) (other_blocks l L)" by (rule own_block [OF l nz])
    have "al_push_back v x = x\<lparr>elems := elems x @ [v]\<rparr>" using False len(3) al by (simp add: al_push_back_def)
    then have "list_at holds sz (l\<lparr>llen := llen l + 1\<rparr>) (m\<lparr>cells := (cells m)(cell sz (ldata l) (unat (llen l)) := v)\<rparr>)
        (insert (unat (ldata l), k) (other_blocks l L)) (al_push_back v x)"
      using put(1) [OF l lt, of v] by (simp only: k [symmetric])
    then show ?thesis using put(2) [OF l lt, of v] False nz ne by (auto simp: hl_push_back_def)
  next
    case True
    let ?c = "if lcap l = 0 then 4 else lcap l * 2"
    have c: "unat ?c = (if lcap l = 0 then 4 else 2 * unat (lcap l))"
      using small by (auto simp: unat_word_ariths)
    have z: "lcap l \<noteq> 0 \<Longrightarrow> 0 < unat (lcap l)" by (simp add: unat_gt_0)
    have cn: "unat (llen l) < unat ?c" using le c z by (cases "lcap l = 0") auto
    have req: "unat sz * unat ?c + 7 < 2 ^ 32"
    proof (cases "lcap l = 0")
      case True then show ?thesis using n(1) by (simp add: mult.commute)
    next
      case False
      have "unat sz * (2 * unat (lcap l)) = 2 * unat (lcap l) * unat sz" by simp
      then have "unat sz * (2 * unat (lcap l)) + 7 < 2 ^ 32" using n(2) by (simp only:)
      moreover have "unat ?c = 2 * unat (lcap l)" using c False by presburger
      ultimately show ?thesis by (simp only:)
    qed
    have "llen l \<le> ?c" "0 < ?c" using cn by (simp_all only: word_le_nat_alt word_less_nat_alt unat_0)
    from grow [OF l this req] obtain p m1 where
      g: "hl_grow alloc free sz ?c l m = Some (l\<lparr>ldata := p, lcap := ?c\<rparr>, m1)"
      and rm: "p \<noteq> 0 \<longleftrightarrow> room (kheap m) (sz * ?c)"
      and cs: "if p = 0 then holds (kheap m1) (other_blocks l L)
        else \<exists>k. list_at holds sz (l\<lparr>ldata := p, lcap := ?c\<rparr>) m1 (insert (unat p, k) (other_blocks l L)) (al_grow ?c x) \<and>
          unat p \<notin> fst ` L \<and> blocks_kept L m m1" by blast
    let ?l = "l\<lparr>ldata := p, lcap := ?c\<rparr>"
    let ?m = "m1\<lparr>cells := (cells m1)(cell sz p (unat (llen l)) := v)\<rparr>"
    have eq: "llen l = lcap l" using True full by (simp add: word_unat_eq_iff)
    have r: "hl_push_back alloc free sz v l m = Some (?l\<lparr>llen := llen l + 1\<rparr>, ?m)"
      unfolding hl_push_back_def using True g by simp
    show ?thesis
    proof (cases "p = 0")
      case True
      then show ?thesis using r cs rm eq by (cases "lcap l = 0") (simp_all add: mult.commute [of 2])
    next
      case False
      then obtain k where k: "list_at holds sz ?l m1 (insert (unat p, k) (other_blocks l L)) (al_grow ?c x)"
        "unat p \<notin> fst ` L" "blocks_kept L m m1" using cs by auto
      have "llen ?l < lcap ?l" using cn by (simp only: word_less_nat_alt) simp
      note P = put [OF k(1) this, of v]
      have "al_push_back v x = (al_grow ?c x)\<lparr>elems := elems x @ [v]\<rparr>"
        using True len(3) al by (simp add: al_push_back_def al_grow_def)
      moreover have "blocks_kept (other_blocks l L) m1 ?m"
        using P(2) other_new [OF k(2), of ?l k l] by simp
      then have "blocks_kept (other_blocks l L) m ?m" by (rule kept_trans [OF kept_subset [OF k(3)]])
      moreover have "\<not> (llen l = lcap l \<and> \<not> room (kheap m) (sz * (if lcap l = 0 then 4 else 2 * lcap l)))"
        using rm False by (cases "lcap l = 0") (simp_all add: mult.commute [of 2])
      ultimately show ?thesis using P(1) r False by (auto simp: al_grow_def)
    qed
  qed
qed

lemma reserve:
  assumes l: "list_at holds sz l m L x" and n: "unat sz * unat new_cap + 7 < 2 ^ 32"
  shows "\<exists>l' m'. hl_reserve alloc free sz new_cap l m = Some (l', m') \<and>
    (if ldata l' = 0 then holds (kheap m') (other_blocks l L)
     else \<exists>k. list_at holds sz l' m' (insert (unat (ldata l'), k) (other_blocks l L)) (al_reserve new_cap x) \<and>
       blocks_kept (other_blocks l L) m m')"
proof (cases "new_cap \<le> lcap l")
  case True
  have h: "holds (kheap m) L" and c: "cap x = lcap l" using l by (auto simp: list_at_def)
  show ?thesis
  proof (cases "ldata l = 0")
    case nz: True
    have "other_blocks l L = L" by (rule null_blocks [OF l nz])
    then show ?thesis using True nz h by (simp add: hl_reserve_def)
  next
    case nz: False
    obtain k where k: "L = insert (unat (ldata l), k) (other_blocks l L)" by (rule own_block [OF l nz])
    have "al_reserve new_cap x = x" using True c by (simp add: al_reserve_def)
    then have "list_at holds sz l m (insert (unat (ldata l), k) (other_blocks l L)) (al_reserve new_cap x)"
      using l by (simp only: k [symmetric])
    then show ?thesis using True nz by (auto simp: hl_reserve_def blocks_kept_def)
  qed
next
  case False
  have c: "cap x = lcap l" "llen l \<le> lcap l" using l by (auto simp: list_at_def)
  then have le: "llen l \<le> new_cap" "0 < new_cap" using False by (auto simp: word_le_nat_alt word_less_nat_alt)
  have "al_reserve new_cap x = al_grow new_cap x" using False c by (simp add: al_reserve_def)
  moreover obtain p m1 where g: "hl_grow alloc free sz new_cap l m = Some (l\<lparr>ldata := p, lcap := new_cap\<rparr>, m1)"
    and "if p = 0 then holds (kheap m1) (other_blocks l L)
        else \<exists>k. list_at holds sz (l\<lparr>ldata := p, lcap := new_cap\<rparr>) m1 (insert (unat p, k) (other_blocks l L)) (al_grow new_cap x) \<and>
          unat p \<notin> fst ` L \<and> blocks_kept L m m1"
    using grow [OF l le n] by blast
  ultimately show ?thesis using False kept_subset [of L m m1 l] by (auto simp: hl_reserve_def split: if_splits)
qed

text \<open>Releasing a list, by \<^verbatim>\<open>release\<close> or the destructor, gives its block back.\<close>

lemma release:
  assumes l: "list_at holds sz l m L x"
  shows "\<exists>m'. hl_release free l m = Some (hl_new, m') \<and> list_at holds sz hl_new m' (other_blocks l L) (al_release x) \<and>
    cells m' = cells m"
proof -
  have h: "holds (kheap m) L" "0 < sz" using l by (auto simp: list_at_def)
  obtain h' where "hl_free free (ldata l) m = Some (m\<lparr>kheap := h'\<rparr>)" "holds h' (other_blocks l L)"
    using free_old_null [OF l h(1)] by blast
  then show ?thesis using h(2) by (auto simp: hl_release_def list_at_def hl_new_def al_release_def)
qed

lemma cells_distinct:
  assumes "list_at holds sz l m L x" and "i < unat (llen l)" "j < unat (llen l)"
    and "cell sz (ldata l) i = cell sz (ldata l) j"
  shows "i = j"
proof -
  have le: "unat (llen l) \<le> unat (lcap l)" and sz: "0 < unat sz"
    using assms(1) by (auto simp: list_at_def word_le_nat_alt word_less_nat_alt)
  have "lcap l \<noteq> 0" using le assms(2) by auto
  then have nz: "ldata l \<noteq> 0" using assms(1) by (auto simp: list_at_def)
  obtain k where k: "unat (lcap l) * unat sz \<le> k" "unat (ldata l) + k < 2 ^ 32" by (rule own_block [OF assms(1) nz])
  note r = cell_range(1) [OF k(2,1)]
  have "unat (ldata l) + i * unat sz = unat (ldata l) + j * unat sz"
    using r [OF less_le_trans [OF assms(2) le]] r [OF less_le_trans [OF assms(3) le]] assms(4) by metis
  then show ?thesis using sz by simp
qed

lemma pop_back:
  assumes l: "list_at holds sz l m L x"
  shows "list_at holds sz (hl_pop_back l) m L (al_pop_back x)"
proof (cases "llen l = 0")
  case True
  then show ?thesis using l by (auto simp: hl_pop_back_def al_pop_back_def al_len_def list_at_def)
next
  case False
  then have pos: "0 < unat (llen l)" by (simp add: unat_gt_0)
  then have s1: "unat (llen l - 1) = unat (llen l) - 1" using False by (simp add: unat_minus_one)
  have len: "length (elems x) = unat (llen l)" "llen l \<le> lcap l" using l by (auto simp: list_at_def)
  then have ne: "al_len x \<noteq> 0" using False by (simp add: al_len_def)
  have "llen l - 1 \<le> lcap l" using len(2) s1 by (simp add: word_le_nat_alt)
  then show ?thesis
    using l False ne s1 by (auto simp: hl_pop_back_def al_pop_back_def list_at_def nth_butlast)
qed

lemma clear: "list_at holds sz l m L x \<Longrightarrow> list_at holds sz (hl_clear l) m L (al_clear x)"
  by (auto simp: hl_clear_def al_clear_def list_at_def)

lemma shift_cells:
  fixes c :: "u32 \<Rightarrow> 'a"
  assumes inj: "\<And>i j. i < n \<Longrightarrow> j < n \<Longrightarrow> cell sz p i = cell sz p j \<Longrightarrow> i = j" and "a < n"
  shows "m \<le> n \<Longrightarrow> j < n \<Longrightarrow>
    fold (\<lambda>i c. c(cell sz p (i - 1) := c (cell sz p i))) [a + 1..<m] c (cell sz p j) =
      (if a \<le> j \<and> j + 1 < m then c (cell sz p (j + 1)) else c (cell sz p j))"
proof (induction m arbitrary: j)
  case (Suc m)
  let ?f = "\<lambda>i c. c(cell sz p (i - 1) := c (cell sz p i))"
  show ?case
  proof (cases "a + 1 \<le> m")
    case True
    define g where "g = fold ?f [a + 1..<m] c"
    have g: "g (cell sz p j) = (if a \<le> j \<and> j + 1 < m then c (cell sz p (j + 1)) else c (cell sz p j))" if "j < n" for j
      unfolding g_def by (rule Suc.IH [OF Suc_leD [OF Suc.prems(1)] that])
    have st: "fold ?f [a + 1..<Suc m] c = g(cell sz p (m - 1) := g (cell sz p m))"
      unfolding upt_Suc_append [OF True] fold_append g_def by simp
    have "cell sz p j = cell sz p (m - 1) \<longleftrightarrow> j = m - 1"
      using inj [of j "m - 1"] Suc.prems by auto
    then show ?thesis
      unfolding st using g [of m] g [of j] True Suc.prems by auto
  next
    case False
    then have "[a + 1..<Suc m] = []" by simp
    then show ?thesis using False by auto
  qed
qed simp

lemma remove_at:
  assumes l: "list_at holds sz l m L x"
  shows "list_at holds sz (fst (hl_remove_at sz index l m)) (snd (hl_remove_at sz index l m)) L (al_remove_at index x)"
proof (cases "llen l \<le> index")
  case True
  have "al_len x = llen l" using l by (simp add: list_at_def al_len_def)
  then show ?thesis using True l by (simp add: hl_remove_at_def al_remove_at_def)
next
  case False
  let ?n = "unat (llen l)" and ?i = "unat index"
  have len: "length (elems x) = ?n" "llen l \<le> lcap l" using l by (auto simp: list_at_def)
  have lt: "?i < ?n" using False by (simp add: word_le_nat_alt not_le)
  have s1: "unat (llen l - 1) = ?n - 1" using lt by (intro unat_minus_one) auto
  have nd: "length (elems x) < 2 ^ 32" using len(1) unsigned_less [of "llen l"] by simp
  have e: "elems (al_remove_at index x) = take ?i (elems x) @ drop (?i + 1) (elems x)" by (rule al_remove_at_spec [OF nd])
  have ca: "cap (al_remove_at index x) = lcap l" using l by (simp add: al_remove_at_def list_at_def)
  let ?c = "fold (\<lambda>i c. c(cell sz (ldata l) (i - 1) := c (cell sz (ldata l) i))) [?i + 1..<?n] (cells m)"
  have sh: "?c (cell sz (ldata l) j) = (if ?i \<le> j then elems x ! (j + 1) else elems x ! j)" if "j < ?n - 1" for j
  proof -
    have "?c (cell sz (ldata l) j) = (if ?i \<le> j \<and> j + 1 < ?n then cells m (cell sz (ldata l) (j + 1)) else cells m (cell sz (ldata l) j))"
      by (rule shift_cells [OF cells_distinct [OF l] lt order_refl]) (use that in simp_all)
    moreover have "j + 1 < ?n" using that by simp
    ultimately show ?thesis using l len(1) by (auto simp: list_at_def)
  qed
  have "llen l - 1 \<le> lcap l" using len(2) s1 by (simp add: word_le_nat_alt)
  moreover have "\<forall>j < ?n - 1. ?c (cell sz (ldata l) j) = elems (al_remove_at index x) ! j"
    using sh lt len(1) by (auto simp: e nth_append min_def)
  ultimately show ?thesis
    using False l s1 lt len(1) by (auto simp: hl_remove_at_def list_at_def ca e)
qed

end

section \<open>On the kernel heap\<close>

text \<open>C29: \<^verbatim>\<open>push_back\<close> on the kernel heap refines appending to a list. It always returns and touches no
  address without a header. Unless the list is full and the heap has no free block for twice its capacity (for four
  elements if it has none), the list then has a block of its own that holds the old elements and the new one, its
  capacity doubled from 4 on where it was full; the old block is released and no other block has changed, in size or in
  contents. If it is full and the heap has no such block, the null pointer is not noticed: the list's block is
  released and the element is written at its offset from address 0.\<close>

theorem push_back_refines:
  assumes "list_at (heap_holds hb) sz l m L x" and "4 * unat sz + 7 < 2 ^ 32"
  shows "\<exists>l' m'. hl_push_back (kmalloc hb) kfree sz v l m = Some (l', m') \<and>
    (if llen l = lcap l \<and> \<not> heap_room hb (kheap m) (sz * (if lcap l = 0 then 4 else 2 * lcap l))
     then ldata l' = 0 \<and> heap_holds hb (kheap m') (other_blocks l L) \<and> cells m' (cell sz 0 (unat (llen l))) = v
     else ldata l' \<noteq> 0 \<and>
       (\<exists>k. list_at (heap_holds hb) sz l' m' (insert (unat (ldata l'), k) (other_blocks l L)) (al_push_back v x) \<and>
         blocks_kept (other_blocks l L) m m'))"
proof (rule kh.push_back [OF assms])
  show "2 * unat (lcap l) * unat sz + 7 < 2 ^ 32"
  proof (cases "ldata l = 0")
    case True
    then show ?thesis using assms(1) by (simp add: list_at_def)
  next
    case False
    obtain k where k: "(unat (ldata l), k) \<in> L" "unat (lcap l) * unat sz \<le> k" by (rule kh.own_block [OF assms(1) False])
    have "heap_holds hb (kheap m) L" using assms(1) by (simp add: list_at_def)
    from heap_holds_range [OF this k(1)] have "k \<le> 65536" by linarith
    then show ?thesis using k(2) by simp
  qed
qed

lemma kmalloc_4: "\<exists>h. kmalloc 4096 4 fresh_heap = Some (4112, h)"
proof -
  have "heap_inv 4096 fresh_heap [(65520, True)]" by (rule heap_inv_fresh) (simp_all add: fresh_heap_def)
  from kmalloc_step [OF this, of 4] show ?thesis by (auto simp: align8_def place_def)
qed

theorem push_back_refines_witness:
  "\<exists>m' k. hl_push_back (kmalloc 4096) kfree 1 (7 :: u8) hl_new \<lparr>cells = \<lambda>_. 0, kheap = fresh_heap\<rparr> =
      Some (\<lparr>ldata = 4112, llen = 1, lcap = 4\<rparr>, m') \<and>
    list_at (heap_holds 4096) 1 \<lparr>ldata = 4112, llen = 1, lcap = 4\<rparr> m' {(4112, k)} \<lparr>elems = [7], cap = 4\<rparr>"
proof -
  let ?m = "\<lparr>cells = \<lambda>_. 0 :: u8, kheap = fresh_heap\<rparr>"
  have l: "list_at (heap_holds 4096) 1 hl_new ?m {} al_new"
    using fresh_heap_holds [of 4096] by (simp add: list_at_def hl_new_def al_new_def)
  obtain h where h: "kmalloc 4096 4 fresh_heap = Some (4112, h)" using kmalloc_4 by auto
  have "other_blocks hl_new {} = {}" by (simp add: other_blocks_def)
  moreover have "al_push_back 7 al_new = \<lparr>elems = [7 :: u8], cap = 4\<rparr>"
    by (simp add: al_push_back_def al_new_def al_grow_def al_len_def)
  ultimately show ?thesis
    using push_back_refines [OF l, of 7] kmalloc_heap_room [OF fresh_heap_holds [of 4096], of 4] h
    by (simp add: hl_push_back_def hl_grow_def hl_free_def hl_new_def h split: if_splits)
qed

end
