(* ===== verification/Disk.thy ===== *)
theory Disk
  imports Prelude
begin

text \<open>
  The interface between the file system and the disk driver: the three functions of
  \<^verbatim>\<open>src/kernel/drivers/ata.h\<close> that \<^verbatim>\<open>filesystem.cpp\<close> calls, over a device state of
  any type. A read returns whether it succeeded and the bytes it has put into the caller's buffer
  (on failure, those transferred before), a write takes the caller's buffer.

  \<open>block_device\<close> is the contract a client may rely on even if commands fail; \<open>reliable_disk\<close>
  adds that they do not. Theory \<open>Ata\<close> proves both contracts of the driver model.
\<close>

record 'd disk_ops =
  read_sectors :: "'d \<Rightarrow> u32 \<Rightarrow> u32 \<Rightarrow> bool \<times> u8 list \<times> 'd"
  write_sectors :: "'d \<Rightarrow> u32 \<Rightarrow> u8 list \<Rightarrow> u32 \<Rightarrow> bool \<times> 'd"
  get_sector_count :: "'d \<Rightarrow> u64 option \<times> 'd"

text \<open>
  The sectors a client uses: the file system's tables end at sector 145, its bitmap has room for
  \<open>512 * 8 * 8\<close> blocks. Nothing is asked of a device beyond them.
\<close>

abbreviation lba_limit :: nat where "lba_limit \<equiv> 145 + 512 * 8 * 8"

text \<open>Sector \<open>i\<close> of a buffer.\<close>

definition chunk :: "u8 list \<Rightarrow> nat \<Rightarrow> u8 list" where
  "chunk buf i = take 512 (drop (512 * i) buf)"

locale block_device =
  fixes io :: "'d disk_ops"
    and sec :: "'d \<Rightarrow> nat \<Rightarrow> u8 list"
    and ready :: "'d \<Rightarrow> bool"
  assumes sec_length: "ready d \<Longrightarrow> length (sec d l) = 512"
    and read_law: "ready d \<Longrightarrow> unat lba + unat n \<le> lba_limit \<Longrightarrow>
      read_sectors io d lba n = (ok, bs, d') \<Longrightarrow>
      ready d' \<and> sec d' = sec d \<and> length bs \<le> 512 * unat n \<and>
      (ok \<longrightarrow> bs = concat (map (sec d) [unat lba..<unat lba + unat n]))"
    and read_frame: "ready d \<Longrightarrow> read_sectors io d lba n = (ok, bs, d') \<Longrightarrow> ready d' \<and> sec d' = sec d"
    and write_law: "ready d \<Longrightarrow> unat lba + unat n \<le> lba_limit \<Longrightarrow> 512 * unat n \<le> length buf \<Longrightarrow>
      write_sectors io d lba buf n = (ok, d') \<Longrightarrow>
      ready d' \<and> (ok \<longrightarrow> (\<forall>i < unat n. sec d' (unat lba + i) = chunk buf i)) \<and>
      (\<forall>l < lba_limit. l < unat lba \<or> unat lba + unat n \<le> l \<longrightarrow> sec d' l = sec d l)"
    and count_law: "ready d \<Longrightarrow> get_sector_count io d = (r, d') \<Longrightarrow> ready d' \<and> sec d' = sec d"

locale reliable_disk = block_device +
  assumes read_total: "ready d \<Longrightarrow> unat lba + unat n \<le> lba_limit \<Longrightarrow>
      fst (read_sectors io d lba n)"
    and write_total: "ready d \<Longrightarrow> unat lba + unat n \<le> lba_limit \<Longrightarrow> 512 * unat n \<le> length buf \<Longrightarrow>
      fst (write_sectors io d lba buf n)"

lemma chunk_0: "length buf = 512 \<Longrightarrow> chunk buf 0 = buf"
  by (simp add: chunk_def)

lemma concat_chunks:
  "length buf = 512 * n \<Longrightarrow> concat (map (chunk buf) [0..<n]) = buf"
proof (induction n arbitrary: buf)
  case 0
  then show ?case by simp
next
  case (Suc n)
  have "map (chunk buf) [0..<Suc n] = chunk buf 0 # map (chunk (drop 512 buf)) [0..<n]"
    unfolding upt_conv_Cons [OF zero_less_Suc] map_Suc_upt [symmetric]
    by (simp add: chunk_def add.commute)
  moreover have "concat (map (chunk (drop 512 buf)) [0..<n]) = drop 512 buf"
    using Suc.prems by (intro Suc.IH) simp
  ultimately have "concat (map (chunk buf) [0..<Suc n]) = chunk buf 0 @ drop 512 buf"
    by (simp only: concat.simps)
  also have "\<dots> = buf" by (simp add: chunk_def)
  finally show ?case .
qed

section \<open>A disk in memory\<close>

text \<open>
  The simplest device that meets the contract, a sector store whose commands never fail; closed
  witnesses of the file-system theorems use it where the driver is not the point.
\<close>

type_synonym ramdisk = "nat \<Rightarrow> u8 list"

definition pad_sector :: "u8 list \<Rightarrow> u8 list" where
  "pad_sector bs = take 512 (bs @ replicate 512 0)"

definition ram_ops :: "ramdisk disk_ops" where
  "ram_ops = \<lparr>
     read_sectors = (\<lambda>d lba n.
       (True, concat (map (\<lambda>l. pad_sector (d l)) [unat lba..<unat lba + unat n]), d)),
     write_sectors = (\<lambda>d lba buf n.
       (True, \<lambda>l. if unat lba \<le> l \<and> l < unat lba + unat n then chunk buf (l - unat lba) else d l)),
     get_sector_count = (\<lambda>d. (Some 4194304, d))\<rparr>"

definition ram_sec :: "ramdisk \<Rightarrow> nat \<Rightarrow> u8 list" where
  "ram_sec d = (\<lambda>l. pad_sector (d l))"

lemma length_pad_sector [simp]: "length (pad_sector bs) = 512"
  by (simp add: pad_sector_def)

lemma pad_sector_id: "length bs = 512 \<Longrightarrow> pad_sector bs = bs"
  by (simp add: pad_sector_def)

lemma length_concat_sectors:
  "(\<And>l. l \<in> set ls \<Longrightarrow> length (f l) = 512) \<Longrightarrow> length (concat (map f ls)) = 512 * length ls"
  by (induction ls) auto

interpretation ram: reliable_disk ram_ops ram_sec "\<lambda>_. True"
proof unfold_locales
  fix d :: ramdisk and lba n :: u32 and buf ok d'
  assume len: "512 * unat n \<le> length buf" and w: "write_sectors ram_ops d lba buf n = (ok, d')"
  have "length (chunk buf i) = 512" if "i < unat n" for i
    using len that by (auto simp: chunk_def)
  then show "True \<and> (ok \<longrightarrow> (\<forall>i < unat n. ram_sec d' (unat lba + i) = chunk buf i)) \<and>
      (\<forall>l < lba_limit. l < unat lba \<or> unat lba + unat n \<le> l \<longrightarrow> ram_sec d' l = ram_sec d l)"
    using w by (auto simp: ram_ops_def ram_sec_def pad_sector_id)
qed (auto simp: ram_ops_def ram_sec_def length_concat_sectors)

end
