(* ===== verification/FsLayout.thy ===== *)
theory FsLayout
  imports Disk
begin

text \<open>
  The byte level of \<^verbatim>\<open>src/kernel/filesystem/filesystem.cpp\<close>: its memory and string helpers,
  the password hash, and the packed structs that are copied to and from disk sectors: superblock,
  inodes, and the directory entries of a 512-byte directory block.
\<close>

section \<open>Memory and string helpers\<close>

text \<open>The loops write \<open>dst[0], dst[1], \<dots>\<close> in this order; \<open>off\<close> is where \<open>dst\<close> points in the buffer.\<close>

primrec mem_set :: "u8 list \<Rightarrow> nat \<Rightarrow> u8 \<Rightarrow> nat \<Rightarrow> u8 list" where
  "mem_set buf off v 0 = buf"
| "mem_set buf off v (Suc n) = (mem_set buf off v n)[off + n := v]"

primrec mem_copy :: "u8 list \<Rightarrow> nat \<Rightarrow> u8 list \<Rightarrow> nat \<Rightarrow> u8 list" where
  "mem_copy buf off src 0 = buf"
| "mem_copy buf off src (Suc n) = (mem_copy buf off src n)[off + n := byte_at src n]"

fun str_len :: "u8 list \<Rightarrow> nat" where
  "str_len [] = 0"
| "str_len (c # cs) = (if c = 0 then 0 else Suc (str_len cs))"

fun str_equals :: "u8 list \<Rightarrow> u8 list \<Rightarrow> bool" where
  "str_equals (a # as) (b # bs) =
     (if a \<noteq> 0 \<and> b \<noteq> 0 then (if a \<noteq> b then False else str_equals as bs) else a = b)"
| "str_equals as bs = (byte_at as 0 = byte_at bs 0)"

fun fnv1a_step :: "u32 \<Rightarrow> u8 list \<Rightarrow> u32" where
  "fnv1a_step hash [] = hash"
| "fnv1a_step hash (c # cs) =
     (if c = 0 then hash else fnv1a_step ((hash XOR ucast c) * 16777619) cs)"

definition fnv1a_32 :: "u8 list \<Rightarrow> u32" where
  "fnv1a_32 s = fnv1a_step 2166136261 s"

lemma length_mem_set [simp, byte_simps]: "length (mem_set buf off v n) = length buf"
  by (induction n) auto

lemma length_mem_copy [simp, byte_simps]: "length (mem_copy buf off src n) = length buf"
  by (induction n) auto

lemma byte_at_mem_set [byte_simps]:
  "byte_at (mem_set buf off v n) i =
     (if off \<le> i \<and> i < off + n \<and> i < length buf then v else byte_at buf i)"
  by (induction n) (auto simp: byte_at_update)

lemma byte_at_mem_copy [byte_simps]:
  "byte_at (mem_copy buf off src n) i =
     (if off \<le> i \<and> i < off + n \<and> i < length buf then byte_at src (i - off) else byte_at buf i)"
  by (induction n) (auto simp: byte_at_update)

lemma mem_set_all: "length buf = n \<Longrightarrow> mem_set buf 0 v n = replicate n v"
  by (rule byte_at_eqI) (auto simp: byte_at_mem_set, auto simp: byte_at_def)

lemma mem_copy_all: "length buf = n \<Longrightarrow> length src = n \<Longrightarrow> mem_copy buf 0 src n = src"
  by (rule byte_at_eqI) (auto simp: byte_at_mem_copy)

lemma str_len_cstr: "str_len s = length (cstr s)"
  by (induction s) auto

lemma str_equals_cstr: "str_equals a b \<longleftrightarrow> cstr a = cstr b"
proof (induction a arbitrary: b)
  case Nil
  then show ?case by (cases b) auto
next
  case (Cons x xs)
  then show ?case by (cases b) auto
qed

lemma str_equals_refl [simp]: "str_equals a a"
  by (simp add: str_equals_cstr)

lemma fnv1a_step_cstr: "fnv1a_step h s = foldl (\<lambda>h c. (h XOR ucast c) * 16777619) h (cstr s)"
  by (induction h s rule: fnv1a_step.induct) auto

section \<open>Superblock and inodes\<close>

record superblock =
  magic :: u32
  version :: u32
  block_size :: u32
  inode_count :: u32
  block_count :: u32
  inode_table_lba :: u32
  bitmap_lba :: u32
  data_lba :: u32

record inode =
  used :: u8
  itype :: u8
  links :: u16
  isize :: u32
  direct :: "u32 list"
  reserved :: "u32 list"

definition sb_bytes :: "superblock \<Rightarrow> u8 list" where
  "sb_bytes sb = le32 (magic sb) @ le32 (version sb) @ le32 (block_size sb) @
     le32 (inode_count sb) @ le32 (block_count sb) @ le32 (inode_table_lba sb) @
     le32 (bitmap_lba sb) @ le32 (data_lba sb)"

definition sb_of_bytes :: "u8 list \<Rightarrow> superblock" where
  "sb_of_bytes bs = \<lparr>magic = of_le32 bs, version = of_le32 (drop 4 bs),
     block_size = of_le32 (drop 8 bs), inode_count = of_le32 (drop 12 bs),
     block_count = of_le32 (drop 16 bs), inode_table_lba = of_le32 (drop 20 bs),
     bitmap_lba = of_le32 (drop 24 bs), data_lba = of_le32 (drop 28 bs)\<rparr>"

definition words_of_bytes :: "nat \<Rightarrow> u8 list \<Rightarrow> u32 list" where
  "words_of_bytes n bs = map (\<lambda>i. of_le32 (drop (4 * i) bs)) [0..<n]"

definition inode_bytes :: "inode \<Rightarrow> u8 list" where
  "inode_bytes nd = [used nd, itype nd] @ le16 (links nd) @ le32 (isize nd) @
     concat (map le32 (direct nd)) @ concat (map le32 (reserved nd))"

definition inode_of_bytes :: "u8 list \<Rightarrow> inode" where
  "inode_of_bytes bs = \<lparr>used = byte_at bs 0, itype = byte_at bs 1, links = of_le16 (drop 2 bs),
     isize = of_le32 (drop 4 bs), direct = words_of_bytes 8 (drop 8 bs),
     reserved = words_of_bytes 6 (drop 40 bs)\<rparr>"

definition zero_inode :: inode where
  "zero_inode = \<lparr>used = 0, itype = 0, links = 0, isize = 0,
     direct = replicate 8 0, reserved = replicate 6 0\<rparr>"

definition inodes_bytes :: "inode list \<Rightarrow> u8 list" where
  "inodes_bytes tab = concat (map inode_bytes tab)"

definition inodes_of_bytes :: "nat \<Rightarrow> u8 list \<Rightarrow> inode list" where
  "inodes_of_bytes n bs = map (\<lambda>i. inode_of_bytes (drop (64 * i) bs)) [0..<n]"

definition inode_shape :: "inode \<Rightarrow> bool" where
  "inode_shape nd \<longleftrightarrow> length (direct nd) = 8 \<and> length (reserved nd) = 6"

lemma length_concat_le32: "length (concat (map le32 ws)) = 4 * length ws"
  by (induction ws) auto

lemma length_sb_bytes [simp, le_simps]: "length (sb_bytes sb) = 32"
  by (simp add: sb_bytes_def)

lemma sb_roundtrip [simp, le_simps]: "sb_of_bytes (sb_bytes sb @ xs) = sb"
  by (simp add: sb_of_bytes_def sb_bytes_def)

lemma words_of_bytes_concat:
  "words_of_bytes (length ws) (concat (map le32 ws) @ xs) = ws"
proof (induction ws)
  case Nil
  then show ?case by (simp add: words_of_bytes_def)
next
  case (Cons w ws)
  have "words_of_bytes (Suc n) (le32 w @ ys) = w # words_of_bytes n ys" for n ys
    unfolding words_of_bytes_def upt_conv_Cons [OF zero_less_Suc] map_Suc_upt [symmetric]
    by simp
  with Cons show ?case by simp
qed

lemma length_inode_bytes: "inode_shape nd \<Longrightarrow> length (inode_bytes nd) = 64"
  by (simp add: inode_bytes_def inode_shape_def length_concat_le32)

lemma inode_roundtrip:
  assumes "inode_shape nd" shows "inode_of_bytes (inode_bytes nd @ xs) = nd"
proof -
  let ?t = "concat (map le32 (reserved nd)) @ xs"
  have d: "words_of_bytes 8 (concat (map le32 (direct nd)) @ ?t) = direct nd"
    using words_of_bytes_concat [of "direct nd" ?t] assms by (simp add: inode_shape_def)
  have r: "words_of_bytes 6 ?t = reserved nd"
    using words_of_bytes_concat [of "reserved nd" xs] assms by (simp add: inode_shape_def)
  have "drop 40 (inode_bytes nd @ xs) = ?t"
    using assms by (simp add: inode_bytes_def inode_shape_def length_concat_le32)
  then show ?thesis
    using d r by (simp add: inode_of_bytes_def inode_bytes_def)
qed

lemma inodes_roundtrip:
  "\<forall>nd \<in> set tab. inode_shape nd \<Longrightarrow>
   inodes_of_bytes (length tab) (inodes_bytes tab @ xs) = tab"
proof (induction tab)
  case Nil
  then show ?case by (simp add: inodes_of_bytes_def)
next
  case (Cons nd tab)
  have "inodes_of_bytes (Suc n) (inode_bytes nd @ ys) = nd # inodes_of_bytes n ys" for n ys
    unfolding inodes_of_bytes_def upt_conv_Cons [OF zero_less_Suc] map_Suc_upt [symmetric]
    using Cons.prems by (simp add: inode_roundtrip length_inode_bytes)
  with Cons show ?case by (simp add: inodes_bytes_def)
qed

lemma length_inodes_bytes:
  "\<forall>nd \<in> set tab. inode_shape nd \<Longrightarrow> length (inodes_bytes tab) = 64 * length tab"
  by (induction tab) (auto simp: inodes_bytes_def length_inode_bytes)

lemma inode_of_bytes_shape [simp]: "inode_shape (inode_of_bytes bs)"
  by (simp add: inode_shape_def inode_of_bytes_def words_of_bytes_def)

lemma inodes_of_bytes_shape: "nd \<in> set (inodes_of_bytes n bs) \<Longrightarrow> inode_shape nd"
  by (auto simp: inodes_of_bytes_def)

lemma length_inodes_of_bytes [simp]: "length (inodes_of_bytes n bs) = n"
  by (simp add: inodes_of_bytes_def)

lemma zero_inode_shape [simp]: "inode_shape zero_inode"
  by (simp add: inode_shape_def zero_inode_def)

section \<open>The block bitmap\<close>

definition bm_mask :: "nat \<Rightarrow> u8" where
  "bm_mask index = push_bit (index mod 8) 1"

definition bm_used :: "u8 list \<Rightarrow> nat \<Rightarrow> bool" where
  "bm_used bm index \<longleftrightarrow> byte_at bm (index div 8) AND bm_mask index \<noteq> 0"

definition bm_mark :: "u8 list \<Rightarrow> nat \<Rightarrow> u8 list" where
  "bm_mark bm index = bm[index div 8 := byte_at bm (index div 8) OR bm_mask index]"

definition bm_free :: "u8 list \<Rightarrow> nat \<Rightarrow> u8 list" where
  "bm_free bm index = bm[index div 8 := byte_at bm (index div 8) AND NOT (bm_mask index)]"

lemma bm_used_bit: "bm_used bm i \<longleftrightarrow> bit (byte_at bm (i div 8)) (i mod 8)"
  by (simp add: bm_used_def bm_mask_def bit_iff_and_push_bit_not_eq_0)

lemma length_bm_mark [simp]: "length (bm_mark bm i) = length bm"
  by (simp add: bm_mark_def)

lemma length_bm_free [simp]: "length (bm_free bm i) = length bm"
  by (simp add: bm_free_def)

lemma eq_div_mod_8: "i div 8 = j div 8 \<Longrightarrow> i mod 8 = j mod 8 \<longleftrightarrow> i = (j :: nat)"
  by (metis div_mult_mod_eq)

lemma bm_used_mark:
  assumes "j < 8 * length bm"
  shows "bm_used (bm_mark bm j) i \<longleftrightarrow> i = j \<or> bm_used bm i"
  using assms eq_div_mod_8 [of i j]
  by (auto simp: bm_used_bit bm_mark_def bm_mask_def byte_at_update bit_simps)

lemma bm_used_free:
  assumes "j < 8 * length bm"
  shows "bm_used (bm_free bm j) i \<longleftrightarrow> i \<noteq> j \<and> bm_used bm i"
  using assms eq_div_mod_8 [of i j]
  by (auto simp: bm_used_bit bm_free_def bm_mask_def byte_at_update bit_simps)

lemma bm_used_replicate: "\<not> bm_used (replicate n 0) i"
  by (simp add: bm_used_def byte_at_replicate)

end
