(* ===== verification/FsDir.thy ===== *)
theory FsDir
  imports FsLayout
begin

text \<open>
  Directory blocks of \<^verbatim>\<open>filesystem.cpp\<close>: a 512-byte block read as 16 packed
  \<^verbatim>\<open>DirEntry\<close> records of 32 bytes (a used flag, an 8-bit inode number, 30 bytes of name),
  the loops that search them, and the splitting of a path at its first slash.

  The entries stay bytes: a name is the C string that starts at its first byte, wherever its
  terminator is, and writing a name writes as many bytes as it has, as the code does.
\<close>

abbreviation INODE_FILE :: u8 where "INODE_FILE \<equiv> 1"
abbreviation INODE_DIR :: u8 where "INODE_DIR \<equiv> 2"
abbreviation FS_MAX_INODES :: nat where "FS_MAX_INODES \<equiv> 64"

text \<open>\<^verbatim>\<open>FS_BLOCK_SIZE / sizeof(DirEntry)\<close>\<close>

abbreviation entry_count :: nat where "entry_count \<equiv> 16"

section \<open>Entries\<close>

definition de_used :: "u8 list \<Rightarrow> nat \<Rightarrow> bool" where
  "de_used blk i \<longleftrightarrow> byte_at blk (32 * i) \<noteq> 0"

definition de_inode :: "u8 list \<Rightarrow> nat \<Rightarrow> nat" where
  "de_inode blk i = unat (byte_at blk (32 * i + 1))"

definition de_name :: "u8 list \<Rightarrow> nat \<Rightarrow> u8 list" where
  "de_name blk i = drop (32 * i + 2) blk"

definition de_bytes :: "u8 list \<Rightarrow> nat \<Rightarrow> u8 list" where
  "de_bytes blk i = take 32 (drop (32 * i) blk)"

definition de_clear :: "u8 list \<Rightarrow> nat \<Rightarrow> u8 list" where
  "de_clear blk i = mem_set blk (32 * i) 0 32"

definition de_put :: "u8 list \<Rightarrow> nat \<Rightarrow> nat \<Rightarrow> u8 list \<Rightarrow> u8 list" where
  "de_put blk i ino name =
     mem_copy ((de_clear blk i)[32 * i := 1, 32 * i + 1 := of_nat ino]) (32 * i + 2) name (str_len name)"

definition de_rename :: "u8 list \<Rightarrow> nat \<Rightarrow> u8 list \<Rightarrow> u8 list" where
  "de_rename blk i name =
     mem_copy (mem_set blk (32 * i + 2) 0 30) (32 * i + 2) name (str_len name)"

section \<open>Searching a directory\<close>

text \<open>The entry is the first that is used, has this name and names a live inode of this type.\<close>

definition entry_matches :: "u8 list \<Rightarrow> u8 list \<Rightarrow> inode list \<Rightarrow> u8 \<Rightarrow> nat \<Rightarrow> bool" where
  "entry_matches name blk tab ty i \<longleftrightarrow>
     de_used blk i \<and> str_equals (de_name blk i) name \<and> de_inode blk i < FS_MAX_INODES \<and>
     used (tab ! de_inode blk i) \<noteq> 0 \<and> (ty = 0 \<or> itype (tab ! de_inode blk i) = ty)"

definition find_dir_entry :: "u8 list \<Rightarrow> u8 list \<Rightarrow> inode list \<Rightarrow> u8 \<Rightarrow> nat option" where
  "find_dir_entry name blk tab ty = List.find (entry_matches name blk tab ty) [0..<entry_count]"

definition find_free_slot :: "u8 list \<Rightarrow> nat option" where
  "find_free_slot blk = List.find (\<lambda>i. \<not> de_used blk i) [0..<entry_count]"

text \<open>
  The loop of \<^verbatim>\<open>fs_mkdir\<close> and \<^verbatim>\<open>fs_create\<close>: \<open>None\<close> where it returns false (the name is
  taken, or its entry has a bad inode number), else the first free slot, if any.
\<close>

fun new_entry_scan :: "u8 list \<Rightarrow> u8 list \<Rightarrow> inode list \<Rightarrow> u8 \<Rightarrow> nat list \<Rightarrow> nat option
    \<Rightarrow> nat option option" where
  "new_entry_scan name blk tab ty [] slot = Some slot"
| "new_entry_scan name blk tab ty (i # is) slot =
     (if de_used blk i then
        if str_equals (de_name blk i) name then
          if FS_MAX_INODES \<le> de_inode blk i then None
          else if used (tab ! de_inode blk i) \<noteq> 0 \<and> itype (tab ! de_inode blk i) = ty then None
          else new_entry_scan name blk tab ty is slot
        else new_entry_scan name blk tab ty is slot
      else new_entry_scan name blk tab ty is (if slot = None then Some i else slot))"

text \<open>The loop of \<^verbatim>\<open>fs_mkdir_path\<close>: entries with a bad inode number are passed over.\<close>

fun mkdir_path_scan :: "u8 list \<Rightarrow> u8 list \<Rightarrow> inode list \<Rightarrow> nat list \<Rightarrow> nat option
    \<Rightarrow> nat option option" where
  "mkdir_path_scan name blk tab [] slot = Some slot"
| "mkdir_path_scan name blk tab (i # is) slot =
     (if de_used blk i then
        if str_equals (de_name blk i) name \<and> de_inode blk i < FS_MAX_INODES \<and>
           used (tab ! de_inode blk i) \<noteq> 0 \<and> itype (tab ! de_inode blk i) = INODE_DIR
        then None
        else mkdir_path_scan name blk tab is slot
      else mkdir_path_scan name blk tab is (if slot = None then Some i else slot))"

text \<open>
  The loop of \<^verbatim>\<open>fs_write\<close> and \<^verbatim>\<open>fs_write_path\<close>: it stops at the file of this name.
  \<open>None\<close> where it returns false, else the inode found, if any, and the first free slot before it.
\<close>

fun write_scan :: "u8 list \<Rightarrow> u8 list \<Rightarrow> inode list \<Rightarrow> nat list \<Rightarrow> nat option
    \<Rightarrow> (nat option \<times> nat option) option" where
  "write_scan name blk tab [] slot = Some (None, slot)"
| "write_scan name blk tab (i # is) slot =
     (if de_used blk i then
        if str_equals (de_name blk i) name then
          if FS_MAX_INODES \<le> de_inode blk i then None
          else if used (tab ! de_inode blk i) \<noteq> 0 \<and> itype (tab ! de_inode blk i) = INODE_FILE
          then Some (Some (de_inode blk i), slot)
          else write_scan name blk tab is slot
        else write_scan name blk tab is slot
      else write_scan name blk tab is (if slot = None then Some i else slot))"

text \<open>The loop of \<^verbatim>\<open>fs_copy_path\<close> over the target directory, which never gives up.\<close>

fun copy_scan :: "u8 list \<Rightarrow> u8 list \<Rightarrow> inode list \<Rightarrow> nat list \<Rightarrow> nat option
    \<Rightarrow> nat option \<times> nat option" where
  "copy_scan name blk tab [] slot = (None, slot)"
| "copy_scan name blk tab (i # is) slot =
     (if de_used blk i then
        if str_equals (de_name blk i) name \<and> de_inode blk i < FS_MAX_INODES \<and>
           used (tab ! de_inode blk i) \<noteq> 0 \<and> itype (tab ! de_inode blk i) = INODE_FILE
        then (Some (de_inode blk i), slot)
        else copy_scan name blk tab is slot
      else copy_scan name blk tab is (if slot = None then Some i else slot))"

text \<open>
  The search of \<^verbatim>\<open>remove_entry_from_dir\<close> and, for each type, of its recursive variant:
  \<open>None\<close> where it returns false, \<open>Some None\<close> where no entry matches.
\<close>

fun remove_scan :: "u8 list \<Rightarrow> u8 list \<Rightarrow> inode list \<Rightarrow> u8 \<Rightarrow> nat list \<Rightarrow> nat option option" where
  "remove_scan name blk tab ty [] = Some None"
| "remove_scan name blk tab ty (i # is) =
     (if de_used blk i \<and> str_equals (de_name blk i) name then
        if de_inode blk i = 0 \<or> FS_MAX_INODES \<le> de_inode blk i then None
        else if used (tab ! de_inode blk i) \<noteq> 0 \<and> itype (tab ! de_inode blk i) = ty then Some (Some i)
        else remove_scan name blk tab ty is
      else remove_scan name blk tab ty is)"

text \<open>The entries \<^verbatim>\<open>ls\<close> copies out: the first \<open>room\<close> used ones.\<close>

fun list_entries :: "u8 list \<Rightarrow> nat \<Rightarrow> nat list \<Rightarrow> u8 list list" where
  "list_entries blk room [] = []"
| "list_entries blk room (i # is) =
     (if room = 0 then []
      else if de_used blk i then de_bytes blk i # list_entries blk (room - 1) is
      else list_entries blk room is)"

section \<open>Paths\<close>

text \<open>The index of the first slash, or of the terminator.\<close>

definition path_sep :: "u8 list \<Rightarrow> nat" where
  "path_sep p = length (takeWhile (\<lambda>c. c \<noteq> 0 \<and> c \<noteq> 47) p)"

text \<open>The 30-byte buffer the directory part is copied to, cut off at 29 bytes.\<close>

definition path_dir :: "u8 list \<Rightarrow> u8 list" where
  "path_dir p = take (min (path_sep p) 29) p"

definition path_rest :: "u8 list \<Rightarrow> u8 list" where
  "path_rest p = drop (path_sep p + 1) p"

definition has_sep :: "u8 list \<Rightarrow> bool" where
  "has_sep p \<longleftrightarrow> byte_at p (path_sep p) = 47"

definition is_empty :: "u8 list \<Rightarrow> bool" where
  "is_empty s \<longleftrightarrow> byte_at s 0 = 0"

section \<open>Laws\<close>

lemma de_inode_lt: "de_inode blk i < 256"
  using unsigned_less [of "byte_at blk (32 * i + 1)"] by (simp add: de_inode_def)

lemma length_de_clear [simp]: "length (de_clear blk i) = length blk"
  by (simp add: de_clear_def)

lemma length_de_put [simp]: "length (de_put blk i ino name) = length blk"
  by (simp add: de_put_def)

lemma length_de_rename [simp]: "length (de_rename blk i name) = length blk"
  by (simp add: de_rename_def)

lemma find_eq_Some: "List.find P xs = Some x \<Longrightarrow> P x \<and> x \<in> set xs"
  by (induction xs) (auto split: if_splits)

lemma find_dir_entry_Some:
  "find_dir_entry name blk tab ty = Some i \<Longrightarrow> i < 16 \<and> entry_matches name blk tab ty i"
  unfolding find_dir_entry_def by (drule find_eq_Some) simp

lemma find_dir_entry_inode:
  "find_dir_entry name blk tab ty = Some i \<Longrightarrow>
   de_inode blk i < 64 \<and> used (tab ! de_inode blk i) \<noteq> 0 \<and>
   (ty \<noteq> 0 \<longrightarrow> itype (tab ! de_inode blk i) = ty)"
  by (auto dest!: find_dir_entry_Some simp: entry_matches_def)

lemma find_dir_entry_None:
  "find_dir_entry name blk tab ty = None \<longleftrightarrow> (\<forall>i < 16. \<not> entry_matches name blk tab ty i)"
  by (auto simp: find_dir_entry_def find_None_iff)

lemma write_scan_found:
  "write_scan name blk tab is slot = Some (Some ino, fs) \<Longrightarrow>
   ino < 64 \<and> used (tab ! ino) \<noteq> 0 \<and> itype (tab ! ino) = INODE_FILE"
  by (induction name blk tab "is" slot rule: write_scan.induct) (auto split: if_splits)

lemma copy_scan_found:
  "copy_scan name blk tab is slot = (Some ino, fs) \<Longrightarrow>
   ino < 64 \<and> used (tab ! ino) \<noteq> 0 \<and> itype (tab ! ino) = INODE_FILE"
  by (induction name blk tab "is" slot rule: copy_scan.induct) (auto split: if_splits)

lemma remove_scan_found:
  "remove_scan name blk tab ty is = Some (Some i) \<Longrightarrow>
   i \<in> set is \<and> 0 < de_inode blk i \<and> de_inode blk i < 64 \<and>
   used (tab ! de_inode blk i) \<noteq> 0 \<and> itype (tab ! de_inode blk i) = ty"
  by (induction name blk tab ty "is" rule: remove_scan.induct) (auto split: if_splits)

end
