(* ===== verification/FsCore.thy ===== *)
theory FsCore
  imports FsDir
begin

text \<open>
  The state of the file system of \<^verbatim>\<open>filesystem.cpp\<close> (its global variables and the disk) and
  the internal operations: block and inode allocation, the tables' write-back, directory blocks,
  the system directory \<^verbatim>\<open>sys\<close> with its status and password files, removal, and mounting and
  formatting.

  A function that returns \<^verbatim>\<open>bool\<close> returns a pair of the result and the state after the call;
  one whose true result carries data returns an option and the state. The static scratch buffers are
  local: every function fills them from disk before it reads them. \<open>g_sb_pad\<close> are the 480 bytes
  behind the 32-byte \<^verbatim>\<open>g_sb\<close> that the driver overwrites when a whole sector is read into it,
  and that are written to disk with it; which variables live there is the linker's choice, so
  the model keeps them apart.
\<close>

datatype fs_error = FS_ERR_NONE | FS_ERR_IO | FS_ERR_BAD_MAGIC

record 'd fs =
  g_sb :: superblock
  g_sb_pad :: "u8 list"
  g_bitmap :: "u8 list"
  g_inodes :: "inode list"
  g_mounted :: bool
  g_last_error :: fs_error
  disk :: 'd

abbreviation FS_MAGIC :: u32 where "FS_MAGIC \<equiv> 0x7A4F5346"
abbreviation FS_VERSION :: u32 where "FS_VERSION \<equiv> 1"
abbreviation FS_BLOCK_SIZE :: u32 where "FS_BLOCK_SIZE \<equiv> 512"
abbreviation FS_SUPER_LBA :: u32 where "FS_SUPER_LBA \<equiv> 128"
abbreviation FS_BITMAP_LBA :: u32 where "FS_BITMAP_LBA \<equiv> 129"
abbreviation FS_BITMAP_SECTORS :: u32 where "FS_BITMAP_SECTORS \<equiv> 8"
abbreviation FS_INODE_TABLE_LBA :: u32 where "FS_INODE_TABLE_LBA \<equiv> 137"
abbreviation FS_INODE_TABLE_SECTORS :: u32 where "FS_INODE_TABLE_SECTORS \<equiv> 8"
abbreviation FS_DATA_LBA :: u32 where "FS_DATA_LBA \<equiv> 145"
abbreviation max_blocks :: nat where "max_blocks \<equiv> 512 * 8 * 8"

section \<open>Disk access\<close>

definition disk_read_lba :: "'d disk_ops \<Rightarrow> u32 \<Rightarrow> u32 \<Rightarrow> 'd fs \<Rightarrow> bool \<times> u8 list \<times> 'd fs" where
  "disk_read_lba io lba sectors s =
     (let (ok, bs, d) = read_sectors io (disk s) lba sectors in (ok, bs, s\<lparr>disk := d\<rparr>))"

definition disk_write_lba :: "'d disk_ops \<Rightarrow> u32 \<Rightarrow> u8 list \<Rightarrow> u32 \<Rightarrow> 'd fs \<Rightarrow> bool \<times> 'd fs" where
  "disk_write_lba io lba buf sectors s =
     (let (ok, d) = write_sectors io (disk s) lba buf sectors in (ok, s\<lparr>disk := d\<rparr>))"

section \<open>Inodes and blocks\<close>

definition direct0 :: "inode \<Rightarrow> u32" where
  "direct0 nd = direct nd ! 0"

definition inode_at :: "'d fs \<Rightarrow> nat \<Rightarrow> inode" where
  "inode_at s i = g_inodes s ! i"

definition set_inode :: "nat \<Rightarrow> inode \<Rightarrow> 'd fs \<Rightarrow> 'd fs" where
  "set_inode i nd s = s\<lparr>g_inodes := (g_inodes s)[i := nd]\<rparr>"

text \<open>The field assignments that set up a new inode (\<^verbatim>\<open>fs_write\<close> leaves the size to later).\<close>

definition fill_inode :: "u8 \<Rightarrow> nat \<Rightarrow> inode \<Rightarrow> inode" where
  "fill_inode ty blk nd =
     nd\<lparr>used := 1, itype := ty, links := 1, direct := (direct nd)[0 := of_nat blk]\<rparr>"

definition mark_block_used :: "nat \<Rightarrow> 'd fs \<Rightarrow> 'd fs" where
  "mark_block_used index s = s\<lparr>g_bitmap := bm_mark (g_bitmap s) index\<rparr>"

definition mark_block_free :: "nat \<Rightarrow> 'd fs \<Rightarrow> 'd fs" where
  "mark_block_free index s = s\<lparr>g_bitmap := bm_free (g_bitmap s) index\<rparr>"

definition flush_bitmap :: "'d disk_ops \<Rightarrow> 'd fs \<Rightarrow> bool \<times> 'd fs" where
  "flush_bitmap io s = disk_write_lba io (bitmap_lba (g_sb s)) (g_bitmap s) FS_BITMAP_SECTORS s"

definition flush_inodes :: "'d disk_ops \<Rightarrow> 'd fs \<Rightarrow> bool \<times> 'd fs" where
  "flush_inodes io s =
     disk_write_lba io (inode_table_lba (g_sb s)) (inodes_bytes (g_inodes s)) FS_INODE_TABLE_SECTORS s"

text \<open>\<^verbatim>\<open>return flush_bitmap() && flush_inodes();\<close>\<close>

definition flush :: "'d disk_ops \<Rightarrow> 'd fs \<Rightarrow> bool \<times> 'd fs" where
  "flush io s = (let (ok, s) = flush_bitmap io s in if \<not> ok then (False, s) else flush_inodes io s)"

definition inode_limit :: "'d fs \<Rightarrow> nat" where
  "inode_limit s =
     (let limit = unat (inode_count (g_sb s))
      in if limit = 0 \<or> FS_MAX_INODES < limit then FS_MAX_INODES else limit)"

definition alloc_inode_raw :: "'d fs \<Rightarrow> nat option" where
  "alloc_inode_raw s = List.find (\<lambda>i. used (inode_at s i) = 0) [1..<inode_limit s]"

definition block_limit :: "'d fs \<Rightarrow> nat" where
  "block_limit s =
     (let limit = unat (block_count (g_sb s))
      in if limit = 0 \<or> max_blocks < limit then max_blocks else limit)"

definition alloc_block_raw :: "'d fs \<Rightarrow> nat option" where
  "alloc_block_raw s = List.find (\<lambda>i. \<not> bm_used (g_bitmap s) i) [1..<block_limit s]"

definition find_free_inode :: "'d fs \<Rightarrow> nat option" where
  "find_free_inode s =
     (if \<not> g_mounted s then None
      else List.find (\<lambda>i. used (inode_at s i) = 0) [1..<inode_limit s])"

definition find_free_block :: "'d fs \<Rightarrow> nat option" where
  "find_free_block s =
     (if \<not> g_mounted s then None
      else List.find (\<lambda>i. \<not> bm_used (g_bitmap s) i) [1..<block_limit s])"

lemma direct0_isize [simp]: "direct0 (nd\<lparr>isize := n\<rparr>) = direct0 nd"
  by (simp add: direct0_def)

lemma inode_shape_isize [simp]: "inode_shape (nd\<lparr>isize := n\<rparr>) = inode_shape nd"
  by (simp add: inode_shape_def)

lemma direct0_zero [simp]: "direct0 zero_inode = 0"
  by (simp add: direct0_def zero_inode_def)

lemma zero_inode_fields [simp]: "used zero_inode = 0" "itype zero_inode = 0"
  by (simp_all add: zero_inode_def)

section \<open>Directory blocks\<close>

text \<open>The block of an inode: \<^verbatim>\<open>g_sb.data_lba + inode.direct[0]\<close>.\<close>

definition block_lba :: "'d fs \<Rightarrow> nat \<Rightarrow> u32" where
  "block_lba s i = data_lba (g_sb s) + direct0 (inode_at s i)"

definition read_root_dir_block :: "'d disk_ops \<Rightarrow> 'd fs \<Rightarrow> bool \<times> u8 list \<times> 'd fs" where
  "read_root_dir_block io s =
     (let root = inode_at s 0 in
      if used root = 0 \<or> itype root \<noteq> INODE_DIR \<or> direct0 root = 0 then (False, [], s)
      else disk_read_lba io (block_lba s 0) 1 s)"

definition load_dir_block :: "'d disk_ops \<Rightarrow> nat \<Rightarrow> 'd fs \<Rightarrow> bool \<times> u8 list \<times> 'd fs" where
  "load_dir_block io i s =
     (if FS_MAX_INODES \<le> i then (False, [], s)
      else let dir = inode_at s i in
      if used dir = 0 \<or> itype dir \<noteq> INODE_DIR \<or> direct0 dir = 0 then (False, [], s)
      else disk_read_lba io (block_lba s i) 1 s)"

definition write_dir_block :: "'d disk_ops \<Rightarrow> nat \<Rightarrow> u8 list \<Rightarrow> 'd fs \<Rightarrow> bool \<times> 'd fs" where
  "write_dir_block io i blk s =
     (if FS_MAX_INODES \<le> i then (False, s)
      else let dir = inode_at s i in
      if used dir = 0 \<or> itype dir \<noteq> INODE_DIR \<or> direct0 dir = 0 then (False, s)
      else disk_write_lba io (block_lba s i) blk 1 s)"

abbreviation zero_block :: "u8 list" where "zero_block \<equiv> replicate 512 0"

definition ensure_root_dir_block :: "'d disk_ops \<Rightarrow> 'd fs \<Rightarrow> bool \<times> 'd fs" where
  "ensure_root_dir_block io s =
     (if direct0 (inode_at s 0) \<noteq> 0 then (True, s)
      else case List.find (\<lambda>i. \<not> bm_used (g_bitmap s) i) [1..<block_limit s] of
        None \<Rightarrow> (False, s)
      | Some block \<Rightarrow>
          let s = mark_block_used block s;
              s = set_inode 0 ((inode_at s 0)\<lparr>direct := (direct (inode_at s 0))[0 := of_nat block]\<rparr>) s;
              (ok, s) = disk_write_lba io (block_lba s 0) zero_block 1 s
          in if \<not> ok then (False, s) else flush io s)"

end
