(* ===== verification/FsSys.thy ===== *)
theory FsSys
  imports FsCore
begin

text \<open>
  Mounting and formatting, and the two files of the system directory \<^verbatim>\<open>sys\<close>: the status flag
  \<^verbatim>\<open>status\<close> that marks a finished format and the password hash \<^verbatim>\<open>passwd\<close>.
  \<^verbatim>\<open>write_sys_file\<close> is split at its three stages: the system directory, the file's inode, the
  write-back.
\<close>

definition sys_name :: "u8 list" where "sys_name = [115, 121, 115]"
definition status_name :: "u8 list" where "status_name = [115, 116, 97, 116, 117, 115]"
definition passwd_name :: "u8 list" where "passwd_name = [112, 97, 115, 115, 119, 100]"

text \<open>\<^verbatim>\<open>"password123"\<close>\<close>

definition default_password :: "u8 list" where
  "default_password = [112, 97, 115, 115, 119, 111, 114, 100, 49, 50, 51]"

section \<open>System files\<close>

definition sys_dir_for_write :: "'d disk_ops \<Rightarrow> u8 list \<Rightarrow> 'd fs \<Rightarrow> (nat \<times> u8 list) option \<times> 'd fs" where
  "sys_dir_for_write io blk s =
     (case find_dir_entry sys_name blk (g_inodes s) INODE_DIR of
        None \<Rightarrow>
          (case alloc_inode_raw s of None \<Rightarrow> (None, s) | Some ino \<Rightarrow>
           case alloc_block_raw s of None \<Rightarrow> (None, s) | Some b \<Rightarrow>
             let s = mark_block_used b s;
                 s = set_inode ino ((fill_inode INODE_DIR b (inode_at s ino))\<lparr>isize := 0\<rparr>) s
             in case find_free_slot blk of None \<Rightarrow> (None, s) | Some slot \<Rightarrow>
               let blk = de_put blk slot ino sys_name;
                   (ok, s) = disk_write_lba io (block_lba s ino) zero_block 1 s
               in if \<not> ok then (None, s) else (Some (ino, blk), s))
      | Some e \<Rightarrow>
          let ino = de_inode blk e in
          if FS_MAX_INODES \<le> ino then (None, s)
          else if itype (inode_at s ino) \<noteq> INODE_DIR \<or> direct0 (inode_at s ino) = 0 then (None, s)
          else (Some (ino, blk), s))"

definition sys_file_for_write :: "u8 list \<Rightarrow> u32 \<Rightarrow> u8 list \<Rightarrow> 'd fs \<Rightarrow> (nat \<times> u8 list) option \<times> 'd fs" where
  "sys_file_for_write filename len blk s =
     (case find_dir_entry filename blk (g_inodes s) INODE_FILE of
        None \<Rightarrow>
          (case alloc_inode_raw s of None \<Rightarrow> (None, s) | Some ino \<Rightarrow>
           case alloc_block_raw s of None \<Rightarrow> (None, s) | Some b \<Rightarrow>
             let s = mark_block_used b s;
                 s = set_inode ino ((fill_inode INODE_FILE b (inode_at s ino))\<lparr>isize := len\<rparr>) s
             in case find_free_slot blk of None \<Rightarrow> (None, s) | Some slot \<Rightarrow>
               (Some (ino, de_put blk slot ino filename), s))
      | Some e \<Rightarrow>
          let ino = de_inode blk e in
          if FS_MAX_INODES \<le> ino then (None, s)
          else (Some (ino, blk), set_inode ino ((inode_at s ino)\<lparr>isize := len\<rparr>) s))"

definition write_sys_file :: "'d disk_ops \<Rightarrow> u8 list \<Rightarrow> u8 list \<Rightarrow> u32 \<Rightarrow> 'd fs \<Rightarrow> bool \<times> 'd fs" where
  "write_sys_file io filename data len s =
     (let (ok, s) = ensure_root_dir_block io s in if \<not> ok then (False, s) else
      let (ok, root_blk, s) = read_root_dir_block io s in if \<not> ok then (False, s) else
      let (r, s) = sys_dir_for_write io root_blk s in
      case r of None \<Rightarrow> (False, s) | Some (sys_inode, root_blk) \<Rightarrow>
      let (ok, s) = disk_write_lba io (block_lba s 0) root_blk 1 s in if \<not> ok then (False, s) else
      let (ok, sys_blk, s) = disk_read_lba io (block_lba s sys_inode) 1 s in if \<not> ok then (False, s) else
      let (r, s) = sys_file_for_write filename len sys_blk s in
      case r of None \<Rightarrow> (False, s) | Some (file_inode, sys_blk) \<Rightarrow>
      let (ok, s) = disk_write_lba io (block_lba s sys_inode) sys_blk 1 s in if \<not> ok then (False, s) else
      let write_len = (if unat len < 512 then unat len else 512);
          blk = mem_copy zero_block 0 data write_len;
          (ok, s) = disk_write_lba io (block_lba s file_inode) blk 1 s in if \<not> ok then (False, s) else
      flush io s)"

definition clip_len :: "u32 \<Rightarrow> u32 \<Rightarrow> nat" where
  "clip_len sz maxlen = (if maxlen < sz then unat maxlen else unat sz)"

definition read_sys_file :: "'d disk_ops \<Rightarrow> u8 list \<Rightarrow> u32 \<Rightarrow> 'd fs \<Rightarrow> u8 list option \<times> 'd fs" where
  "read_sys_file io filename maxlen s =
     (if \<not> g_mounted s then (None, s)
      else if used (inode_at s 0) = 0 \<or> direct0 (inode_at s 0) = 0 then (None, s) else
      let (ok, blk, s) = disk_read_lba io (block_lba s 0) 1 s in if \<not> ok then (None, s) else
      case find_dir_entry sys_name blk (g_inodes s) INODE_DIR of None \<Rightarrow> (None, s) | Some e \<Rightarrow>
      let sys_inode = de_inode blk e in
      if FS_MAX_INODES \<le> sys_inode then (None, s)
      else if itype (inode_at s sys_inode) \<noteq> INODE_DIR \<or> direct0 (inode_at s sys_inode) = 0 then (None, s) else
      let (ok, sys_blk, s) = disk_read_lba io (block_lba s sys_inode) 1 s in if \<not> ok then (None, s) else
      case find_dir_entry filename sys_blk (g_inodes s) INODE_FILE of None \<Rightarrow> (None, s) | Some e \<Rightarrow>
      let file_inode = de_inode sys_blk e in
      if FS_MAX_INODES \<le> file_inode then (None, s)
      else if direct0 (inode_at s file_inode) = 0 then (None, s) else
      let (ok, blk, s) = disk_read_lba io (block_lba s file_inode) 1 s in if \<not> ok then (None, s) else
      (Some (mem_get blk (clip_len (isize (inode_at s file_inode)) maxlen)), s))"

definition write_status_flag :: "'d disk_ops \<Rightarrow> u8 \<Rightarrow> 'd fs \<Rightarrow> bool \<times> 'd fs" where
  "write_status_flag io v s = write_sys_file io status_name [v] 1 s"

section \<open>The password file\<close>

definition hash_buf :: "u32 \<Rightarrow> u8 list" where
  "hash_buf hash = [ucast (hash AND 0xFF), ucast (drop_bit 8 hash AND 0xFF),
     ucast (drop_bit 16 hash AND 0xFF), ucast (drop_bit 24 hash AND 0xFF)]"

definition fs_hash_password :: "u8 list \<Rightarrow> u32" where
  "fs_hash_password s = fnv1a_32 s"

definition fs_write_passwd :: "'d disk_ops \<Rightarrow> u32 \<Rightarrow> 'd fs \<Rightarrow> bool \<times> 'd fs" where
  "fs_write_passwd io hash s = write_sys_file io passwd_name (hash_buf hash) 4 s"

definition fs_read_passwd :: "'d disk_ops \<Rightarrow> 'd fs \<Rightarrow> u32 option \<times> 'd fs" where
  "fs_read_passwd io s =
     (let (r, s) = read_sys_file io passwd_name 4 s in
      case r of None \<Rightarrow> (None, s)
      | Some buf \<Rightarrow>
          if length buf < 4 then (None, s)
          else (Some (ucast (buf ! 0) OR push_bit 8 (ucast (buf ! 1)) OR
                      push_bit 16 (ucast (buf ! 2)) OR push_bit 24 (ucast (buf ! 3))), s))"

section \<open>Mounting and formatting\<close>

definition fs_init :: "'d disk_ops \<Rightarrow> 'd fs \<Rightarrow> bool \<times> 'd fs" where
  "fs_init io s =
     (let (ok, bs, s) = disk_read_lba io FS_SUPER_LBA 1 s;
          old = sb_bytes (g_sb s) @ g_sb_pad s;
          new = bs @ drop (length bs) old;
          s = s\<lparr>g_sb := sb_of_bytes new, g_sb_pad := drop 32 new\<rparr>
      in if \<not> ok then (False, s\<lparr>g_last_error := FS_ERR_IO, g_mounted := False\<rparr>)
      else if magic (g_sb s) \<noteq> FS_MAGIC \<or> block_size (g_sb s) \<noteq> FS_BLOCK_SIZE
      then (False, s\<lparr>g_last_error := FS_ERR_BAD_MAGIC, g_mounted := False\<rparr>) else
      let (ok, bs, s) = disk_read_lba io (bitmap_lba (g_sb s)) FS_BITMAP_SECTORS s;
          s = s\<lparr>g_bitmap := bs @ drop (length bs) (g_bitmap s)\<rparr>
      in if \<not> ok then (False, s\<lparr>g_last_error := FS_ERR_IO, g_mounted := False\<rparr>) else
      let (ok, bs, s) = disk_read_lba io (inode_table_lba (g_sb s)) FS_INODE_TABLE_SECTORS s;
          old = inodes_bytes (g_inodes s);
          s = s\<lparr>g_inodes := inodes_of_bytes FS_MAX_INODES (bs @ drop (length bs) old)\<rparr>
      in if \<not> ok then (False, s\<lparr>g_last_error := FS_ERR_IO, g_mounted := False\<rparr>)
      else (True, s\<lparr>g_last_error := FS_ERR_NONE, g_mounted := True\<rparr>))"

text \<open>The number of blocks \<^verbatim>\<open>fs_format\<close> settles on; it asks the drive when given 0.\<close>

definition format_blocks :: "'d disk_ops \<Rightarrow> u32 \<Rightarrow> 'd fs \<Rightarrow> u32 \<times> 'd fs" where
  "format_blocks io total_blocks s =
     (if total_blocks = 0 then
        let (r, d) = get_sector_count io (disk s); s = s\<lparr>disk := d\<rparr> in
        case r of
          Some disk_sectors \<Rightarrow>
            if ucast FS_DATA_LBA < disk_sectors then
              let usable = disk_sectors - ucast FS_DATA_LBA
              in (if (of_nat max_blocks :: u64) < usable then of_nat max_blocks else ucast usable, s)
            else (of_nat max_blocks, s)
        | None \<Rightarrow> (of_nat max_blocks, s)
      else if of_nat max_blocks < total_blocks then (of_nat max_blocks, s)
      else (total_blocks, s))"

definition fs_format :: "'d disk_ops \<Rightarrow> u32 \<Rightarrow> u32 \<Rightarrow> 'd fs \<Rightarrow> bool \<times> 'd fs" where
  "fs_format io total_blocks inodes s =
     (let inodes = (if of_nat FS_MAX_INODES < inodes then of_nat FS_MAX_INODES else inodes);
          (blocks, s) = format_blocks io total_blocks s;
          s = s\<lparr>g_sb := \<lparr>magic = FS_MAGIC, version = FS_VERSION, block_size = FS_BLOCK_SIZE,
                  inode_count = inodes, block_count = blocks,
                  inode_table_lba = FS_INODE_TABLE_LBA, bitmap_lba = FS_BITMAP_LBA,
                  data_lba = FS_DATA_LBA\<rparr>\<rparr>;
          s = s\<lparr>g_bitmap := mem_set (g_bitmap s) 0 0 (512 * 8)\<rparr>;
          s = s\<lparr>g_inodes := replicate FS_MAX_INODES zero_inode\<rparr>;
          s = set_inode 0 (zero_inode\<lparr>used := 1, itype := INODE_DIR, links := 1\<rparr>) s;
          (ok, s) = ensure_root_dir_block io s in if \<not> ok then (False, s) else
      let (ok, s) = disk_write_lba io FS_SUPER_LBA (sb_bytes (g_sb s) @ g_sb_pad s) 1 s in
      if \<not> ok then (False, s) else
      let (ok, s) = flush_bitmap io s in if \<not> ok then (False, s) else
      let (ok, s) = flush_inodes io s in if \<not> ok then (False, s) else
      let (ok, s) = write_status_flag io 0xFF s in if \<not> ok then (False, s) else
      let (ok, s) = write_sys_file io passwd_name (hash_buf (fnv1a_32 default_password)) 4 s in
      if \<not> ok then (False, s)
      else (True, s\<lparr>g_last_error := FS_ERR_NONE, g_mounted := True\<rparr>))"

definition fs_is_formatted :: "'d disk_ops \<Rightarrow> 'd fs \<Rightarrow> bool \<times> 'd fs" where
  "fs_is_formatted io s =
     (let (ok, bs, s) = disk_read_lba io FS_SUPER_LBA 1 s in if \<not> ok then (False, s) else
      let sb = sb_of_bytes bs in
      if magic sb \<noteq> FS_MAGIC \<or> block_size sb \<noteq> FS_BLOCK_SIZE then (False, s) else
      let (ok, bs, s) = disk_read_lba io (inode_table_lba sb) FS_INODE_TABLE_SECTORS s in
      if \<not> ok then (False, s) else
      let tab = inodes_of_bytes FS_MAX_INODES bs; root = tab ! 0 in
      if used root = 0 \<or> itype root \<noteq> INODE_DIR \<or> direct0 root = 0 then (False, s)
      else if block_count sb \<le> direct0 root then (False, s) else
      let (ok, blk, s) = disk_read_lba io (data_lba sb + direct0 root) 1 s in if \<not> ok then (False, s) else
      case find_dir_entry sys_name blk tab INODE_DIR of None \<Rightarrow> (False, s) | Some e \<Rightarrow>
      if FS_MAX_INODES \<le> de_inode blk e then (False, s) else
      let sys_dir = tab ! de_inode blk e in
      if used sys_dir = 0 \<or> itype sys_dir \<noteq> INODE_DIR \<or> direct0 sys_dir = 0 then (False, s)
      else if block_count sb \<le> direct0 sys_dir then (False, s) else
      let (ok, blk, s) = disk_read_lba io (data_lba sb + direct0 sys_dir) 1 s in if \<not> ok then (False, s) else
      case find_dir_entry status_name blk tab INODE_FILE of None \<Rightarrow> (False, s) | Some e \<Rightarrow>
      if FS_MAX_INODES \<le> de_inode blk e then (False, s) else
      let status = tab ! de_inode blk e in
      if used status = 0 \<or> direct0 status = 0 then (False, s)
      else if block_count sb \<le> direct0 status then (False, s) else
      let (ok, blk, s) = disk_read_lba io (data_lba sb + direct0 status) 1 s in if \<not> ok then (False, s)
      else (byte_at blk 0 = 0xFF, s))"

definition fs_last_error :: "'d fs \<Rightarrow> fs_error" where
  "fs_last_error s = g_last_error s"

end
