(* ===== verification/FsOps.thy ===== *)
theory FsOps
  imports FsSys
begin

text \<open>
  The file-system calls of \<^verbatim>\<open>filesystem.h\<close>. A C string argument is an option: \<open>None\<close> is the
  null pointer. A call that fills a caller's buffer returns the bytes it stores there, \<open>None\<close> where
  the code returns false.
\<close>

section \<open>Finding directories and files\<close>

text \<open>
  The opening of every call on a path in a subdirectory: the root must have a block, is read, and
  its first live directory entry of this name is the directory.
\<close>

definition find_subdir :: "'d disk_ops \<Rightarrow> u8 list \<Rightarrow> 'd fs \<Rightarrow> nat option \<times> 'd fs" where
  "find_subdir io dirname s =
     (if used (inode_at s 0) = 0 \<or> direct0 (inode_at s 0) = 0 then (None, s) else
      let (ok, blk, s) = disk_read_lba io (block_lba s 0) 1 s in if \<not> ok then (None, s) else
      case find_dir_entry dirname blk (g_inodes s) INODE_DIR of None \<Rightarrow> (None, s) | Some e \<Rightarrow>
      if FS_MAX_INODES \<le> de_inode blk e then (None, s) else (Some (de_inode blk e), s))"

definition fs_list_root :: "'d disk_ops \<Rightarrow> u32 \<Rightarrow> 'd fs \<Rightarrow> u8 list list option \<times> 'd fs" where
  "fs_list_root io max_entries s =
     (if \<not> g_mounted s then (None, s)
      else if max_entries = 0 then (Some [], s)
      else if used (inode_at s 0) = 0 \<or> itype (inode_at s 0) \<noteq> INODE_DIR \<or> direct0 (inode_at s 0) = 0
      then (Some [], s) else
      let (ok, blk, s) = disk_read_lba io (block_lba s 0) 1 s in if \<not> ok then (None, s) else
      (Some (list_entries blk (unat max_entries) [0..<entry_count]), s))"

definition fs_list_dir :: "'d disk_ops \<Rightarrow> u8 list \<Rightarrow> u32 \<Rightarrow> 'd fs \<Rightarrow> u8 list list option \<times> 'd fs" where
  "fs_list_dir io dirname max_entries s =
     (if \<not> g_mounted s then (None, s)
      else if max_entries = 0 then (Some [], s) else
      let (r, s) = find_subdir io dirname s in case r of None \<Rightarrow> (None, s) | Some dir \<Rightarrow>
      if direct0 (inode_at s dir) = 0 then (None, s) else
      let (ok, blk, s) = disk_read_lba io (block_lba s dir) 1 s in if \<not> ok then (None, s) else
      (Some (list_entries blk (unat max_entries) [0..<entry_count]), s))"

definition fs_is_dir :: "'d disk_ops \<Rightarrow> u8 list option \<Rightarrow> 'd fs \<Rightarrow> bool \<times> 'd fs" where
  "fs_is_dir io path s =
     (case path of None \<Rightarrow> (False, s) | Some path \<Rightarrow>
      if \<not> g_mounted s \<or> is_empty path then (False, s)
      else if used (inode_at s 0) = 0 \<or> direct0 (inode_at s 0) = 0 then (False, s) else
      let (ok, blk, s) = disk_read_lba io (block_lba s 0) 1 s in if \<not> ok then (False, s)
      else if \<not> has_sep path
      then (find_dir_entry path blk (g_inodes s) INODE_DIR \<noteq> None, s)
      else if is_empty (path_rest path) then (False, s) else
      case find_dir_entry (path_dir path) blk (g_inodes s) INODE_DIR of None \<Rightarrow> (False, s) | Some e \<Rightarrow>
      let parent = de_inode blk e in
      if FS_MAX_INODES \<le> parent then (False, s)
      else if direct0 (inode_at s parent) = 0 then (False, s) else
      let (ok, blk, s) = disk_read_lba io (block_lba s parent) 1 s in if \<not> ok then (False, s) else
      (find_dir_entry (path_rest path) blk (g_inodes s) INODE_DIR \<noteq> None, s))"

definition fs_read :: "'d disk_ops \<Rightarrow> u8 list option \<Rightarrow> u32 \<Rightarrow> 'd fs \<Rightarrow> u8 list option \<times> 'd fs" where
  "fs_read io name maxlen s =
     (case name of None \<Rightarrow> (None, s) | Some name \<Rightarrow>
      if \<not> g_mounted s then (None, s)
      else if is_empty name then (None, s)
      else if used (inode_at s 0) = 0 \<or> direct0 (inode_at s 0) = 0 then (None, s) else
      let (ok, blk, s) = disk_read_lba io (block_lba s 0) 1 s in if \<not> ok then (None, s) else
      case find_dir_entry name blk (g_inodes s) INODE_FILE of None \<Rightarrow> (None, s) | Some e \<Rightarrow>
      let target = de_inode blk e in
      if direct0 (inode_at s target) = 0 then (None, s) else
      let (ok, blk, s) = disk_read_lba io (block_lba s target) 1 s in if \<not> ok then (None, s) else
      (Some (mem_get blk (clip_len (isize (inode_at s target)) maxlen)), s))"

definition fs_read_path :: "'d disk_ops \<Rightarrow> u8 list option \<Rightarrow> u32 \<Rightarrow> 'd fs \<Rightarrow> u8 list option \<times> 'd fs" where
  "fs_read_path io path maxlen s =
     (case path of None \<Rightarrow> (None, s) | Some path \<Rightarrow>
      if \<not> g_mounted s \<or> is_empty path then (None, s)
      else if \<not> has_sep path then fs_read io (Some path) maxlen s
      else if is_empty (path_rest path) then (None, s) else
      let (r, s) = find_subdir io (path_dir path) s in case r of None \<Rightarrow> (None, s) | Some dir \<Rightarrow>
      if direct0 (inode_at s dir) = 0 then (None, s) else
      let (ok, blk, s) = disk_read_lba io (block_lba s dir) 1 s in if \<not> ok then (None, s) else
      case find_dir_entry (path_rest path) blk (g_inodes s) INODE_FILE of None \<Rightarrow> (None, s) | Some e \<Rightarrow>
      let file_inode = de_inode blk e in
      if direct0 (inode_at s file_inode) = 0 then (None, s) else
      let (ok, blk, s) = disk_read_lba io (block_lba s file_inode) 1 s in if \<not> ok then (None, s) else
      (Some (mem_get blk (clip_len (isize (inode_at s file_inode)) maxlen)), s))"

section \<open>Creating\<close>

definition fs_mkdir :: "'d disk_ops \<Rightarrow> u8 list option \<Rightarrow> 'd fs \<Rightarrow> bool \<times> 'd fs" where
  "fs_mkdir io name s =
     (case name of None \<Rightarrow> (False, s) | Some name \<Rightarrow>
      if \<not> g_mounted s then (False, s)
      else if is_empty name then (False, s)
      else if 30 \<le> str_len name then (False, s) else
      let (ok, s) = ensure_root_dir_block io s in if \<not> ok then (False, s) else
      case find_free_inode s of None \<Rightarrow> (False, s) | Some ino \<Rightarrow>
      case find_free_block s of None \<Rightarrow> (False, s) | Some block \<Rightarrow>
      let (ok, dir_block, s) = disk_read_lba io (block_lba s 0) 1 s in if \<not> ok then (False, s) else
      case new_entry_scan name dir_block (g_inodes s) INODE_DIR [0..<entry_count] None of
        None \<Rightarrow> (False, s) | Some None \<Rightarrow> (False, s) | Some (Some slot) \<Rightarrow>
      let s = mark_block_used block s;
          s = set_inode ino ((fill_inode INODE_DIR block (inode_at s ino))\<lparr>isize := 0\<rparr>) s;
          (ok, s) = disk_write_lba io (data_lba (g_sb s) + of_nat block) zero_block 1 s in
      if \<not> ok then (False, s) else
      let (ok, s) = disk_write_lba io (block_lba s 0) (de_put dir_block slot ino name) 1 s in
      if \<not> ok then (False, s) else flush io s)"

definition fs_create :: "'d disk_ops \<Rightarrow> u8 list option \<Rightarrow> 'd fs \<Rightarrow> bool \<times> 'd fs" where
  "fs_create io name s =
     (case name of None \<Rightarrow> (False, s) | Some name \<Rightarrow>
      if \<not> g_mounted s then (False, s)
      else if is_empty name then (False, s)
      else if 30 \<le> str_len name then (False, s) else
      let (ok, s) = ensure_root_dir_block io s in if \<not> ok then (False, s) else
      case find_free_inode s of None \<Rightarrow> (False, s) | Some ino \<Rightarrow>
      case find_free_block s of None \<Rightarrow> (False, s) | Some block \<Rightarrow>
      let (ok, dir_block, s) = disk_read_lba io (block_lba s 0) 1 s in if \<not> ok then (False, s) else
      case new_entry_scan name dir_block (g_inodes s) INODE_FILE [0..<entry_count] None of
        None \<Rightarrow> (False, s) | Some None \<Rightarrow> (False, s) | Some (Some slot) \<Rightarrow>
      let s = mark_block_used block s;
          s = set_inode ino ((fill_inode INODE_FILE block (inode_at s ino))\<lparr>isize := 0\<rparr>) s;
          (ok, s) = disk_write_lba io (block_lba s 0) (de_put dir_block slot ino name) 1 s in
      if \<not> ok then (False, s) else flush io s)"

definition fs_mkdir_path :: "'d disk_ops \<Rightarrow> u8 list option \<Rightarrow> 'd fs \<Rightarrow> bool \<times> 'd fs" where
  "fs_mkdir_path io path s =
     (case path of None \<Rightarrow> (False, s) | Some path \<Rightarrow>
      if \<not> g_mounted s \<or> is_empty path then (False, s)
      else if \<not> has_sep path then fs_mkdir io (Some path) s else
      let newdir = path_rest path in
      if is_empty newdir then (False, s)
      else if has_sep newdir then (False, s)
      else if 30 \<le> str_len newdir then (False, s) else
      let (ok, s) = ensure_root_dir_block io s in if \<not> ok then (False, s) else
      let (ok, blk, s) = disk_read_lba io (block_lba s 0) 1 s in if \<not> ok then (False, s) else
      case find_dir_entry (path_dir path) blk (g_inodes s) INODE_DIR of None \<Rightarrow> (False, s) | Some e \<Rightarrow>
      let parent = de_inode blk e in
      if FS_MAX_INODES \<le> parent then (False, s)
      else if direct0 (inode_at s parent) = 0 then (False, s) else
      let (ok, blk, s) = disk_read_lba io (block_lba s parent) 1 s in if \<not> ok then (False, s) else
      case mkdir_path_scan newdir blk (g_inodes s) [0..<entry_count] None of
        None \<Rightarrow> (False, s) | Some None \<Rightarrow> (False, s) | Some (Some slot) \<Rightarrow>
      case alloc_inode_raw s of None \<Rightarrow> (False, s) | Some ino \<Rightarrow>
      case alloc_block_raw s of None \<Rightarrow> (False, s) | Some block \<Rightarrow>
      let s = mark_block_used block s;
          s = set_inode ino ((fill_inode INODE_DIR block (inode_at s ino))\<lparr>isize := 0\<rparr>) s;
          (ok, s) = disk_write_lba io (data_lba (g_sb s) + of_nat block) zero_block 1 s in
      if \<not> ok then (False, s) else
      let (ok, s) = disk_write_lba io (block_lba s parent) (de_put blk slot ino newdir) 1 s in
      if \<not> ok then (False, s) else flush io s)"

section \<open>Writing\<close>

definition data_len :: "u8 list option \<Rightarrow> nat" where
  "data_len data = (case data of None \<Rightarrow> 0 | Some d \<Rightarrow> if 512 < str_len d then 512 else str_len d)"

text \<open>
  The middle of both write calls: \<open>blk\<close> is the block of the directory, \<open>found\<close> and \<open>free\<close> what
  the scan of it found. A missing file gets an inode, a block and the free slot.
\<close>

definition claim_file :: "u8 list \<Rightarrow> u8 list \<Rightarrow> nat option \<Rightarrow> nat option \<Rightarrow> 'd fs
    \<Rightarrow> (nat \<times> u8 list) option \<times> 'd fs" where
  "claim_file blk name found free s =
     (case found of Some target \<Rightarrow> (Some (target, blk), s) | None \<Rightarrow>
      case free of None \<Rightarrow> (None, s) | Some slot \<Rightarrow>
      case find_free_inode s of None \<Rightarrow> (None, s) | Some ino \<Rightarrow>
      case find_free_block s of None \<Rightarrow> (None, s) | Some block \<Rightarrow>
        let s = mark_block_used block s;
            s = set_inode ino (fill_inode INODE_FILE block (inode_at s ino)) s
        in (Some (ino, de_put blk slot ino name), s))"

text \<open>The end of both: the size is set; directory, data and tables are written back.\<close>

definition write_file :: "'d disk_ops \<Rightarrow> nat \<Rightarrow> u8 list \<Rightarrow> nat \<Rightarrow> u8 list option \<Rightarrow> 'd fs \<Rightarrow> bool \<times> 'd fs" where
  "write_file io dir blk target data s =
     (let len = data_len data;
          s = set_inode target ((inode_at s target)\<lparr>isize := of_nat len\<rparr>) s;
          (ok, s) = disk_write_lba io (block_lba s dir) blk 1 s in if \<not> ok then (False, s) else
      let file_block = mem_copy zero_block 0 (case data of None \<Rightarrow> [] | Some d \<Rightarrow> d) len;
          (ok, s) = disk_write_lba io (block_lba s target) file_block 1 s in if \<not> ok then (False, s) else
      flush io s)"

definition fs_write :: "'d disk_ops \<Rightarrow> u8 list option \<Rightarrow> u8 list option \<Rightarrow> 'd fs \<Rightarrow> bool \<times> 'd fs" where
  "fs_write io name data s =
     (case name of None \<Rightarrow> (False, s) | Some name \<Rightarrow>
      if \<not> g_mounted s then (False, s)
      else if is_empty name then (False, s)
      else if 30 \<le> str_len name then (False, s) else
      let (ok, s) = ensure_root_dir_block io s in if \<not> ok then (False, s) else
      let (ok, blk, s) = disk_read_lba io (block_lba s 0) 1 s in if \<not> ok then (False, s) else
      case write_scan name blk (g_inodes s) [0..<entry_count] None of
        None \<Rightarrow> (False, s) | Some (found, free) \<Rightarrow>
      let (r, s) = claim_file blk name found free s in
      case r of None \<Rightarrow> (False, s) | Some (target, blk) \<Rightarrow> write_file io 0 blk target data s)"

definition fs_write_path :: "'d disk_ops \<Rightarrow> u8 list option \<Rightarrow> u8 list option \<Rightarrow> 'd fs \<Rightarrow> bool \<times> 'd fs" where
  "fs_write_path io path data s =
     (case path of None \<Rightarrow> (False, s) | Some path \<Rightarrow>
      if \<not> g_mounted s \<or> is_empty path then (False, s)
      else if \<not> has_sep path then fs_write io (Some path) data s else
      let filename = path_rest path in
      if is_empty filename then (False, s) else
      let (r, s) = find_subdir io (path_dir path) s in case r of None \<Rightarrow> (False, s) | Some dir \<Rightarrow>
      if direct0 (inode_at s dir) = 0 then (False, s) else
      let (ok, blk, s) = disk_read_lba io (block_lba s dir) 1 s in if \<not> ok then (False, s) else
      case write_scan filename blk (g_inodes s) [0..<entry_count] None of
        None \<Rightarrow> (False, s) | Some (found, free) \<Rightarrow>
      let (r, s) = claim_file blk filename found free s in
      case r of None \<Rightarrow> (False, s) | Some (target, blk) \<Rightarrow> write_file io dir blk target data s)"

end
