(* ===== verification/FsTree.thy ===== *)
theory FsTree
  imports FsOps
begin

text \<open>
  The calls of \<^verbatim>\<open>filesystem.cpp\<close> that change the shape of the tree: copying, renaming and
  moving, removing (plain and recursive), and the figures on disk usage.

  \<^verbatim>\<open>remove_dir_contents\<close> calls itself on subdirectories, and the disk may hold a directory
  that contains itself; the model takes the depth of the recursion as fuel and returns \<open>None\<close>
  when it runs out.
\<close>

section \<open>Copying\<close>

definition copy_source :: "'d disk_ops \<Rightarrow> u8 list \<Rightarrow> 'd fs \<Rightarrow> nat option \<times> 'd fs" where
  "copy_source io src s =
     (if used (inode_at s 0) = 0 \<or> direct0 (inode_at s 0) = 0 then (None, s) else
      let (ok, blk, s) = disk_read_lba io (block_lba s 0) 1 s in if \<not> ok then (None, s)
      else if \<not> has_sep src then
        (case find_dir_entry src blk (g_inodes s) INODE_FILE of
           None \<Rightarrow> (None, s) | Some e \<Rightarrow> (Some (de_inode blk e), s))
      else if is_empty (path_rest src) then (None, s) else
      case find_dir_entry (path_dir src) blk (g_inodes s) INODE_DIR of None \<Rightarrow> (None, s) | Some e \<Rightarrow>
      let dir = de_inode blk e in
      if FS_MAX_INODES \<le> dir then (None, s)
      else if direct0 (inode_at s dir) = 0 then (None, s) else
      let (ok, blk, s) = disk_read_lba io (block_lba s dir) 1 s in if \<not> ok then (None, s) else
      case find_dir_entry (path_rest src) blk (g_inodes s) INODE_FILE of None \<Rightarrow> (None, s) | Some e \<Rightarrow>
      (Some (de_inode blk e), s))"

definition base_name :: "u8 list \<Rightarrow> u8 list" where
  "base_name p = (if has_sep p then path_rest p else p)"

definition copy_target :: "'d disk_ops \<Rightarrow> u8 list \<Rightarrow> u8 list \<Rightarrow> 'd fs \<Rightarrow> (nat \<times> u8 list) option \<times> 'd fs" where
  "copy_target io src dst s =
     (if has_sep dst then
        if is_empty (path_rest dst) then (None, s) else
        let (ok, blk, s) = disk_read_lba io (block_lba s 0) 1 s in if \<not> ok then (None, s) else
        case find_dir_entry (path_dir dst) blk (g_inodes s) INODE_DIR of None \<Rightarrow> (None, s) | Some e \<Rightarrow>
        if FS_MAX_INODES \<le> de_inode blk e then (None, s)
        else (Some (de_inode blk e, path_rest dst), s)
      else
        let (ok, blk, s) = disk_read_lba io (block_lba s 0) 1 s in if \<not> ok then (None, s) else
        case find_dir_entry dst blk (g_inodes s) INODE_DIR of
          Some e \<Rightarrow> (Some (de_inode blk e, base_name src), s)
        | None \<Rightarrow> (Some (0, dst), s))"

definition claim_copy :: "u8 list \<Rightarrow> u8 list \<Rightarrow> u32 \<Rightarrow> nat option \<Rightarrow> nat option \<Rightarrow> 'd fs
    \<Rightarrow> (nat \<times> u8 list) option \<times> 'd fs" where
  "claim_copy blk name file_size found free s =
     (case found of
        Some target \<Rightarrow> (Some (target, blk), set_inode target ((inode_at s target)\<lparr>isize := file_size\<rparr>) s)
      | None \<Rightarrow>
      case free of None \<Rightarrow> (None, s) | Some slot \<Rightarrow>
      case alloc_inode_raw s of None \<Rightarrow> (None, s) | Some ino \<Rightarrow>
      case alloc_block_raw s of None \<Rightarrow> (None, s) | Some block \<Rightarrow>
        let s = mark_block_used block s;
            s = set_inode ino ((fill_inode INODE_FILE block (inode_at s ino))\<lparr>isize := file_size\<rparr>) s
        in (Some (ino, de_put blk slot ino name), s))"

definition fs_copy_path :: "'d disk_ops \<Rightarrow> u8 list option \<Rightarrow> u8 list option \<Rightarrow> 'd fs \<Rightarrow> bool \<times> 'd fs" where
  "fs_copy_path io src dst s =
     (case src of None \<Rightarrow> (False, s) | Some src \<Rightarrow>
      case dst of None \<Rightarrow> (False, s) | Some dst \<Rightarrow>
        if \<not> g_mounted s then (False, s)
        else if is_empty src \<or> is_empty dst then (False, s) else
        let (r, s) = copy_source io src s in case r of None \<Rightarrow> (False, s) | Some src_inode \<Rightarrow>
        if FS_MAX_INODES \<le> src_inode then (False, s)
        else if direct0 (inode_at s src_inode) = 0 then (False, s) else
        let (ok, file_data, s) = disk_read_lba io (block_lba s src_inode) 1 s in if \<not> ok then (False, s) else
        let file_size = isize (inode_at s src_inode);
            (ok, s) = ensure_root_dir_block io s in if \<not> ok then (False, s) else
        let (r, s) = copy_target io src dst s in case r of None \<Rightarrow> (False, s) | Some (dir, name) \<Rightarrow>
        if str_len name = 0 \<or> 30 \<le> str_len name then (False, s)
        else if used (inode_at s dir) = 0 \<or> direct0 (inode_at s dir) = 0 then (False, s) else
        let (ok, blk, s) = disk_read_lba io (block_lba s dir) 1 s in if \<not> ok then (False, s) else
        let (found, free) = copy_scan name blk (g_inodes s) [0..<entry_count] None;
            (r, s) = claim_copy blk name file_size found free s in
        case r of None \<Rightarrow> (False, s) | Some (target, blk) \<Rightarrow>
        let (ok, s) = disk_write_lba io (block_lba s dir) blk 1 s in if \<not> ok then (False, s) else
        let (ok, s) = disk_write_lba io (block_lba s target) file_data 1 s in if \<not> ok then (False, s) else
        flush io s)"

section \<open>Renaming and moving\<close>

text \<open>The directory part of a path of \<^verbatim>\<open>fs_rename\<close>: its inode, looked up in the root.\<close>

definition rename_dir :: "'d disk_ops \<Rightarrow> u8 list \<Rightarrow> 'd fs \<Rightarrow> nat option \<times> 'd fs" where
  "rename_dir io dirname s =
     (let (ok, root_block, s) = load_dir_block io 0 s in if \<not> ok then (None, s) else
      case find_dir_entry dirname root_block (g_inodes s) INODE_DIR of
        None \<Rightarrow> (None, s) | Some e \<Rightarrow> (Some (de_inode root_block e), s))"

definition rename_source :: "'d disk_ops \<Rightarrow> u8 list \<Rightarrow> 'd fs \<Rightarrow> (nat \<times> u8 list) option \<times> 'd fs" where
  "rename_source io src s =
     (if has_sep src then
        if path_sep src = 0 then (None, s)
        else if is_empty (path_rest src) then (None, s) else
        let (r, s) = rename_dir io (path_dir src) s in
        case r of None \<Rightarrow> (None, s) | Some dir \<Rightarrow> (Some (dir, path_rest src), s)
      else (Some (0, src), s))"

text \<open>The target directory, the new name, and whether the target names a directory to move into.\<close>

definition rename_target :: "'d disk_ops \<Rightarrow> u8 list \<Rightarrow> u8 list \<Rightarrow> 'd fs
    \<Rightarrow> (nat \<times> u8 list \<times> bool) option \<times> 'd fs" where
  "rename_target io src_name dst s =
     (if has_sep dst then
        if path_sep dst = 0 then (None, s) else
        let (r, s) = rename_dir io (path_dir dst) s in
        case r of None \<Rightarrow> (None, s) | Some dir \<Rightarrow>
        if is_empty (path_rest dst) then (Some (dir, src_name, True), s)
        else (Some (dir, path_rest dst, False), s)
      else
        let (ok, root_block, s) = load_dir_block io 0 s in if \<not> ok then (None, s) else
        case find_dir_entry dst root_block (g_inodes s) INODE_DIR of
          Some e \<Rightarrow> (Some (de_inode root_block e, src_name, True), s)
        | None \<Rightarrow> (Some (0, dst, False), s))"

text \<open>The entry to rename and its type: a file of this name comes before a directory.\<close>

definition rename_entry :: "u8 list \<Rightarrow> u8 list \<Rightarrow> inode list \<Rightarrow> (nat \<times> u8) option" where
  "rename_entry name blk tab =
     (case find_dir_entry name blk tab INODE_FILE of
        Some e \<Rightarrow> Some (e, INODE_FILE)
      | None \<Rightarrow> map_option (\<lambda>e. (e, INODE_DIR)) (find_dir_entry name blk tab INODE_DIR))"

definition fs_rename :: "'d disk_ops \<Rightarrow> u8 list option \<Rightarrow> u8 list option \<Rightarrow> 'd fs \<Rightarrow> bool \<times> 'd fs" where
  "fs_rename io src dst s =
     (case src of None \<Rightarrow> (False, s) | Some src \<Rightarrow>
      case dst of None \<Rightarrow> (False, s) | Some dst \<Rightarrow>
        if \<not> g_mounted s then (False, s)
        else if is_empty src \<or> is_empty dst then (False, s) else
        let (r, s) = rename_source io src s in case r of None \<Rightarrow> (False, s) | Some (src_dir, src_name) \<Rightarrow>
        if 30 \<le> str_len src_name then (False, s) else
        let (ok, src_block, s) = load_dir_block io src_dir s in if \<not> ok then (False, s) else
        case rename_entry src_name src_block (g_inodes s) of
          None \<Rightarrow> (False, s) | Some (src_entry, src_type) \<Rightarrow>
        let src_inode = de_inode src_block src_entry in
        if FS_MAX_INODES \<le> src_inode then (False, s) else
        let (r, s) = rename_target io src_name dst s in
        case r of None \<Rightarrow> (False, s) | Some (dst_dir, dst_name, dst_is_dir) \<Rightarrow>
        if is_empty dst_name then (False, s)
        else if 30 \<le> str_len dst_name then (False, s)
        else if dst_is_dir \<and> src_type = INODE_DIR \<and> dst_dir = src_inode then (True, s) else
        let (ok, dst_block, s) = load_dir_block io dst_dir s in if \<not> ok then (False, s)
        else if dst_dir = src_dir \<and> str_equals dst_name src_name then (True, s)
        else if find_dir_entry dst_name dst_block (g_inodes s) src_type \<noteq> None then (False, s)
        else if dst_dir = src_dir then
          write_dir_block io src_dir (de_rename src_block src_entry dst_name) s
        else case find_free_slot dst_block of None \<Rightarrow> (False, s) | Some slot \<Rightarrow>
        let dst_block = de_put dst_block slot src_inode dst_name;
            src_block = de_clear src_block src_entry;
            (ok, s) = write_dir_block io src_dir src_block s in if \<not> ok then (False, s) else
        let (ok, s) = write_dir_block io dst_dir dst_block s in if \<not> ok then (False, s)
        else (True, s))"

section \<open>Removing\<close>

text \<open>Freeing the block of an inode and clearing it on disk; a block out of range is left alone.\<close>

definition release_block :: "'d disk_ops \<Rightarrow> nat \<Rightarrow> 'd fs \<Rightarrow> bool \<times> 'd fs" where
  "release_block io ino s =
     (let block = direct0 (inode_at s ino) in
      if block \<noteq> 0 \<and> block < block_count (g_sb s) then
        let s = mark_block_free (unat block) s
        in disk_write_lba io (data_lba (g_sb s) + block) zero_block 1 s
      else (True, s))"

definition remove_entry_from_dir :: "'d disk_ops \<Rightarrow> nat \<Rightarrow> u8 list \<Rightarrow> 'd fs \<Rightarrow> bool \<times> 'd fs" where
  "remove_entry_from_dir io dir filename s =
     (if direct0 (inode_at s dir) = 0 then (False, s) else
      let (ok, blk, s) = disk_read_lba io (block_lba s dir) 1 s in if \<not> ok then (False, s) else
      case remove_scan filename blk (g_inodes s) INODE_FILE [0..<entry_count] of
        None \<Rightarrow> (False, s) | Some None \<Rightarrow> (False, s) | Some (Some e) \<Rightarrow>
      let ino = de_inode blk e in
      if ino = 0 \<or> FS_MAX_INODES \<le> ino then (False, s)
      else if itype (inode_at s ino) \<noteq> INODE_FILE then (False, s) else
      let (ok, s) = release_block io ino s in if \<not> ok then (False, s) else
      let blk = de_clear blk e;
          s = set_inode ino zero_inode s;
          (ok, s) = disk_write_lba io (block_lba s dir) blk 1 s in if \<not> ok then (False, s) else
      flush io s)"

fun remove_dir_contents :: "nat \<Rightarrow> 'd disk_ops \<Rightarrow> nat \<Rightarrow> 'd fs \<Rightarrow> (bool \<times> 'd fs) option"
and remove_entries :: "nat \<Rightarrow> 'd disk_ops \<Rightarrow> nat list \<Rightarrow> u8 list \<Rightarrow> 'd fs
    \<Rightarrow> (u8 list option \<times> 'd fs) option" where
  "remove_dir_contents 0 io dir s = None"
| "remove_dir_contents (Suc fuel) io dir s =
     (if dir = 0 \<or> FS_MAX_INODES \<le> dir then Some (False, s)
      else if used (inode_at s dir) = 0 \<or> itype (inode_at s dir) \<noteq> INODE_DIR \<or>
              direct0 (inode_at s dir) = 0 then Some (False, s) else
      let (ok, blk, s) = disk_read_lba io (block_lba s dir) 1 s in if \<not> ok then Some (False, s) else
      case remove_entries fuel io [0..<entry_count] blk s of
        None \<Rightarrow> None
      | Some (None, s) \<Rightarrow> Some (False, s)
      | Some (Some blk, s) \<Rightarrow> Some (disk_write_lba io (block_lba s dir) blk 1 s))"
| "remove_entries fuel io [] blk s = Some (Some blk, s)"
| "remove_entries fuel io (i # is) blk s =
     (if \<not> de_used blk i then remove_entries fuel io is blk s else
      let ino = de_inode blk i in
      if ino = 0 \<or> FS_MAX_INODES \<le> ino then Some (None, s) else
      case (if itype (inode_at s ino) = INODE_DIR then remove_dir_contents fuel io ino s
            else if itype (inode_at s ino) \<noteq> INODE_FILE then Some (False, s)
            else Some (True, s)) of
        None \<Rightarrow> None
      | Some (ok, s) \<Rightarrow>
          if \<not> ok then Some (None, s) else
          let (ok, s) = release_block io ino s in if \<not> ok then Some (None, s) else
          remove_entries fuel io is (de_clear blk i) (set_inode ino zero_inode s))"

definition remove_entry_from_dir_recursive :: "nat \<Rightarrow> 'd disk_ops \<Rightarrow> nat \<Rightarrow> u8 list \<Rightarrow> 'd fs
    \<Rightarrow> (bool \<times> 'd fs) option" where
  "remove_entry_from_dir_recursive fuel io dir filename s =
     (if direct0 (inode_at s dir) = 0 then Some (False, s) else
      let (ok, blk, s) = disk_read_lba io (block_lba s dir) 1 s in if \<not> ok then Some (False, s) else
      case remove_scan filename blk (g_inodes s) INODE_DIR [0..<entry_count] of None \<Rightarrow> Some (False, s) | Some t \<Rightarrow>
      case (case t of Some e \<Rightarrow> Some (Some e)
            | None \<Rightarrow> remove_scan filename blk (g_inodes s) INODE_FILE [0..<entry_count]) of
        None \<Rightarrow> Some (False, s) | Some None \<Rightarrow> Some (False, s) | Some (Some e) \<Rightarrow>
      let ino = de_inode blk e in
      if ino = 0 \<or> FS_MAX_INODES \<le> ino then Some (False, s) else
      case (if itype (inode_at s ino) = INODE_DIR then remove_dir_contents fuel io ino s
            else if itype (inode_at s ino) \<noteq> INODE_FILE then Some (False, s)
            else Some (True, s)) of
        None \<Rightarrow> None
      | Some (ok, s) \<Rightarrow>
          if \<not> ok then Some (False, s) else
          let (ok, s) = release_block io ino s in if \<not> ok then Some (False, s) else
          let blk = de_clear blk e;
              s = set_inode ino zero_inode s;
              (ok, s) = disk_write_lba io (block_lba s dir) blk 1 s in if \<not> ok then Some (False, s) else
          Some (flush io s))"

definition fs_remove :: "'d disk_ops \<Rightarrow> u8 list option \<Rightarrow> 'd fs \<Rightarrow> bool \<times> 'd fs" where
  "fs_remove io name s =
     (case name of None \<Rightarrow> (False, s) | Some name \<Rightarrow>
      if \<not> g_mounted s then (False, s)
      else if is_empty name then (False, s)
      else if 30 \<le> str_len name then (False, s)
      else if used (inode_at s 0) = 0 \<or> direct0 (inode_at s 0) = 0 then (False, s)
      else remove_entry_from_dir io 0 name s)"

definition fs_remove_path :: "'d disk_ops \<Rightarrow> u8 list option \<Rightarrow> 'd fs \<Rightarrow> bool \<times> 'd fs" where
  "fs_remove_path io path s =
     (case path of None \<Rightarrow> (False, s) | Some path \<Rightarrow>
      if \<not> g_mounted s \<or> is_empty path then (False, s)
      else if \<not> has_sep path then fs_remove io (Some path) s
      else if is_empty (path_rest path) then (False, s) else
      let (r, s) = find_subdir io (path_dir path) s in case r of None \<Rightarrow> (False, s) | Some dir \<Rightarrow>
      remove_entry_from_dir io dir (path_rest path) s)"

definition fs_remove_path_recursive :: "nat \<Rightarrow> 'd disk_ops \<Rightarrow> u8 list option \<Rightarrow> 'd fs
    \<Rightarrow> (bool \<times> 'd fs) option" where
  "fs_remove_path_recursive fuel io path s =
     (case path of None \<Rightarrow> Some (False, s) | Some path \<Rightarrow>
      if \<not> g_mounted s \<or> is_empty path then Some (False, s)
      else if \<not> has_sep path then
        if used (inode_at s 0) = 0 \<or> direct0 (inode_at s 0) = 0 then Some (False, s)
        else remove_entry_from_dir_recursive fuel io 0 path s
      else if is_empty (path_rest path) then Some (False, s) else
      let (r, s) = find_subdir io (path_dir path) s in case r of None \<Rightarrow> Some (False, s) | Some dir \<Rightarrow>
      remove_entry_from_dir_recursive fuel io dir (path_rest path) s)"

section \<open>Usage figures\<close>

definition fs_get_disk_bytes :: "'d disk_ops \<Rightarrow> 'd fs \<Rightarrow> u64 \<times> 'd fs" where
  "fs_get_disk_bytes io s =
     (let (r, d) = get_sector_count io (disk s); s = s\<lparr>disk := d\<rparr> in
      case r of Some sectors \<Rightarrow> (sectors * 512, s)
      | None \<Rightarrow> (ucast (block_count (g_sb s)) * ucast (block_size (g_sb s)), s))"

definition getMB :: "'d disk_ops \<Rightarrow> 'd fs \<Rightarrow> int \<times> 'd fs" where
  "getMB io s = (let (total_bytes, s) = fs_get_disk_bytes io s
                 in (sint (ucast (drop_bit 20 total_bytes) :: u32), s))"

definition fs_get_usage :: "'d fs \<Rightarrow> (u64 \<times> u64 \<times> u64) option" where
  "fs_get_usage s =
     (if \<not> g_mounted s then None
      else let total_blocks = block_limit s;
               used_blocks = length (filter (bm_used (g_bitmap s)) [1..<total_blocks]);
               total_val = (of_nat total_blocks * 512 :: u64);
               used_val = of_nat used_blocks * 512;
               free_val = (if used_val < total_val then total_val - used_val else 0)
           in Some (total_val, used_val, free_val))"

end
