(* ===== verification/FsInv.thy ===== *)
theory FsInv
  imports FsTree
begin

text \<open>
  The consistency of the file system's tables in memory, and that every call keeps it, whatever
  the directory blocks on disk contain: every live inode is a file or a directory, owns a block in
  range that the bitmap marks as used, and no two inodes own the same block.

  The proofs run on a small calculus of postconditions: \<open>post Q r\<close> says that the pair \<open>r\<close> of a
  result and a state satisfies \<open>Q\<close>, and \<open>post_intros\<close> has one rule per construct the
  definitions are built from.
\<close>

section \<open>Table consistency\<close>

definition tab_inv :: "inode list \<Rightarrow> u8 list \<Rightarrow> nat \<Rightarrow> bool" where
  "tab_inv tab bm n \<longleftrightarrow>
     used (tab ! 0) \<noteq> 0 \<and> itype (tab ! 0) = INODE_DIR \<and>
     (\<forall>i < 64. inode_shape (tab ! i)) \<and>
     (\<forall>i < 64. used (tab ! i) = 0 \<longrightarrow> itype (tab ! i) = 0 \<and> direct0 (tab ! i) = 0) \<and>
     (\<forall>i < 64. used (tab ! i) \<noteq> 0 \<longrightarrow>
        itype (tab ! i) \<in> {INODE_FILE, INODE_DIR} \<and> (direct0 (tab ! i) = 0 \<longrightarrow> i = 0) \<and>
        unat (direct0 (tab ! i)) < n \<and>
        (direct0 (tab ! i) \<noteq> 0 \<longrightarrow> bm_used bm (unat (direct0 (tab ! i))))) \<and>
     (\<forall>i < 64. \<forall>j < 64. i \<noteq> j \<longrightarrow> direct0 (tab ! i) \<noteq> 0 \<longrightarrow> direct0 (tab ! i) \<noteq> direct0 (tab ! j))"

definition sb_inv :: "superblock \<Rightarrow> bool" where
  "sb_inv sb \<longleftrightarrow>
     bitmap_lba sb = FS_BITMAP_LBA \<and> inode_table_lba sb = FS_INODE_TABLE_LBA \<and>
     data_lba sb = FS_DATA_LBA \<and> 0 < unat (block_count sb) \<and> unat (block_count sb) \<le> max_blocks"

definition mem_inv :: "'d fs \<Rightarrow> bool" where
  "mem_inv s \<longleftrightarrow>
     sb_inv (g_sb s) \<and> length (g_sb_pad s) = 480 \<and> length (g_bitmap s) = 4096 \<and>
     length (g_inodes s) = 64 \<and> tab_inv (g_inodes s) (g_bitmap s) (unat (block_count (g_sb s)))"

text \<open>
  What no call but mounting and formatting changes in memory; \<open>K\<close> says what is kept of it and of
  the disk.
\<close>

type_synonym fs_head = "superblock \<times> u8 list \<times> bool"

definition fs_head :: "'d fs \<Rightarrow> fs_head" where
  "fs_head s = (g_sb s, g_sb_pad s, g_mounted s)"

definition fs_ok :: "(fs_head \<Rightarrow> 'd \<Rightarrow> bool) \<Rightarrow> 'd fs \<Rightarrow> bool" where
  "fs_ok K s \<longleftrightarrow> mem_inv s \<and> K (fs_head s) (disk s)"

named_theorems fs_simps \<open>projections of updated file-system states\<close>

lemma inode_at_disk [simp, fs_simps]: "inode_at (s\<lparr>disk := d\<rparr>) i = inode_at s i"
  by (simp add: inode_at_def)

lemma fs_head_disk [simp, fs_simps]: "fs_head (s\<lparr>disk := d\<rparr>) = fs_head s"
  by (simp add: fs_head_def)

lemma block_lba_disk [simp, fs_simps]: "block_lba (s\<lparr>disk := d\<rparr>) i = block_lba s i"
  by (simp add: block_lba_def)

lemma mem_inv_disk [simp, fs_simps]: "mem_inv (s\<lparr>disk := d\<rparr>) = mem_inv s"
  by (simp add: mem_inv_def)

lemma find_free_inode_disk [simp, fs_simps]: "find_free_inode (s\<lparr>disk := d\<rparr>) = find_free_inode s"
  by (simp add: find_free_inode_def inode_limit_def)

lemma find_free_block_disk [simp, fs_simps]: "find_free_block (s\<lparr>disk := d\<rparr>) = find_free_block s"
  by (simp add: find_free_block_def block_limit_def)

lemma alloc_inode_raw_disk [simp, fs_simps]: "alloc_inode_raw (s\<lparr>disk := d\<rparr>) = alloc_inode_raw s"
  by (simp add: alloc_inode_raw_def inode_limit_def)

lemma alloc_block_raw_disk [simp, fs_simps]: "alloc_block_raw (s\<lparr>disk := d\<rparr>) = alloc_block_raw s"
  by (simp add: alloc_block_raw_def block_limit_def)

lemma set_inode_fields [simp, fs_simps]:
  "g_sb (set_inode i nd s) = g_sb s" "g_sb_pad (set_inode i nd s) = g_sb_pad s"
  "g_bitmap (set_inode i nd s) = g_bitmap s" "g_mounted (set_inode i nd s) = g_mounted s"
  "disk (set_inode i nd s) = disk s"
  by (simp_all add: set_inode_def)

lemma fs_head_simps [simp, fs_simps]:
  "fs_head (set_inode i nd s) = fs_head s" "fs_head (mark_block_used b s) = fs_head s"
  "fs_head (mark_block_free b s) = fs_head s"
  by (simp_all add: fs_head_def set_inode_def mark_block_used_def mark_block_free_def)

lemma inode_at_set [fs_simps]:
  "length (g_inodes s) = 64 \<Longrightarrow> i < 64 \<Longrightarrow> inode_at (set_inode i nd s) j = (if j = i then nd else inode_at s j)"
  by (simp add: inode_at_def set_inode_def)

lemma mark_fields [simp, fs_simps]:
  "g_sb (mark_block_used b s) = g_sb s" "g_inodes (mark_block_used b s) = g_inodes s"
  "inode_at (mark_block_used b s) i = inode_at s i"
  "disk (mark_block_used b s) = disk s" "g_mounted (mark_block_used b s) = g_mounted s"
  "g_sb_pad (mark_block_used b s) = g_sb_pad s"
  by (simp_all add: mark_block_used_def inode_at_def)

lemma block_lba_release [simp, fs_simps]: "block_lba (mark_block_free b s) i = block_lba s i"
  by (simp add: block_lba_def mark_block_free_def inode_at_def)

lemma mark_free_fields [simp, fs_simps]:
  "g_sb (mark_block_free b s) = g_sb s" "g_inodes (mark_block_free b s) = g_inodes s"
  "inode_at (mark_block_free b s) i = inode_at s i"
  "disk (mark_block_free b s) = disk s" "g_mounted (mark_block_free b s) = g_mounted s"
  "g_sb_pad (mark_block_free b s) = g_sb_pad s"
  by (simp_all add: mark_block_free_def inode_at_def)

lemma set_inode_disk: "set_inode i nd (s\<lparr>disk := d\<rparr>) = (set_inode i nd s)\<lparr>disk := d\<rparr>"
  by (simp add: set_inode_def)

lemma fs_ok_mem [simp]: "fs_ok K s \<Longrightarrow> mem_inv s"
  by (simp add: fs_ok_def)

lemma mem_inv_len [simp]: "mem_inv s \<Longrightarrow> length (g_inodes s) = 64"
  by (simp add: mem_inv_def)

lemma block_limit_eq: "mem_inv s \<Longrightarrow> block_limit s = unat (block_count (g_sb s))"
  by (auto simp: mem_inv_def sb_inv_def block_limit_def Let_def)

lemma inode_limit_le: "inode_limit s \<le> 64"
  by (auto simp: inode_limit_def Let_def)

section \<open>The steps that change the tables\<close>

lemma direct0_fill [simp]: "inode_shape nd \<Longrightarrow> direct0 (fill_inode ty b nd) = of_nat b"
  by (simp add: direct0_def fill_inode_def inode_shape_def)

lemma fill_inode_fields [simp]:
  "used (fill_inode ty b nd) = 1" "itype (fill_inode ty b nd) = ty"
  "inode_shape (fill_inode ty b nd) = inode_shape nd" "isize (fill_inode ty b nd) = isize nd"
  by (auto simp: fill_inode_def inode_shape_def)

lemma mem_inv_isize:
  assumes "mem_inv s" and "i < 64"
  shows "mem_inv (set_inode i ((inode_at s i)\<lparr>isize := n\<rparr>) s)"
proof -
  let ?tab = "(g_inodes s)[i := (inode_at s i)\<lparr>isize := n\<rparr>]"
  have same: "used (?tab ! j) = used (g_inodes s ! j) \<and> itype (?tab ! j) = itype (g_inodes s ! j) \<and>
      direct0 (?tab ! j) = direct0 (g_inodes s ! j) \<and> inode_shape (?tab ! j) = inode_shape (g_inodes s ! j)"
    for j using assms by (cases "i = j") (simp_all add: inode_at_def)
  then have "tab_inv ?tab (g_bitmap s) n \<longleftrightarrow> tab_inv (g_inodes s) (g_bitmap s) n" for n
    unfolding tab_inv_def by simp
  with assms show ?thesis by (simp add: mem_inv_def set_inode_def)
qed

text \<open>Giving inode \<open>i\<close> the free block \<open>b\<close>.\<close>

lemma mem_inv_claim:
  assumes inv: "mem_inv s" and i: "i < 64" "i = 0 \<longrightarrow> itype nd = INODE_DIR"
    and b: "0 < b" "b < unat (block_count (g_sb s))" "\<not> bm_used (g_bitmap s) b"
    and nd: "direct0 nd = of_nat b" "used nd \<noteq> 0" "itype nd \<in> {INODE_FILE, INODE_DIR}" "inode_shape nd"
  shows "mem_inv (set_inode i nd (mark_block_used b s))"
proof -
  let ?tab = "(g_inodes s)[i := nd]"
  let ?c = "unat (block_count (g_sb s))"
  have tab: "tab_inv (g_inodes s) (g_bitmap s) ?c" and len: "length (g_inodes s) = 64"
    and bl: "length (g_bitmap s) = 4096" and c: "?c \<le> max_blocks"
    using inv by (auto simp: mem_inv_def sb_inv_def)
  have bu: "unat (of_nat b :: u32) = b" using b c by (intro unat_of_nat_u32) simp
  have b0: "of_nat b \<noteq> (0 :: u32)" using b(1) bu by (metis less_irrefl unsigned_0)
  have mark: "bm_used (bm_mark (g_bitmap s) b) k \<longleftrightarrow> k = b \<or> bm_used (g_bitmap s) k" for k
    using b c bl by (intro bm_used_mark) simp
  have other: "direct0 (g_inodes s ! j) \<noteq> of_nat b" if "j < 64" for j
  proof
    assume eq: "direct0 (g_inodes s ! j) = of_nat b"
    then have "used (g_inodes s ! j) \<noteq> 0" using tab that b0 by (auto simp: tab_inv_def)
    then have "bm_used (g_bitmap s) (unat (direct0 (g_inodes s ! j)))"
      using tab that b0 eq by (auto simp: tab_inv_def)
    with eq bu b(3) show False by simp
  qed
  have nth: "?tab ! j = (if j = i then nd else g_inodes s ! j)" if "j < 64" for j
    using that len by simp
  have "tab_inv ?tab (bm_mark (g_bitmap s) b) ?c"
    unfolding tab_inv_def
  proof (intro conjI allI impI)
    show "used (?tab ! 0) \<noteq> 0" "itype (?tab ! 0) = INODE_DIR"
      using tab i nd(2) len by (cases "i = 0"; auto simp: tab_inv_def)+
  next
    fix j k :: nat
    assume "j < 64" "k < 64" "j \<noteq> k" "direct0 (?tab ! j) \<noteq> 0"
    then show "direct0 (?tab ! j) \<noteq> direct0 (?tab ! k)"
      using tab other [of j] other [of k] nth [of j] nth [of k] nd(1)
      by (cases "j = i"; cases "k = i") (auto simp: tab_inv_def)
  next
    fix j :: nat assume j: "j < 64"
    show "inode_shape (?tab ! j)" using tab nth [OF j] nd(4) j by (simp add: tab_inv_def)
    show "itype (?tab ! j) = 0" "direct0 (?tab ! j) = 0" if "used (?tab ! j) = 0"
      using tab nth [OF j] nd(2) j that by (auto simp: tab_inv_def split: if_splits)
    assume u: "used (?tab ! j) \<noteq> 0"
    show "itype (?tab ! j) \<in> {INODE_FILE, INODE_DIR}"
      using tab nth [OF j] nd(3) u j by (cases "j = i") (auto simp: tab_inv_def)
    show "j = 0" if "direct0 (?tab ! j) = 0"
      using tab nth [OF j] nd(1) b0 u j that by (cases "j = i") (auto simp: tab_inv_def)
    show "unat (direct0 (?tab ! j)) < ?c"
      using tab nth [OF j] nd(1) bu b u j by (cases "j = i") (auto simp: tab_inv_def)
    show "bm_used (bm_mark (g_bitmap s) b) (unat (direct0 (?tab ! j)))" if "direct0 (?tab ! j) \<noteq> 0"
      using tab nth [OF j] nd(1) bu u j that unfolding mark
      by (cases "j = i") (auto simp: tab_inv_def)
  qed
  then show ?thesis
    using inv by (simp add: mem_inv_def set_inode_def mark_block_used_def)
qed

lemma mem_inv_shape: "mem_inv s \<Longrightarrow> i < 64 \<Longrightarrow> inode_shape (inode_at s i)"
  by (simp add: mem_inv_def tab_inv_def inode_at_def)

lemma mem_inv_root: "mem_inv s \<Longrightarrow> used (inode_at s 0) \<noteq> 0 \<and> itype (inode_at s 0) = INODE_DIR"
  by (simp add: mem_inv_def tab_inv_def inode_at_def)

lemma mem_inv_block:
  assumes "mem_inv s" and "i < 64"
  shows "unat (direct0 (inode_at s i)) < unat (block_count (g_sb s))"
proof (cases "used (inode_at s i) = 0")
  case True
  with assms show ?thesis by (simp add: mem_inv_def tab_inv_def inode_at_def sb_inv_def)
next
  case False
  with assms show ?thesis by (simp add: mem_inv_def tab_inv_def inode_at_def)
qed

lemma mem_inv_alloc:
  assumes "mem_inv s" and "i < 64" "0 < i"
    and "0 < b" "b < unat (block_count (g_sb s))" "\<not> bm_used (g_bitmap s) b"
    and "ty \<in> {INODE_FILE, INODE_DIR}"
  shows "mem_inv (set_inode i ((fill_inode ty b (inode_at s i))\<lparr>isize := n\<rparr>) (mark_block_used b s))"
  by (rule mem_inv_claim) (use assms mem_inv_shape [OF assms(1,2)] in auto)

lemma mem_inv_release:
  assumes inv: "mem_inv s" and i: "0 < i" "i < 64"
  shows "mem_inv (set_inode i zero_inode (mark_block_free (unat (direct0 (inode_at s i))) s))"
    and "direct0 (inode_at s i) = 0 \<Longrightarrow> mem_inv (set_inode i zero_inode s)"
proof -
  let ?tab = "(g_inodes s)[i := zero_inode]"
  let ?c = "unat (block_count (g_sb s))" and ?b = "direct0 (inode_at s i)"
  have tab: "tab_inv (g_inodes s) (g_bitmap s) ?c" and len: "length (g_inodes s) = 64"
    and bl: "length (g_bitmap s) = 4096" and c: "?c \<le> max_blocks"
    using inv by (auto simp: mem_inv_def sb_inv_def)
  have nth: "?tab ! j = (if j = i then zero_inode else g_inodes s ! j)" if "j < 64" for j
    using that len by simp
  have apart: "direct0 (g_inodes s ! j) \<noteq> ?b" if "j < 64" "j \<noteq> i" "direct0 (g_inodes s ! j) \<noteq> 0" for j
    using tab i that by (auto simp: tab_inv_def inode_at_def)
  have gen: "tab_inv ?tab bm ?c"
    if bm: "\<And>j. j < 64 \<Longrightarrow> j \<noteq> i \<Longrightarrow> direct0 (g_inodes s ! j) \<noteq> 0 \<Longrightarrow>
        bm_used (g_bitmap s) (unat (direct0 (g_inodes s ! j))) \<Longrightarrow>
        bm_used bm (unat (direct0 (g_inodes s ! j)))" for bm
    unfolding tab_inv_def
  proof (intro conjI allI impI)
    show "used (?tab ! 0) \<noteq> 0" "itype (?tab ! 0) = INODE_DIR"
      using tab i nth [of 0] by (auto simp: tab_inv_def)
  next
    fix j k :: nat
    assume "j < 64" "k < 64" "j \<noteq> k" "direct0 (?tab ! j) \<noteq> 0"
    then show "direct0 (?tab ! j) \<noteq> direct0 (?tab ! k)"
      using tab nth [of j] nth [of k] by (cases "j = i"; cases "k = i") (auto simp: tab_inv_def)
  next
    fix j :: nat assume j: "j < 64"
    show "inode_shape (?tab ! j)" using tab nth [OF j] j by (simp add: tab_inv_def)
    show "itype (?tab ! j) = 0" "direct0 (?tab ! j) = 0" if "used (?tab ! j) = 0"
      using tab nth [OF j] j that by (auto simp: tab_inv_def split: if_splits)
    assume u: "used (?tab ! j) \<noteq> 0"
    then have ji: "j \<noteq> i" using nth [OF j] by auto
    show "itype (?tab ! j) \<in> {INODE_FILE, INODE_DIR}" "unat (direct0 (?tab ! j)) < ?c"
      using tab nth [OF j] u j ji by (auto simp: tab_inv_def)
    show "j = 0" if "direct0 (?tab ! j) = 0"
      using tab nth [OF j] u j ji that by (auto simp: tab_inv_def)
    show "bm_used bm (unat (direct0 (?tab ! j)))" if "direct0 (?tab ! j) \<noteq> 0"
      using tab nth [OF j] u j ji that bm [OF j ji] by (auto simp: tab_inv_def)
  qed
  have blt: "unat ?b < 8 * length (g_bitmap s)" using mem_inv_block [OF inv i(2)] c bl by simp
  have "tab_inv ?tab (bm_free (g_bitmap s) (unat ?b)) ?c"
    using apart bm_used_free [OF blt] by (intro gen) (auto simp: word_unat_eq_iff)
  then show "mem_inv (set_inode i zero_inode (mark_block_free (unat ?b) s))"
    using inv by (simp add: mem_inv_def set_inode_def mark_block_free_def)
  show "mem_inv (set_inode i zero_inode s)" if "?b = 0"
    using inv gen [of "g_bitmap s"] by (simp add: mem_inv_def set_inode_def)
qed

section \<open>A calculus of postconditions\<close>

definition post :: "('a \<Rightarrow> 'b \<Rightarrow> bool) \<Rightarrow> 'a \<times> 'b \<Rightarrow> bool" where
  "post Q r \<longleftrightarrow> (case r of (a, s) \<Rightarrow> Q a s)"

lemma post_return: "Q a s \<Longrightarrow> post Q (a, s)"
  by (simp add: post_def)

lemma post_if: "(c \<Longrightarrow> post Q x) \<Longrightarrow> (\<not> c \<Longrightarrow> post Q y) \<Longrightarrow> post Q (if c then x else y)"
  by simp

lemma post_option:
  "(x = None \<Longrightarrow> post Q n) \<Longrightarrow> (\<And>y. x = Some y \<Longrightarrow> post Q (f y)) \<Longrightarrow> post Q (case x of None \<Rightarrow> n | Some y \<Rightarrow> f y)"
  by (cases x) auto

lemma post_option_pair:
  "(x = None \<Longrightarrow> post Q n) \<Longrightarrow> (\<And>a b. x = Some (a, b) \<Longrightarrow> post Q (f a b)) \<Longrightarrow>
   post Q (case x of None \<Rightarrow> n | Some (a, b) \<Rightarrow> f a b)"
  by (cases x) auto

lemma post_let: "post Q (f x) \<Longrightarrow> post Q (Let x f)"
  by simp

lemma post_call: "post R g \<Longrightarrow> (\<And>a s. R a s \<Longrightarrow> post Q (f a s)) \<Longrightarrow> post Q (case g of (a, s) \<Rightarrow> f a s)"
  by (cases g) (simp add: post_def)

lemma post_mono: "post R g \<Longrightarrow> (\<And>a s. R a s \<Longrightarrow> Q a s) \<Longrightarrow> post Q g"
  by (auto simp: post_def)

lemma postD: "post Q r \<Longrightarrow> r = (a, s) \<Longrightarrow> Q a s"
  by (simp add: post_def)

text \<open>The same for a call that may run out of fuel.\<close>

definition opost :: "('a \<Rightarrow> 'b \<Rightarrow> bool) \<Rightarrow> ('a \<times> 'b) option \<Rightarrow> bool" where
  "opost Q x \<longleftrightarrow> (case x of None \<Rightarrow> True | Some r \<Rightarrow> post Q r)"

lemma opost_None: "opost Q None"
  by (simp add: opost_def)

lemma opost_Some: "post Q r \<Longrightarrow> opost Q (Some r)"
  by (simp add: opost_def)

lemma opost_if: "(c \<Longrightarrow> opost Q x) \<Longrightarrow> (\<not> c \<Longrightarrow> opost Q y) \<Longrightarrow> opost Q (if c then x else y)"
  by simp

lemma opost_option:
  "(x = None \<Longrightarrow> opost Q n) \<Longrightarrow> (\<And>y. x = Some y \<Longrightarrow> opost Q (f y)) \<Longrightarrow> opost Q (case x of None \<Rightarrow> n | Some y \<Rightarrow> f y)"
  by (cases x) auto

lemma opost_call:
  "opost R g \<Longrightarrow> opost Q n \<Longrightarrow> (\<And>a s. R a s \<Longrightarrow> opost Q (f a s)) \<Longrightarrow>
   opost Q (case g of None \<Rightarrow> n | Some (a, s) \<Rightarrow> f a s)"
  by (cases g) (auto simp: opost_def post_def)

lemma fs_ok_disk: "fs_ok K s \<Longrightarrow> K (fs_head s) d \<Longrightarrow> fs_ok K (s\<lparr>disk := d\<rparr>)"
  by (simp add: fs_ok_def)

lemma block_lba_eq:
  assumes "mem_inv s" and "i < 64"
  shows "unat (block_lba s i) = 145 + unat (direct0 (inode_at s i))"
proof -
  have "unat (direct0 (inode_at s i)) < max_blocks"
    using mem_inv_block [OF assms] assms(1) by (simp add: mem_inv_def sb_inv_def)
  then show ?thesis
    using assms(1) by (simp add: block_lba_def mem_inv_def sb_inv_def unat_word_ariths)
qed

text \<open>The sectors the calls may write: the tables and the data area, within the reach of the driver.\<close>

definition fs_area :: "u32 \<Rightarrow> u32 \<Rightarrow> bool" where
  "fs_area lba n \<longleftrightarrow> 129 \<le> unat lba \<and> unat lba + unat n \<le> lba_limit"

lemma block_lba_range:
  assumes "fs_ok K s" and "i < 64"
  shows "fs_area (block_lba s i) 1"
proof -
  have m: "mem_inv s" using assms(1) by simp
  have "unat (direct0 (inode_at s i)) < max_blocks"
    using mem_inv_block [OF m assms(2)] m by (simp add: mem_inv_def sb_inv_def)
  then show ?thesis by (simp add: fs_area_def block_lba_eq [OF m assms(2)])
qed

lemma data_lba_range:
  assumes "fs_ok K s" and "b < unat (block_count (g_sb s))"
  shows "unat (data_lba (g_sb s) + of_nat b) = 145 + b"
    and "fs_area (data_lba (g_sb s) + of_nat b) 1"
proof -
  have "b < max_blocks" and "data_lba (g_sb s) = 145"
    using assms by (auto simp: fs_ok_def mem_inv_def sb_inv_def)
  then show "unat (data_lba (g_sb s) + of_nat b) = 145 + b"
    by (simp add: unat_word_ariths unat_of_nat)
  with \<open>b < max_blocks\<close> show "fs_area (data_lba (g_sb s) + of_nat b) 1"
    by (simp add: fs_area_def)
qed

lemma find_free_inodeD:
  "find_free_inode s = Some i \<Longrightarrow> 0 < i \<and> i < 64 \<and> used (inode_at s i) = 0"
  using inode_limit_le [of s] by (auto simp: find_free_inode_def dest!: find_eq_Some split: if_splits)

lemma alloc_inode_rawD:
  "alloc_inode_raw s = Some i \<Longrightarrow> 0 < i \<and> i < 64 \<and> used (inode_at s i) = 0"
  using inode_limit_le [of s] by (auto simp: alloc_inode_raw_def dest!: find_eq_Some)

lemma find_free_blockD:
  "find_free_block s = Some b \<Longrightarrow> mem_inv s \<Longrightarrow>
   0 < b \<and> b < unat (block_count (g_sb s)) \<and> \<not> bm_used (g_bitmap s) b"
  by (auto simp: find_free_block_def block_limit_eq dest!: find_eq_Some split: if_splits)

lemma alloc_block_rawD:
  "alloc_block_raw s = Some b \<Longrightarrow> mem_inv s \<Longrightarrow>
   0 < b \<and> b < unat (block_count (g_sb s)) \<and> \<not> bm_used (g_bitmap s) b"
  by (auto simp: alloc_block_raw_def block_limit_eq dest!: find_eq_Some)

lemma fs_ok_alloc:
  assumes "fs_ok K s" and "ty \<in> {INODE_FILE, INODE_DIR}"
    and "find_free_inode s = Some i \<or> alloc_inode_raw s = Some i"
    and "find_free_block s = Some b \<or> alloc_block_raw s = Some b"
  shows "fs_ok K (set_inode i ((fill_inode ty b (inode_at s i))\<lparr>isize := n\<rparr>) (mark_block_used b s))"
    and "fs_ok K (set_inode i (fill_inode ty b (inode_at s i)) (mark_block_used b s))"
proof -
  have m: "mem_inv s" using assms(1) by simp
  have i: "0 < i" "i < 64" using assms(3) find_free_inodeD alloc_inode_rawD by blast+
  have b: "0 < b" "b < unat (block_count (g_sb s))" "\<not> bm_used (g_bitmap s) b"
    using assms(4) find_free_blockD [OF _ m] alloc_block_rawD [OF _ m] by blast+
  have all: "fs_ok K (set_inode i ((fill_inode ty b (inode_at s i))\<lparr>isize := n\<rparr>) (mark_block_used b s))"
    for n using mem_inv_alloc [OF m i(2,1) b assms(2)] assms(1) by (simp add: fs_ok_def)
  show "fs_ok K (set_inode i ((fill_inode ty b (inode_at s i))\<lparr>isize := n\<rparr>) (mark_block_used b s))"
    by (rule all)
  show "fs_ok K (set_inode i (fill_inode ty b (inode_at s i)) (mark_block_used b s))"
    using all [of "isize (inode_at s i)"] by (simp add: fill_inode_def)
qed

lemma fs_ok_isize:
  "fs_ok K s \<Longrightarrow> i < 64 \<Longrightarrow> fs_ok K (set_inode i ((inode_at s i)\<lparr>isize := n\<rparr>) s)"
  by (simp add: fs_ok_def mem_inv_isize)

text \<open>
  What the calls keep of the disk: \<open>K\<close> is any property of the header and the device that implies \<open>ready\<close> and
  depends on no sector from 129 on. So whatever is shown of a call with \<open>fs_ok K\<close> holds for
  the plain contract and for the contents of the superblock and of the sectors before it.
\<close>

locale fs_device = block_device +
  fixes K :: "fs_head \<Rightarrow> 'a \<Rightarrow> bool"
  assumes K_ready: "K h d \<Longrightarrow> ready d"
    and K_frame: "K h d \<Longrightarrow> ready d' \<Longrightarrow> (\<forall>l < 129. sec d' l = sec d l) \<Longrightarrow> K h d'"
begin

lemma K_read: "K h d \<Longrightarrow> ready d' \<Longrightarrow> sec d' = sec d \<Longrightarrow> K h d'"
  using K_frame by auto

lemma read1_split:
  assumes "fs_ok K s" and "fs_area lba 1"
    and "\<And>ok bs d. ready d \<Longrightarrow> sec d = sec (disk s) \<Longrightarrow> fs_ok K (s\<lparr>disk := d\<rparr>) \<Longrightarrow>
      (ok \<Longrightarrow> bs = sec (disk s) (unat lba)) \<Longrightarrow> (ok \<Longrightarrow> length bs = 512) \<Longrightarrow>
      P (f ok bs (s\<lparr>disk := d\<rparr>))"
  shows "P (case disk_read_lba io lba 1 s of (ok, bs, s) \<Rightarrow> f ok bs s)"
proof -
  obtain ok bs d where r: "read_sectors io (disk s) lba 1 = (ok, bs, d)"
    by (metis prod_cases3)
  have k: "K (fs_head s) (disk s)" using assms(1) by (simp add: fs_ok_def)
  have law: "ready d \<and> sec d = sec (disk s) \<and> (ok \<longrightarrow> bs = sec (disk s) (unat lba))"
    using read_law [OF K_ready [OF k] _ r] assms(2) by (auto simp: fs_area_def)
  have "P (f ok bs (s\<lparr>disk := d\<rparr>))"
    by (rule assms(3)) (use law assms(1) sec_length [OF K_ready [OF k]] K_read [OF k] in
      \<open>auto intro: fs_ok_disk\<close>)
  then show ?thesis by (simp add: disk_read_lba_def r)
qed

lemma write_split:
  assumes "fs_ok K s" and "fs_area lba n" and "512 * unat n \<le> length buf"
    and "\<And>ok d. ready d \<Longrightarrow> fs_ok K (s\<lparr>disk := d\<rparr>) \<Longrightarrow>
      (ok \<Longrightarrow> \<forall>i < unat n. sec d (unat lba + i) = chunk buf i) \<Longrightarrow>
      (\<And>l. l < lba_limit \<Longrightarrow> l < unat lba \<or> unat lba + unat n \<le> l \<Longrightarrow> sec d l = sec (disk s) l) \<Longrightarrow>
      P (f ok (s\<lparr>disk := d\<rparr>))"
  shows "P (case disk_write_lba io lba buf n s of (ok, s) \<Rightarrow> f ok s)"
proof -
  obtain ok d where r: "write_sectors io (disk s) lba buf n = (ok, d)" by (metis surj_pair)
  have k: "K (fs_head s) (disk s)" using assms(1) by (simp add: fs_ok_def)
  have area: "129 \<le> unat lba" "unat lba + unat n \<le> lba_limit"
    using assms(2) by (simp_all add: fs_area_def)
  have law: "ready d \<and> (ok \<longrightarrow> (\<forall>i < unat n. sec d (unat lba + i) = chunk buf i)) \<and>
      (\<forall>l < lba_limit. l < unat lba \<or> unat lba + unat n \<le> l \<longrightarrow> sec d l = sec (disk s) l)"
    by (rule write_law [OF K_ready [OF k] area(2) assms(3) r])
  then have "K (fs_head s) d" using area by (intro K_frame [OF k]) auto
  then have "P (f ok (s\<lparr>disk := d\<rparr>))"
    by (intro assms(4)) (use law assms(1) in \<open>auto intro: fs_ok_disk\<close>)
  then show ?thesis by (simp add: disk_write_lba_def r)
qed

lemmas post_read1 = read1_split [where P = "post Q" for Q]
lemmas post_write = write_split [where P = "post Q" for Q]

lemma post_write_last:
  assumes "fs_ok K s" and "fs_area lba n" and "512 * unat n \<le> length buf"
    and "\<And>ok d. ready d \<Longrightarrow> fs_ok K (s\<lparr>disk := d\<rparr>) \<Longrightarrow>
      (ok \<Longrightarrow> \<forall>i < unat n. sec d (unat lba + i) = chunk buf i) \<Longrightarrow>
      (\<And>l. l < lba_limit \<Longrightarrow> l < unat lba \<or> unat lba + unat n \<le> l \<Longrightarrow> sec d l = sec (disk s) l) \<Longrightarrow>
      Q ok (s\<lparr>disk := d\<rparr>)"
  shows "post Q (disk_write_lba io lba buf n s)"
  using post_write [OF assms(1-3), of Q Pair] assms(4) by (simp add: post_return)

lemma flush_keeps:
  assumes "fs_ok K s"
  shows "post (\<lambda>_. fs_ok K) (flush io s)"
proof -
  have sh: "\<forall>nd \<in> set (g_inodes s). inode_shape nd" and lba: "bitmap_lba (g_sb s) = 129"
      "inode_table_lba (g_sb s) = 137" "length (g_bitmap s) = 4096" "length (g_inodes s) = 64"
    using assms by (auto simp: fs_ok_def mem_inv_def tab_inv_def sb_inv_def in_set_conv_nth)
  show ?thesis
    unfolding flush_def flush_bitmap_def flush_inodes_def Let_def
    by (rule post_write, (simp_all add: assms lba fs_area_def)[3], rule post_if, rule post_return,
        assumption, rule post_write_last)
      (simp_all add: lba fs_area_def length_inodes_bytes [OF sh])
qed

end

sublocale block_device \<subseteq> plain: fs_device io sec ready "\<lambda>_. ready"
  by unfold_locales auto

text \<open>The header and the sectors below 129 as they are.\<close>

definition fixed :: "('d \<Rightarrow> bool) \<Rightarrow> ('d \<Rightarrow> nat \<Rightarrow> u8 list) \<Rightarrow> fs_head \<Rightarrow> (nat \<Rightarrow> u8 list) \<Rightarrow> fs_head \<Rightarrow> 'd \<Rightarrow> bool" where
  "fixed ready sec h0 low h d \<longleftrightarrow> ready d \<and> h = h0 \<and> (\<forall>l < 129. sec d l = low l)"

sublocale block_device \<subseteq> pinned: fs_device io sec ready "fixed ready sec h0 low" for h0 low
  by unfold_locales (auto simp: fixed_def)

end
