(* ===== verification/FsKeep.thy ===== *)
theory FsKeep
  imports FsInv
begin

text \<open>
  Every call of the file system keeps its tables consistent, whatever bytes the directory blocks
  hold and whichever disk commands fail; the removing calls need commands that do not fail, since
  \<^verbatim>\<open>remove_entry_from_dir\<close> frees the block in the bitmap before it knows that the block was
  cleared.
\<close>

lemma block_lba_mark [simp, fs_simps]: "block_lba (mark_block_used b s) i = block_lba s i"
  by (simp add: block_lba_def)

lemma fs_ok_allocI:
  assumes "fs_ok K s" and "inode_at s i = nd" and "ty \<in> {INODE_FILE, INODE_DIR}"
    and "find_free_inode s = Some i \<or> alloc_inode_raw s = Some i"
    and "find_free_block s = Some b \<or> alloc_block_raw s = Some b"
  shows "fs_ok K (set_inode i ((fill_inode ty b nd)\<lparr>isize := n\<rparr>) (mark_block_used b s))"
    and "fs_ok K (set_inode i (fill_inode ty b nd) (mark_block_used b s))"
  using fs_ok_alloc [OF assms(1,3-5)] assms(2) by simp_all

lemma fs_ok_isizeI:
  "fs_ok K s \<Longrightarrow> inode_at s i = nd \<Longrightarrow> i < 64 \<Longrightarrow> fs_ok K (set_inode i (nd\<lparr>isize := n\<rparr>) s)"
  using fs_ok_isize by blast

lemma scan_ranges:
  "find_free_inode s = Some i \<Longrightarrow> i < 64" "alloc_inode_raw s = Some i \<Longrightarrow> i < 64"
  using find_free_inodeD alloc_inode_rawD by blast+

lemma new_block_range:
  "find_free_block s0 = Some b \<Longrightarrow> fs_ok K s0 \<Longrightarrow> g_sb s = g_sb s0 \<Longrightarrow>
   fs_area (data_lba (g_sb s) + of_nat b) 1"
  "alloc_block_raw s0 = Some b \<Longrightarrow> fs_ok K s0 \<Longrightarrow> g_sb s = g_sb s0 \<Longrightarrow>
   fs_area (data_lba (g_sb s) + of_nat b) 1"
  using data_lba_range(2) [of K s0 b] find_free_blockD [of s0 b] alloc_block_rawD [of s0 b] by simp_all

lemma find_dir_entry_range: "find_dir_entry name blk tab ty = Some i \<Longrightarrow> de_inode blk i < 64"
  using find_dir_entry_inode by blast

lemma post_pair: "(\<And>a b. x = (a, b) \<Longrightarrow> post Q (f a b)) \<Longrightarrow> post Q (case x of (a, b) \<Rightarrow> f a b)"
  by (cases x) simp

lemma post_option_triple:
  "(x = None \<Longrightarrow> post Q n) \<Longrightarrow> (\<And>a b c. x = Some (a, b, c) \<Longrightarrow> post Q (f a b c)) \<Longrightarrow>
   post Q (case x of None \<Rightarrow> n | Some (a, b, c) \<Rightarrow> f a b c)"
  by (cases x) auto

context fs_device
begin

lemma ensure_root_keeps:
  assumes ok: "fs_ok K s"
  shows "post (\<lambda>r s'. fs_ok K s') (ensure_root_dir_block io s)"
proof -
  have m: "mem_inv s" using ok by simp
  show ?thesis
  unfolding ensure_root_dir_block_def Let_def
  proof (rule post_if, rule post_return, rule ok, rule post_option, rule post_return, rule ok)
    fix b assume r0: "\<not> direct0 (inode_at s 0) \<noteq> 0"
      and f: "List.find (\<lambda>i. \<not> bm_used (g_bitmap s) i) [1..<block_limit s] = Some b"
    let ?s = "set_inode 0 ((inode_at (mark_block_used b s) 0)\<lparr>direct := (direct (inode_at (mark_block_used b s) 0))[0 := of_nat b]\<rparr>)
       (mark_block_used b s)"
    have sh: "inode_shape (inode_at s 0)" using mem_inv_shape [OF m] by simp
    have "mem_inv ?s"
      by (rule mem_inv_claim [OF m])
        (use find_eq_Some [OF f] block_limit_eq [OF m] mem_inv_root [OF m] sh in
          \<open>auto simp: direct0_def inode_shape_def\<close>)
    with ok have ok': "fs_ok K ?s" by (simp add: fs_ok_def)
    show "post (\<lambda>_. fs_ok K) (case disk_write_lba io (block_lba ?s 0) zero_block 1 ?s of
             (ok, s) \<Rightarrow> if \<not> ok then (False, s) else flush io s)"
      by (rule post_write [OF ok' block_lba_range [OF ok']], simp_all)
        (auto intro: post_return flush_keeps)
  qed
qed

lemma ensure_root_call:
  "fs_ok K s \<Longrightarrow> (\<And>ok s. fs_ok K s \<Longrightarrow> post Q (f ok s)) \<Longrightarrow>
   post Q (case ensure_root_dir_block io s of (ok, s) \<Rightarrow> f ok s)"
  by (rule post_call [OF ensure_root_keeps])

lemmas basic_keeps = ensure_root_call post_read1 post_write flush_keeps post_if post_option_triple
  post_option_pair post_option post_return block_lba_range [where K = K]
  new_block_range [where K = K] fs_ok_allocI fs_ok_isizeI

lemma find_subdir_keeps:
  "fs_ok K s \<Longrightarrow>
   post (\<lambda>r s'. fs_ok K s' \<and> (\<forall>i. r = Some i \<longrightarrow> i < 64)) (find_subdir io nm s)"
  unfolding find_subdir_def Let_def by ((rule basic_keeps | assumption | (simp; fail))+)
lemmas find_subdir_call = post_call [OF find_subdir_keeps]
lemmas keeps = basic_keeps find_subdir_call

lemma fs_create_keeps: "fs_ok K s \<Longrightarrow> post (\<lambda>_. fs_ok K) (fs_create io name s)"
  unfolding fs_create_def Let_def by ((rule basic_keeps | assumption | (simp; fail))+)

lemma fs_mkdir_keeps: "fs_ok K s \<Longrightarrow> post (\<lambda>_. fs_ok K) (fs_mkdir io name s)"
  unfolding fs_mkdir_def Let_def by ((rule basic_keeps | assumption | (simp; fail))+)

lemma claim_file_keeps:
  assumes "fs_ok K s" and "length blk = 512" and "\<And>i. found = Some i \<Longrightarrow> i < 64"
  shows "post (\<lambda>r s'. fs_ok K s' \<and> (\<forall>i b. r = Some (i, b) \<longrightarrow> i < 64 \<and> length b = 512))
    (claim_file blk name found free s)"
  unfolding claim_file_def Let_def
  by ((rule keeps conjI | assumption | erule conjE | (simp add: assms; fail) | (auto dest: scan_ranges simp: assms; fail))+)

lemma write_file_keeps:
  assumes "fs_ok K s" and "dir < 64" "length blk = 512" "i < 64"
  shows "post (\<lambda>_. fs_ok K) (write_file io dir blk i data s)"
  unfolding write_file_def Let_def
  apply ((rule keeps | assumption | erule conjE | (simp add: assms; fail))+)
done

lemmas claim_file_call = post_call [OF claim_file_keeps]

lemma fs_write_keeps: "fs_ok K s \<Longrightarrow> post (\<lambda>_. fs_ok K) (fs_write io name data s)"
  unfolding fs_write_def Let_def
  by ((rule keeps claim_file_call write_file_keeps | assumption | erule conjE | (simp; fail) | (auto dest: write_scan_found; fail))+)

lemma fs_write_path_keeps: "fs_ok K s \<Longrightarrow> post (\<lambda>_. fs_ok K) (fs_write_path io name data s)"
  unfolding fs_write_path_def Let_def
  by ((rule keeps find_subdir_call claim_file_call write_file_keeps fs_write_keeps | assumption | erule conjE | (simp; fail) | (auto dest: write_scan_found; fail))+)

lemma fs_mkdir_path_keeps: "fs_ok K s \<Longrightarrow> post (\<lambda>_. fs_ok K) (fs_mkdir_path io name s)"
  unfolding fs_mkdir_path_def Let_def
  by ((rule keeps fs_mkdir_keeps | assumption | erule conjE | (simp; fail))+)

lemma sys_dir_keeps:
  assumes "fs_ok K s" and "length blk = 512"
  shows "post (\<lambda>r s'. fs_ok K s' \<and> (\<forall>i b. r = Some (i, b) \<longrightarrow> i < 64 \<and> length b = 512))
    (sys_dir_for_write io blk s)"
  unfolding sys_dir_for_write_def Let_def
  by ((rule keeps conjI | assumption | (simp add: assms; fail) | (auto dest: scan_ranges find_dir_entry_range simp: assms; fail))+)
lemmas sys_dir_call = post_call [OF sys_dir_keeps]

lemma sys_file_keeps:
  assumes "fs_ok K s" and "length blk = 512"
  shows "post (\<lambda>r s'. fs_ok K s' \<and> (\<forall>i b. r = Some (i, b) \<longrightarrow> i < 64 \<and> length b = 512))
    (sys_file_for_write name len blk s)"
  unfolding sys_file_for_write_def Let_def
  by ((rule keeps conjI | assumption | (simp add: assms; fail) | (auto dest: scan_ranges find_dir_entry_range simp: assms; fail))+)
lemmas sys_file_call = post_call [OF sys_file_keeps]

lemma read_root_call:
  assumes ok: "fs_ok K s"
    and f: "\<And>ok bs s. fs_ok K s \<Longrightarrow> (ok \<Longrightarrow> length bs = 512) \<Longrightarrow> post Q (f ok bs s)"
  shows "post Q (case read_root_dir_block io s of (ok, bs, s) \<Rightarrow> f ok bs s)"
  using ok f post_read1 [OF ok block_lba_range [OF ok], where i1 = 0, of Q f]
  by (auto simp: read_root_dir_block_def Let_def)

lemma load_dir_call:
  assumes ok: "fs_ok K s"
    and f: "\<And>ok bs s. fs_ok K s \<Longrightarrow> (ok \<Longrightarrow> length bs = 512) \<Longrightarrow> post Q (f ok bs s)"
  shows "post Q (case load_dir_block io i s of (ok, bs, s) \<Rightarrow> f ok bs s)"
  using ok f post_read1 [OF ok block_lba_range [OF ok], where i1 = i, of Q f]
  by (auto simp: load_dir_block_def Let_def)

lemma write_dir_keeps:
  "fs_ok K s \<Longrightarrow> length blk = 512 \<Longrightarrow> post (\<lambda>_. fs_ok K) (write_dir_block io i blk s)"
  unfolding write_dir_block_def Let_def
  by ((rule keeps post_write_last | assumption | (simp; fail))+)
lemmas write_dir_call = post_call [OF write_dir_keeps]

lemma write_sys_file_keeps: "fs_ok K s \<Longrightarrow> post (\<lambda>_. fs_ok K) (write_sys_file io name data len s)"
  unfolding write_sys_file_def Let_def
  by ((rule keeps read_root_call sys_dir_call sys_file_call | assumption | erule conjE | (simp; fail))+)

lemma fs_write_passwd_keeps: "fs_ok K s \<Longrightarrow> post (\<lambda>_. fs_ok K) (fs_write_passwd io h s)"
  unfolding fs_write_passwd_def by (rule write_sys_file_keeps)

lemma read_sys_file_keeps: "fs_ok K s \<Longrightarrow> post (\<lambda>_. fs_ok K) (read_sys_file io name n s)"
  unfolding read_sys_file_def Let_def
  by ((rule keeps | assumption | (simp; fail))+)
lemmas read_sys_call = post_call [OF read_sys_file_keeps]

lemma fs_read_passwd_keeps: "fs_ok K s \<Longrightarrow> post (\<lambda>_. fs_ok K) (fs_read_passwd io s)"
  unfolding fs_read_passwd_def Let_def
  by ((rule keeps read_sys_call | assumption | (simp; fail))+)

lemma fs_list_root_keeps: "fs_ok K s \<Longrightarrow> post (\<lambda>_. fs_ok K) (fs_list_root io n s)"
  unfolding fs_list_root_def Let_def
  by ((rule keeps | assumption | (simp; fail))+)

lemma fs_list_dir_keeps: "fs_ok K s \<Longrightarrow> post (\<lambda>_. fs_ok K) (fs_list_dir io nm n s)"
  unfolding fs_list_dir_def Let_def
  by ((rule keeps | assumption | erule conjE | (simp; fail))+)

lemma fs_is_dir_keeps: "fs_ok K s \<Longrightarrow> post (\<lambda>_. fs_ok K) (fs_is_dir io p s)"
  unfolding fs_is_dir_def Let_def
  by ((rule keeps | assumption | erule conjE | (simp; fail))+)

lemma fs_read_keeps: "fs_ok K s \<Longrightarrow> post (\<lambda>_. fs_ok K) (fs_read io nm n s)"
  unfolding fs_read_def Let_def
  by ((rule keeps | assumption | (simp; fail) | (auto dest: find_dir_entry_range; fail))+)

lemma fs_read_path_keeps: "fs_ok K s \<Longrightarrow> post (\<lambda>_. fs_ok K) (fs_read_path io nm n s)"
  unfolding fs_read_path_def Let_def
  by ((rule keeps fs_read_keeps | assumption | erule conjE | (simp; fail) | (auto dest: find_dir_entry_range; fail))+)

lemma copy_source_keeps:
  "fs_ok K s \<Longrightarrow> post (\<lambda>r s'. fs_ok K s' \<and> (\<forall>i. r = Some i \<longrightarrow> i < 64)) (copy_source io nm s)"
  unfolding copy_source_def Let_def
  by ((rule keeps conjI | assumption | (simp; fail) | (auto dest: find_dir_entry_range; fail))+)
lemmas copy_source_call = post_call [OF copy_source_keeps]

lemma copy_target_keeps:
  "fs_ok K s \<Longrightarrow> post (\<lambda>r s'. fs_ok K s' \<and> (\<forall>i b. r = Some (i, b) \<longrightarrow> i < 64)) (copy_target io nm nm' s)"
  unfolding copy_target_def Let_def
  by ((rule keeps conjI | assumption | (simp; fail) | (auto dest: find_dir_entry_range; fail))+)
lemmas copy_target_call = post_call [OF copy_target_keeps]

lemma claim_copy_keeps:
  assumes "fs_ok K s" and "length blk = 512" and "\<And>i. found = Some i \<Longrightarrow> i < 64"
  shows "post (\<lambda>r s'. fs_ok K s' \<and> (\<forall>i b. r = Some (i, b) \<longrightarrow> i < 64 \<and> length b = 512))
    (claim_copy blk name n found free s)"
  unfolding claim_copy_def Let_def
  by ((rule keeps conjI | assumption | (simp add: assms; fail) | (auto dest: scan_ranges simp: assms; fail))+)
lemmas claim_copy_call = post_call [OF claim_copy_keeps]

lemma fs_copy_path_keeps: "fs_ok K s \<Longrightarrow> post (\<lambda>_. fs_ok K) (fs_copy_path io a b s)"
  unfolding fs_copy_path_def Let_def
  by ((rule keeps copy_source_call copy_target_call claim_copy_call | assumption | erule conjE | (simp; fail)
      | (auto dest: copy_scan_found; fail) | rule post_pair)+)

lemma rename_dir_keeps: "fs_ok K s \<Longrightarrow> post (\<lambda>_. fs_ok K) (rename_dir io nm s)"
  unfolding rename_dir_def Let_def
  by ((rule keeps load_dir_call | assumption | (simp; fail))+)
lemmas rename_dir_call = post_call [OF rename_dir_keeps]

lemma rename_source_keeps: "fs_ok K s \<Longrightarrow> post (\<lambda>_. fs_ok K) (rename_source io nm s)"
  unfolding rename_source_def Let_def
  by ((rule keeps rename_dir_call | assumption | (simp; fail))+)
lemmas rename_source_call = post_call [OF rename_source_keeps]

lemma rename_target_keeps: "fs_ok K s \<Longrightarrow> post (\<lambda>_. fs_ok K) (rename_target io nm nm' s)"
  unfolding rename_target_def Let_def
  by ((rule keeps rename_dir_call load_dir_call | assumption | (simp; fail))+)
lemmas rename_target_call = post_call [OF rename_target_keeps]

lemma fs_rename_keeps: "fs_ok K s \<Longrightarrow> post (\<lambda>_. fs_ok K) (fs_rename io a b s)"
  unfolding fs_rename_def Let_def
  by ((rule keeps rename_source_call rename_target_call load_dir_call write_dir_call write_dir_keeps
     | assumption | (simp; fail))+)
end

section \<open>Removing\<close>

locale reliable_fs = fs_device + reliable_disk
begin

lemma release_split:
  assumes ok: "fs_ok K s" and i: "0 < i" "i < 64"
    and f: "\<And>s'. fs_ok K (set_inode i zero_inode s') \<Longrightarrow> P (f True s')"
  shows "P (case release_block io i s of (ok, s) \<Rightarrow> f ok s)"
proof (cases "direct0 (inode_at s i) = 0")
  case True
  with f [of s] mem_inv_release(2) [OF _ i True] ok show ?thesis
    by (simp add: release_block_def fs_ok_def)
next
  case False
  let ?b = "direct0 (inode_at s i)" and ?s = "mark_block_free (unat (direct0 (inode_at s i))) s"
  have m: "mem_inv s" and k: "K (fs_head s) (disk s)" using ok by (simp_all add: fs_ok_def)
  have lt: "?b < block_count (g_sb s)" using mem_inv_block [OF m i(2)] by (simp add: word_less_nat_alt)
  have area: "129 \<le> unat (data_lba (g_sb s) + ?b)"
      "unat (data_lba (g_sb s) + ?b) + unat (1 :: u32) \<le> lba_limit"
    using block_lba_range [OF ok i(2)] by (simp_all add: block_lba_def fs_area_def)
  have len: "512 * unat (1 :: u32) \<le> length zero_block" by simp
  obtain ok' d where w: "write_sectors io (disk s) (data_lba (g_sb s) + ?b) zero_block 1 = (ok', d)"
    by (metis surj_pair)
  have ok': "ok'" using write_total [OF K_ready [OF k] area(2) len] w by simp
  have "ready d \<and> (\<forall>l < lba_limit. l < unat (data_lba (g_sb s) + ?b) \<longrightarrow> sec d l = sec (disk s) l)"
    using write_law [OF K_ready [OF k] area(2) len w] by simp
  then have "K (fs_head s) d" using area by (intro K_frame [OF k]) auto
  then have "fs_ok K (set_inode i zero_inode (?s\<lparr>disk := d\<rparr>))"
    using mem_inv_release(1) [OF m i] by (simp add: set_inode_disk fs_ok_def)
  then show ?thesis
    using f [of "?s\<lparr>disk := d\<rparr>"] False lt w ok'
    by (simp add: release_block_def Let_def disk_write_lba_def)
qed

lemmas release_call = release_split [where P = "post Q" for Q]

lemmas removes = keeps release_call

lemma remove_entry_keeps:
  assumes "fs_ok K s" and "dir < 64"
  shows "post (\<lambda>_. fs_ok K) (remove_entry_from_dir io dir name s)"
  unfolding remove_entry_from_dir_def Let_def
  by ((rule removes | assumption | (simp add: assms; fail) | (auto dest: remove_scan_found simp: assms; fail))+)

lemmas opost_rules = opost_None opost_if opost_option release_split [where P = "opost Q" for Q]
  read1_split [where P = "opost Q" for Q] write_split [where P = "opost Q" for Q] opost_Some post_return block_lba_range [where K = K]

lemma remove_entries_keeps:
  assumes dirs: "\<And>dir s. fs_ok K s \<Longrightarrow> opost (\<lambda>_. fs_ok K) (remove_dir_contents fuel io dir s)"
  shows "fs_ok K s \<Longrightarrow> length blk = 512 \<Longrightarrow>
    opost (\<lambda>r s'. fs_ok K s' \<and> (\<forall>b. r = Some b \<longrightarrow> length b = 512)) (remove_entries fuel io is blk s)"
proof (induction "is" arbitrary: blk s)
  case Nil
  then show ?case by (simp add: opost_def post_def)
next
  case (Cons i "is")
  show ?case
    unfolding remove_entries.simps Let_def
    by ((rule Cons.IH opost_if opost_call [where R = "\<lambda>_. fs_ok K"] dirs opost_rules
       | assumption | (simp add: Cons.prems; fail))+)
qed

lemma remove_dir_keeps:
  "fs_ok K s \<Longrightarrow> opost (\<lambda>_. fs_ok K) (remove_dir_contents fuel io dir s)"
proof (induction fuel arbitrary: dir s)
  case 0
  show ?case by (simp add: opost_None)
next
  case (Suc fuel)
  show ?case
    unfolding remove_dir_contents.simps Let_def
    by ((rule opost_rules opost_call [OF remove_entries_keeps [OF Suc.IH]] post_write_last
       | assumption | erule conjE | (simp add: Suc.prems; fail))+)
qed

lemma remove_recursive_keeps:
  "fs_ok K s \<Longrightarrow> dir < 64 \<Longrightarrow>
   opost (\<lambda>_. fs_ok K) (remove_entry_from_dir_recursive fuel io dir name s)"
  unfolding remove_entry_from_dir_recursive_def Let_def
  by ((rule opost_call [where R = "\<lambda>_. fs_ok K"] opost_rules remove_dir_keeps flush_keeps
      | assumption | (simp; fail))+)

lemma fs_remove_keeps: "fs_ok K s \<Longrightarrow> post (\<lambda>_. fs_ok K) (fs_remove io name s)"
  unfolding fs_remove_def
  by ((rule removes remove_entry_keeps | assumption | (simp; fail))+)

lemma fs_remove_path_keeps: "fs_ok K s \<Longrightarrow> post (\<lambda>_. fs_ok K) (fs_remove_path io name s)"
  unfolding fs_remove_path_def Let_def
  by ((rule removes remove_entry_keeps fs_remove_keeps | assumption | erule conjE | (simp; fail))+)

lemma find_subdir_ocall:
  "fs_ok K s \<Longrightarrow> (\<And>r s. fs_ok K s \<Longrightarrow> (\<And>i. r = Some i \<Longrightarrow> i < 64) \<Longrightarrow> opost Q (f r s)) \<Longrightarrow>
   opost Q (case find_subdir io nm s of (r, s) \<Rightarrow> f r s)"
  using find_subdir_keeps [of s nm] by (cases "find_subdir io nm s") (auto simp: post_def)

lemma fs_remove_path_recursive_keeps:
  "fs_ok K s \<Longrightarrow> opost (\<lambda>_. fs_ok K) (fs_remove_path_recursive fuel io name s)"
  unfolding fs_remove_path_recursive_def Let_def
  by ((rule find_subdir_ocall opost_rules remove_recursive_keeps | assumption | (simp; fail))+)

end

end
