(* ===== verification/FsSession.thy ===== *)
theory FsSession
  imports FsKeep
begin

text \<open>
  Formatting establishes the consistency of the tables and writes the superblock; the calls of the
  interface as a datatype, sessions as sequences of calls, and what a session keeps on a device whose commands may
  fail: the tables in memory, the header if it does not format, and the sectors below the file system.
\<close>

section \<open>Formatting\<close>

definition super_synced :: "('d \<Rightarrow> bool) \<Rightarrow> ('d \<Rightarrow> nat \<Rightarrow> u8 list) \<Rightarrow> fs_head \<Rightarrow> 'd \<Rightarrow> bool" where
  "super_synced ready sec h d \<longleftrightarrow> ready d \<and> sec d 128 = sb_bytes (fst h) @ fst (snd h) \<and>
     magic (fst h) = FS_MAGIC \<and> block_size (fst h) = FS_BLOCK_SIZE"

text \<open>A header on disk, over the boot sectors \<open>low\<close>.\<close>

definition boot_synced :: "('d \<Rightarrow> bool) \<Rightarrow> ('d \<Rightarrow> nat \<Rightarrow> u8 list) \<Rightarrow> (nat \<Rightarrow> u8 list) \<Rightarrow> fs_head \<Rightarrow> 'd \<Rightarrow> bool" where
  "boot_synced ready sec low h d \<longleftrightarrow> super_synced ready sec h d \<and> (\<forall>l < 128. sec d l = low l)"

definition boot_kept :: "('d \<Rightarrow> bool) \<Rightarrow> ('d \<Rightarrow> nat \<Rightarrow> u8 list) \<Rightarrow> (nat \<Rightarrow> u8 list) \<Rightarrow> fs_head \<Rightarrow> 'd \<Rightarrow> bool" where
  "boot_kept ready sec low h d \<longleftrightarrow> ready d \<and> (\<forall>l < 128. sec d l = low l)"

sublocale reliable_disk \<subseteq> rplain: reliable_fs io sec ready "\<lambda>_. ready"
  by unfold_locales

sublocale reliable_disk \<subseteq> rpinned: reliable_fs io sec ready "fixed ready sec h0 low" for h0 low
  by unfold_locales

sublocale block_device \<subseteq> super: fs_device io sec ready "boot_synced ready sec low" for low
  by unfold_locales (auto simp: boot_synced_def super_synced_def)

context block_device
begin

lemma plain_write_split:
  assumes "fs_ok (\<lambda>_. ready) s" and "unat lba + unat n \<le> lba_limit" and "512 * unat n \<le> length buf"
    and "\<And>ok d. ready d \<Longrightarrow> fs_ok (\<lambda>_. ready) (s\<lparr>disk := d\<rparr>) \<Longrightarrow>
      (\<forall>l < unat lba. sec d l = sec (disk s) l) \<Longrightarrow> (ok \<Longrightarrow> \<forall>i < unat n. sec d (unat lba + i) = chunk buf i) \<Longrightarrow> P (f ok (s\<lparr>disk := d\<rparr>))"
  shows "P (case disk_write_lba io lba buf n s of (ok, s) \<Rightarrow> f ok s)"
proof -
  obtain ok d where r: "write_sectors io (disk s) lba buf n = (ok, d)" by (metis surj_pair)
  have k: "ready (disk s)" using assms(1) by (simp add: fs_ok_def)
  have law: "ready d \<and> (ok \<longrightarrow> (\<forall>i < unat n. sec d (unat lba + i) = chunk buf i)) \<and>
      (\<forall>l < unat lba. sec d l = sec (disk s) l)"
    using write_law [OF k assms(2,3) r] assms(2) by auto
  then have "P (f ok (s\<lparr>disk := d\<rparr>))"
    by (intro assms(4)) (use assms(1) in \<open>auto intro: fs_ok_disk\<close>)
  then show ?thesis by (simp add: disk_write_lba_def r)
qed

lemma format_blocks_range:
  assumes "ready (disk s)"
  shows "case format_blocks io n s of (c, s') \<Rightarrow> \<exists>d. s' = s\<lparr>disk := d\<rparr> \<and> ready d \<and>
    sec d = sec (disk s) \<and> 0 < unat c \<and> unat c \<le> max_blocks"
proof -
  obtain r d where g: "get_sector_count io (disk s) = (r, d)" by (metis surj_pair)
  then have d: "ready d" "sec d = sec (disk s)" using count_law [OF assms g] by auto
  have cast: "unat (ucast (x :: u64) :: u32) = unat x" if "x \<le> 32768" for x
  proof -
    have "unat x \<le> 32768" using that by (simp add: word_le_nat_alt)
    then show ?thesis by (simp add: unsigned_ucast_eq take_bit_nat_eq_self)
  qed
  show ?thesis
  proof (cases "n = 0")
    case True
    have "0 < unat (ucast (x - 145) :: u32)" "unat (ucast (x - 145) :: u32) \<le> 32768"
      if "145 < (x :: u64)" "x - 145 \<le> 32768" for x
      using that cast [of "x - 145"] by (auto simp: word_le_nat_alt unat_gt_0)
    then show ?thesis
      using True d by (cases r) (auto simp: format_blocks_def g Let_def not_less)
  next
    case False
    then have "s = s\<lparr>disk := disk s\<rparr> \<and> ready (disk s) \<and> 0 < unat n" using assms by (simp add: unat_gt_0)
    then show ?thesis using False 
      by (auto simp: format_blocks_def word_less_nat_alt not_less simp del: unat_gt_0 intro!: exI [of _ "disk s"])
  qed
qed

lemma tab_inv_fresh:
  assumes "0 < n"
  shows "tab_inv ((replicate 64 zero_inode)[0 := zero_inode\<lparr>used := 1, itype := INODE_DIR, links := 1\<rparr>]) bm n"
proof -
  let ?r = "zero_inode\<lparr>used := 1, itype := INODE_DIR, links := 1\<rparr>"
  have nth: "((replicate 64 zero_inode)[0 := ?r]) ! i = (if i = 0 then ?r else zero_inode)" if "i < 64" for i
    using that nth_list_update [of 0 "replicate 64 zero_inode" ?r i] by simp
  have "direct0 ?r = 0" "inode_shape ?r" by (simp_all add: direct0_def zero_inode_def inode_shape_def)
  then show ?thesis using assms by (simp add: tab_inv_def nth)
qed

lemma write_super:
  assumes "fs_ok (fixed ready sec h (sec d0)) s"
    and "magic (fst h) = FS_MAGIC" "block_size (fst h) = FS_BLOCK_SIZE"
    and f: "\<And>ok s'. fs_ok (boot_kept ready sec (sec d0)) s' \<Longrightarrow> (ok \<Longrightarrow> fs_ok (boot_synced ready sec (sec d0)) s') \<Longrightarrow> post Q (f ok s')"
  shows "post Q (case disk_write_lba io FS_SUPER_LBA (sb_bytes (g_sb s) @ g_sb_pad s) 1 s of (ok, s) \<Rightarrow> f ok s)"
proof -
  let ?buf = "sb_bytes (g_sb s) @ g_sb_pad s"
  have len: "length ?buf = 512" using assms(1) by (simp add: fs_ok_def mem_inv_def)
  have plain: "fs_ok (\<lambda>_. ready) s" and h: "fs_head s = h" using assms(1) by (auto simp: fs_ok_def fixed_def)
  show ?thesis
  proof (rule plain_write_split [OF plain])
    fix ok d
    assume d: "fs_ok (\<lambda>_. ready) (s\<lparr>disk := d\<rparr>)"
      and l: "\<forall>l < unat FS_SUPER_LBA. sec d l = sec (disk s) l" and w: "ok \<Longrightarrow> \<forall>i < unat (1 :: u32). sec d (unat FS_SUPER_LBA + i) = chunk ?buf i"
    have "sec d 128 = ?buf" if ok using w [OF that] chunk_0 [OF len] by simp
    moreover have "\<forall>l < 128. sec d l = sec d0 l" using l assms(1) by (simp add: fs_ok_def fixed_def)
    ultimately show "post Q (f ok (s\<lparr>disk := d\<rparr>))"
      using d h assms(2,3) by (intro f) (auto simp: fs_ok_def boot_synced_def boot_kept_def super_synced_def fs_head_def)
  qed (use len in simp_all)
qed

lemma super_plain: "fs_ok (boot_synced ready sec low) s \<Longrightarrow> fs_ok (boot_kept ready sec low) s"
  by (simp add: fs_ok_def boot_kept_def boot_synced_def super_synced_def)

lemma flush_parts:
  assumes "fs_ok (boot_synced ready sec low) s"
  shows "post (\<lambda>_. fs_ok (boot_synced ready sec low)) (flush_bitmap io s)"
    and "post (\<lambda>_. fs_ok (boot_synced ready sec low)) (flush_inodes io s)"
proof -
  have sh: "\<forall>nd \<in> set (g_inodes s). inode_shape nd" and lba: "bitmap_lba (g_sb s) = 129"
      "inode_table_lba (g_sb s) = 137" "length (g_bitmap s) = 4096" "length (g_inodes s) = 64"
    using assms by (auto simp: fs_ok_def mem_inv_def tab_inv_def sb_inv_def in_set_conv_nth)
  show "post (\<lambda>_. fs_ok (boot_synced ready sec low)) (flush_bitmap io s)"
    unfolding flush_bitmap_def by (rule super.post_write_last [OF assms]) (simp_all add: lba fs_area_def)
  show "post (\<lambda>_. fs_ok (boot_synced ready sec low)) (flush_inodes io s)"
    unfolding flush_inodes_def by (rule super.post_write_last [OF assms])
      (simp_all add: lba fs_area_def length_inodes_bytes [OF sh])
qed

lemmas flush_parts_call = post_call [OF flush_parts(1)] post_call [OF flush_parts(2)]

lemma status_call: "fs_ok (boot_synced ready sec low) s \<Longrightarrow>
   (\<And>ok s'. fs_ok (boot_synced ready sec low) s' \<Longrightarrow> post Q (f ok s')) \<Longrightarrow>
   post Q (case write_status_flag io v s of (ok, s) \<Rightarrow> f ok s)"
  unfolding write_status_flag_def by (rule post_call [OF super.write_sys_file_keeps])

lemma fs_format_keeps:
  assumes "ready (disk s)" and "length (g_sb_pad s) = 480" and "length (g_bitmap s) = 4096"
  shows "post (\<lambda>ok s'. fs_ok (boot_kept ready sec (sec (disk s))) s' \<and> (ok \<longrightarrow> fs_ok (boot_synced ready sec (sec (disk s))) s' \<and> g_mounted s'))
    (fs_format io n m s)"
proof -
  obtain c s1 where fb: "format_blocks io n s = (c, s1)" by (metis surj_pair)
  obtain d where s1: "s1 = s\<lparr>disk := d\<rparr>" "ready d" "sec d = sec (disk s)" "0 < unat c" "unat c \<le> max_blocks"
    using format_blocks_range [OF assms(1), of n] fb by auto
  let ?m = "if of_nat FS_MAX_INODES < m then of_nat FS_MAX_INODES else m"
  let ?sb = "\<lparr>magic = FS_MAGIC, version = FS_VERSION, block_size = FS_BLOCK_SIZE,
                  inode_count = ?m, block_count = c,
                  inode_table_lba = FS_INODE_TABLE_LBA, bitmap_lba = FS_BITMAP_LBA,
                  data_lba = FS_DATA_LBA\<rparr>"
  let ?s = "set_inode 0 (zero_inode\<lparr>used := 1, itype := INODE_DIR, links := 1\<rparr>)
    (s\<lparr>disk := d, g_sb := ?sb, g_bitmap := mem_set (g_bitmap s) 0 0 4096, g_inodes := replicate 64 zero_inode\<rparr>)"
  have ok: "fs_ok (fixed ready sec (fs_head ?s) (sec (disk s))) ?s"
    using s1 assms by (simp add: fs_ok_def mem_inv_def set_inode_def tab_inv_fresh sb_inv_def fixed_def)
  have final: "fs_ok (boot_synced ready sec (sec (disk s))) s' \<Longrightarrow>
    fs_ok (boot_kept ready sec (sec (disk s))) (s'\<lparr>g_last_error := FS_ERR_NONE, g_mounted := True\<rparr>) \<and>
    fs_ok (boot_synced ready sec (sec (disk s))) (s'\<lparr>g_last_error := FS_ERR_NONE, g_mounted := True\<rparr>)" for s'
    by (simp add: fs_ok_def boot_kept_def boot_synced_def super_synced_def fs_head_def mem_inv_def)
  show ?thesis
    unfolding fs_format_def Let_def fb prod.case s1(1)
    apply (rule pinned.ensure_root_call [where ?h0.0 = "fs_head ?s" and low = "sec (disk s)"])
     apply (use ok in simp)
    apply (rule post_if)
    apply (simp add: fs_ok_def fixed_def boot_kept_def post_def)
    apply (rule write_super, assumption, (simp_all add: fs_head_def set_inode_def)[2])
    apply ((rule post_if flush_parts_call status_call post_call [OF super.write_sys_file_keeps] | assumption | (simp add: post_return super_plain final; fail))+)
    done
qed
end

section \<open>Calls that only look\<close>

text \<open>A state that differs from another at most in that the device has been read.\<close>

definition looked :: "('d \<Rightarrow> bool) \<Rightarrow> ('d \<Rightarrow> nat \<Rightarrow> u8 list) \<Rightarrow> 'd fs \<Rightarrow> 'd fs \<Rightarrow> bool" where
  "looked ready sec s0 s \<longleftrightarrow> (\<exists>d. s = s0\<lparr>disk := d\<rparr> \<and> ready d \<and> sec d = sec (disk s0))"

lemma looked_refl: "ready (disk s) \<Longrightarrow> looked ready sec s s"
  unfolding looked_def by (rule exI [of _ "disk s"]) simp

lemma lookedD:
  assumes "looked ready sec s0 s"
  shows "g_sb s = g_sb s0" "g_sb_pad s = g_sb_pad s0" "g_bitmap s = g_bitmap s0" "g_inodes s = g_inodes s0"
    "g_mounted s = g_mounted s0" "fs_head s = fs_head s0" "mem_inv s = mem_inv s0"
    "ready (disk s)" "sec (disk s) = sec (disk s0)"
  using assms by (auto simp: looked_def fs_head_def mem_inv_def)

context block_device
begin

lemma look_read:
  assumes "looked ready sec s0 s" and "\<And>ok bs s'. looked ready sec s0 s' \<Longrightarrow> post Q (f ok bs s')"
  shows "post Q (case disk_read_lba io lba n s of (ok, bs, s) \<Rightarrow> f ok bs s)"
proof -
  obtain ok bs d where r: "read_sectors io (disk s) lba n = (ok, bs, d)" by (metis prod_cases3)
  have "ready d \<and> sec d = sec (disk s)" using read_frame [OF lookedD(8) [OF assms(1)] r] .
  then have "looked ready sec s0 (s\<lparr>disk := d\<rparr>)" using assms(1) by (auto simp: looked_def)
  then show ?thesis by (simp add: disk_read_lba_def r assms(2))
qed

lemma look_return: "looked ready sec s0 s \<Longrightarrow> post (\<lambda>_. looked ready sec s0) (a, s)"
  by (simp add: post_return)

lemma look_option_some: "(\<And>y. post Q (f y)) \<Longrightarrow> post Q n \<Longrightarrow> post Q (case x of None \<Rightarrow> n | Some y \<Rightarrow> f y)"
  by (cases x) auto

lemmas looks = look_return look_read look_option_some post_if

lemma find_subdir_looks: "looked ready sec s0 s \<Longrightarrow> post (\<lambda>_. looked ready sec s0) (find_subdir io n s)"
  unfolding find_subdir_def Let_def by ((rule looks | assumption)+)

lemma read_sys_looks: "looked ready sec s0 s \<Longrightarrow> post (\<lambda>_. looked ready sec s0) (read_sys_file io n k s)"
  unfolding read_sys_file_def Let_def by ((rule looks | assumption)+)

lemmas look_calls = looks post_call [OF find_subdir_looks] post_call [OF read_sys_looks]

lemma list_root_looks: "looked ready sec s0 s \<Longrightarrow> post (\<lambda>_. looked ready sec s0) (fs_list_root io n s)"
  unfolding fs_list_root_def Let_def by ((rule look_calls | assumption)+)

lemma list_dir_looks: "looked ready sec s0 s \<Longrightarrow> post (\<lambda>_. looked ready sec s0) (fs_list_dir io d n s)"
  unfolding fs_list_dir_def Let_def by ((rule look_calls | assumption)+)

lemma is_dir_looks: "looked ready sec s0 s \<Longrightarrow> post (\<lambda>_. looked ready sec s0) (fs_is_dir io p s)"
  unfolding fs_is_dir_def Let_def by ((rule look_calls | assumption)+)

lemma read_looks: "looked ready sec s0 s \<Longrightarrow> post (\<lambda>_. looked ready sec s0) (fs_read io p n s)"
  unfolding fs_read_def Let_def by ((rule look_calls | assumption)+)

lemma read_path_looks: "looked ready sec s0 s \<Longrightarrow> post (\<lambda>_. looked ready sec s0) (fs_read_path io p n s)"
  unfolding fs_read_path_def Let_def by ((rule look_calls read_looks | assumption)+)

lemma read_passwd_looks: "looked ready sec s0 s \<Longrightarrow> post (\<lambda>_. looked ready sec s0) (fs_read_passwd io s)"
  unfolding fs_read_passwd_def Let_def by ((rule look_calls | assumption)+)

lemma is_formatted_looks: "looked ready sec s0 s \<Longrightarrow> post (\<lambda>_. looked ready sec s0) (fs_is_formatted io s)"
  unfolding fs_is_formatted_def Let_def by ((rule look_calls | assumption)+)

lemma disk_bytes_looks: "looked ready sec s0 s \<Longrightarrow> post (\<lambda>_. looked ready sec s0) (fs_get_disk_bytes io s)"
proof -
  assume l: "looked ready sec s0 s"
  obtain r d where g: "get_sector_count io (disk s) = (r, d)" by (metis surj_pair)
  have "ready d \<and> sec d = sec (disk s)" using count_law [OF lookedD(8) [OF l] g] .
  then have "looked ready sec s0 (s\<lparr>disk := d\<rparr>)" using l by (auto simp: looked_def)
  then show ?thesis by (auto simp: fs_get_disk_bytes_def g post_def Let_def split: option.splits)
qed

end

section \<open>Sessions\<close>

text \<open>The calls of \<^verbatim>\<open>filesystem.h\<close>, and what one does to the state. The depth of the recursive removal is the
  number of inodes, which is enough where the tables are consistent (theory \<open>FsRecursive\<close>). \<open>Usage\<close> is
  \<^verbatim>\<open>fs_get_usage\<close>; \<open>DiskBytes\<close> is \<^verbatim>\<open>fs_get_disk_bytes\<close>, and \<^verbatim>\<open>getMB\<close>, which only calls it.\<close>

datatype fs_call =
    Create "u8 list option"
  | Mkdir "u8 list option"
  | MkdirPath "u8 list option"
  | Write "u8 list option" "u8 list option"
  | WritePath "u8 list option" "u8 list option"
  | CopyPath "u8 list option" "u8 list option"
  | Rename "u8 list option" "u8 list option"
  | WritePasswd u32
  | ListRoot u32
  | ListDir "u8 list" u32
  | IsDir "u8 list option"
  | Read "u8 list option" u32
  | ReadPath "u8 list option" u32
  | ReadPasswd
  | IsFormatted
  | DiskBytes
  | Usage
  | Remove "u8 list option"
  | RemovePath "u8 list option"
  | RemoveRecursive "u8 list option"
  | Format u32 u32
  | Init

fun run_call :: "'d disk_ops \<Rightarrow> fs_call \<Rightarrow> 'd fs \<Rightarrow> 'd fs option" where
  "run_call io (Create a) s = Some (snd (fs_create io a s))"
| "run_call io (Mkdir a) s = Some (snd (fs_mkdir io a s))"
| "run_call io (MkdirPath a) s = Some (snd (fs_mkdir_path io a s))"
| "run_call io (Write a b) s = Some (snd (fs_write io a b s))"
| "run_call io (WritePath a b) s = Some (snd (fs_write_path io a b s))"
| "run_call io (CopyPath a b) s = Some (snd (fs_copy_path io a b s))"
| "run_call io (Rename a b) s = Some (snd (fs_rename io a b s))"
| "run_call io (WritePasswd h) s = Some (snd (fs_write_passwd io h s))"
| "run_call io (ListRoot n) s = Some (snd (fs_list_root io n s))"
| "run_call io (ListDir a n) s = Some (snd (fs_list_dir io a n s))"
| "run_call io (IsDir a) s = Some (snd (fs_is_dir io a s))"
| "run_call io (Read a n) s = Some (snd (fs_read io a n s))"
| "run_call io (ReadPath a n) s = Some (snd (fs_read_path io a n s))"
| "run_call io ReadPasswd s = Some (snd (fs_read_passwd io s))"
| "run_call io IsFormatted s = Some (snd (fs_is_formatted io s))"
| "run_call io DiskBytes s = Some (snd (fs_get_disk_bytes io s))"
| "run_call io Usage s = Some s"
| "run_call io (Remove a) s = Some (snd (fs_remove io a s))"
| "run_call io (RemovePath a) s = Some (snd (fs_remove_path io a s))"
| "run_call io (RemoveRecursive a) s = map_option snd (fs_remove_path_recursive FS_MAX_INODES io a s)"
| "run_call io (Format n m) s = Some (snd (fs_format io n m s))"
| "run_call io Init s = Some (snd (fs_init io s))"

fun removes_call :: "fs_call \<Rightarrow> bool" where
  "removes_call (Remove _) = True"
| "removes_call (RemovePath _) = True"
| "removes_call (RemoveRecursive _) = True"
| "removes_call _ = False"

fun formats_call :: "fs_call \<Rightarrow> bool" where
  "formats_call (Format _ _) = True"
| "formats_call _ = False"

fun looks_call :: "fs_call \<Rightarrow> bool" where
  "looks_call (ListRoot _) = True"
| "looks_call (ListDir _ _) = True"
| "looks_call (IsDir _) = True"
| "looks_call (Read _ _) = True"
| "looks_call (ReadPath _ _) = True"
| "looks_call ReadPasswd = True"
| "looks_call IsFormatted = True"
| "looks_call DiskBytes = True"
| "looks_call Usage = True"
| "looks_call _ = False"

text \<open>Neither mounting nor formatting.\<close>

definition plain_call :: "fs_call \<Rightarrow> bool" where
  "plain_call c \<longleftrightarrow> c \<noteq> Init \<and> \<not> formats_call c"

text \<open>Sessions: the states reached from \<open>s\<close> by calls each of which is allowed where it is made.\<close>

inductive fs_session :: "'d disk_ops \<Rightarrow> (fs_call \<Rightarrow> 'd fs \<Rightarrow> bool) \<Rightarrow> 'd fs \<Rightarrow> 'd fs \<Rightarrow> bool"
  for io :: "'d disk_ops" and allowed :: "fs_call \<Rightarrow> 'd fs \<Rightarrow> bool" where
  session_start: "fs_session io allowed s s"
| session_call: "fs_session io allowed s s' \<Longrightarrow> allowed c s' \<Longrightarrow> run_call io c s' = Some s'' \<Longrightarrow> fs_session io allowed s s''"

lemma post_snd: "post (\<lambda>_. fs_ok K) r \<Longrightarrow> fs_ok K (snd r)"
  by (cases r) (simp add: post_def)

lemma post_snd_looked: "post (\<lambda>_. looked ready sec s) r \<Longrightarrow> looked ready sec s (snd r)"
  by (cases r) (simp add: post_def)

lemma opost_snd: "opost (\<lambda>_. fs_ok K) r \<Longrightarrow> map_option snd r = Some s \<Longrightarrow> fs_ok K s"
  by (auto simp: post_def opost_def)

lemma session_mono:
  "fs_session io A s s' \<Longrightarrow> (\<And>c s. A c s \<Longrightarrow> B c s) \<Longrightarrow> fs_session io B s s'"
  by (induction rule: fs_session.induct) (auto intro: session_start session_call)

context block_device
begin

lemma run_look:
  assumes "looks_call c" and "ready (disk s)"
  shows "\<exists>s'. run_call io c s = Some s' \<and> looked ready sec s s'"
proof -
  have "looked ready sec s s" by (rule looked_refl) (rule assms(2))
  with assms(1) show ?thesis
    by (cases c) (auto intro: post_snd_looked list_root_looks list_dir_looks is_dir_looks read_looks read_path_looks
      read_passwd_looks is_formatted_looks disk_bytes_looks)
qed

end

context fs_device
begin

lemma looked_ok: "looked ready sec s s' \<Longrightarrow> fs_ok K s \<Longrightarrow> fs_ok K s'"
  by (auto simp: fs_ok_def lookedD intro: K_read)

lemma run_call_keeps:
  assumes "fs_ok K s" "run_call io c s = Some s'" "\<not> removes_call c" "plain_call c"
  shows "fs_ok K s'"
proof (cases "looks_call c")
  case True
  have "ready (disk s)" using assms(1) unfolding fs_ok_def by (blast intro: K_ready)
  from run_look [OF True this] assms(2) show ?thesis by (auto intro: looked_ok [OF _ assms(1)])
next
  case False
  then show ?thesis
    using assms
    by (cases c) (auto simp: plain_call_def intro: post_snd fs_create_keeps fs_mkdir_keeps fs_mkdir_path_keeps fs_write_keeps
      fs_write_path_keeps fs_copy_path_keeps fs_rename_keeps fs_write_passwd_keeps)
qed

lemma session_keeps:
  "fs_session io (\<lambda>c _. \<not> removes_call c \<and> plain_call c) s s' \<Longrightarrow> fs_ok K s \<Longrightarrow> fs_ok K s'"
  by (induction rule: fs_session.induct) (auto intro: run_call_keeps)

end

context reliable_fs
begin

lemma reliable_run_call_keeps:
  assumes "fs_ok K s" and "run_call io c s = Some s'" and "plain_call c"
  shows "fs_ok K s'"
proof (cases "removes_call c")
  case True
  then show ?thesis
    using assms post_snd [OF fs_remove_keeps] post_snd [OF fs_remove_path_keeps]
      opost_snd [OF fs_remove_path_recursive_keeps]
    by (cases c) auto
next
  case False
  from run_call_keeps [OF assms(1,2) this assms(3)] show ?thesis .
qed

lemma reliable_session_keeps:
  "fs_session io (\<lambda>c _. plain_call c) s s' \<Longrightarrow> fs_ok K s \<Longrightarrow> fs_ok K s'"
  by (induction rule: fs_session.induct) (auto intro: reliable_run_call_keeps)

end

end
