(* ===== verification/FsView.thy ===== *)
theory FsView
  imports FsCore
begin

text \<open>
  The directory tree as an abstract object: the entries of all directories as a map from slots to
  names and inodes (\<open>ent\<close>), when they are consistent (\<open>tree_ok\<close>), what a directory holds
  (\<open>entry_of\<close>, \<open>file_view\<close>), and how the elementary changes of a directory block or an inode change
  them.
\<close>

section \<open>Entries of a changed block\<close>

lemma cstr_take: "length (cstr (take n xs)) < n \<Longrightarrow> n \<le> length xs \<Longrightarrow> cstr xs = cstr (take n xs)"
  by (induction xs arbitrary: n) (auto simp: take_Cons split: nat.splits if_splits)

lemma cstr_take_short: "length (cstr xs) < n \<Longrightarrow> cstr (take n xs) = cstr xs"
  by (induction xs arbitrary: n) (auto simp: take_Cons split: nat.splits if_splits)

definition entry_ok :: "u8 list \<Rightarrow> nat \<Rightarrow> bool" where
  "entry_ok blk e \<longleftrightarrow> length (cstr (de_name blk e)) < 30"

lemma name_region:
  assumes "entry_ok blk e" and "e < 16" and "length blk' = 512"
    and "\<And>k. 32 * e + 2 \<le> k \<Longrightarrow> k < 32 * e + 32 \<Longrightarrow> byte_at blk' k = byte_at blk k"
    and "length blk = 512"
  shows "cstr (de_name blk' e) = cstr (de_name blk e)"
proof -
  have eq: "take 30 (de_name blk' e) = take 30 (de_name blk e)"
    by (rule byte_at_eqI)
      (use assms in \<open>auto simp: de_name_def byte_at_take byte_at_drop\<close>)
  have "length (de_name blk' e) \<ge> 30" using assms by (simp add: de_name_def)
  moreover have "length (cstr (take 30 (de_name blk' e))) < 30"
    unfolding eq using assms(1) by (simp add: cstr_take_short entry_ok_def)
  ultimately have "cstr (de_name blk' e) = cstr (take 30 (de_name blk' e))" by (intro cstr_take)
  also have "\<dots> = cstr (de_name blk e)"
    unfolding eq using assms(1) by (simp add: cstr_take_short entry_ok_def)
  finally show ?thesis .
qed

text \<open>An entry of a block depends only on its 32 bytes.\<close>

definition same_entry :: "u8 list \<Rightarrow> u8 list \<Rightarrow> nat \<Rightarrow> bool" where
  "same_entry blk blk' e \<longleftrightarrow> (\<forall>k. 32 * e \<le> k \<longrightarrow> k < 32 * e + 32 \<longrightarrow> byte_at blk' k = byte_at blk k)"

lemma same_entryD:
  assumes "same_entry blk blk' e" 
  shows "de_used blk' e = de_used blk e" "de_inode blk' e = de_inode blk e"
  using assms by (auto simp: same_entry_def de_used_def de_inode_def)

lemma same_entry_name:
  assumes "same_entry blk blk' e" "entry_ok blk e" "e < 16" "length blk = 512" "length blk' = 512"
  shows "cstr (de_name blk' e) = cstr (de_name blk e)"
  using assms by (intro name_region) (auto simp: same_entry_def)

lemma same_entry_put: "str_len name < 30 \<Longrightarrow> e \<noteq> slot \<Longrightarrow> same_entry blk (de_put blk slot ino name) e"
  by (auto simp: same_entry_def de_put_def de_clear_def byte_at_mem_copy byte_at_mem_set byte_at_update)

lemma same_entry_clear: "e \<noteq> slot \<Longrightarrow> same_entry blk (de_clear blk slot) e"
  by (auto simp: same_entry_def de_clear_def byte_at_mem_set)

lemma same_entry_rename: "str_len name < 30 \<Longrightarrow> e \<noteq> slot \<Longrightarrow> same_entry blk (de_rename blk slot name) e"
  by (auto simp: same_entry_def de_rename_def byte_at_mem_copy byte_at_mem_set)

lemma de_clear_entry: "e < 16 \<Longrightarrow> length blk = 512 \<Longrightarrow> \<not> de_used (de_clear blk e) e"
  by (simp add: de_used_def de_clear_def byte_at_mem_set)

lemma written_name:
  assumes "str_len name < 30" and "length (de_name blk e) \<ge> 30"
    and "\<And>k. k < 30 \<Longrightarrow> byte_at (de_name blk e) k = (if k < str_len name then byte_at name k else 0)"
  shows "cstr (de_name blk e) = cstr name"
proof -
  have "take 30 (de_name blk e) = cstr name @ replicate (30 - str_len name) 0"
    by (rule byte_at_eqI) (use assms in \<open>auto simp: byte_at_take str_len_cstr byte_at_append byte_at_replicate
       byte_at_def nth_append cstr_def takeWhile_nth dest: less_le_trans [OF _ length_takeWhile_le]\<close>)
  moreover have "\<dots> = cstr name @ 0 # replicate (29 - str_len name) 0"
    using assms(1) by (simp add: Suc_diff_le numeral_eq_Suc)
  ultimately have t: "cstr (take 30 (de_name blk e)) = cstr name"
    by (simp add: cstr_append_zero)
  then show ?thesis
    using cstr_take [of 30 "de_name blk e"] assms(1,2) by (simp add: str_len_cstr)
qed

lemma de_put_entry:
  assumes "e < 16" and "length blk = 512" and "str_len name < 30" and "ino < 256"
  shows "de_used (de_put blk e ino name) e" "de_inode (de_put blk e ino name) e = ino"
    "cstr (de_name (de_put blk e ino name) e) = cstr name"
proof -
  show "de_used (de_put blk e ino name) e" "de_inode (de_put blk e ino name) e = ino"
    using assms by (simp_all add: de_used_def de_inode_def de_put_def de_clear_def byte_at_mem_copy
      byte_at_update unat_of_nat)
  show "cstr (de_name (de_put blk e ino name) e) = cstr name"
    by (rule written_name)
      (use assms in \<open>auto simp: de_name_def de_put_def de_clear_def byte_at_mem_copy byte_at_update
        byte_at_drop byte_at_mem_set\<close>)
qed

lemma de_rename_entry:
  assumes "e < 16" and "length blk = 512" and "str_len name < 30"
  shows "de_used (de_rename blk e name) e = de_used blk e"
    "de_inode (de_rename blk e name) e = de_inode blk e"
    "cstr (de_name (de_rename blk e name) e) = cstr name"
proof -
  show "de_used (de_rename blk e name) e = de_used blk e"
    "de_inode (de_rename blk e name) e = de_inode blk e"
    using assms by (simp_all add: de_used_def de_inode_def de_rename_def byte_at_mem_copy byte_at_mem_set)
  show "cstr (de_name (de_rename blk e name) e) = cstr name"
    by (rule written_name)
      (use assms in \<open>auto simp: de_name_def de_rename_def byte_at_mem_copy byte_at_update
        byte_at_drop byte_at_mem_set\<close>)
qed
section \<open>The tree\<close>

text \<open>\<open>tab\<close> is the inode table and \<open>B i\<close> the contents of the block of inode \<open>i\<close>.\<close>

definition is_dir :: "inode list \<Rightarrow> nat \<Rightarrow> bool" where
  "is_dir tab d \<longleftrightarrow> d < 64 \<and> used (tab ! d) \<noteq> 0 \<and> itype (tab ! d) = INODE_DIR \<and> direct0 (tab ! d) \<noteq> 0"

text \<open>Entry \<open>e\<close> of directory \<open>d\<close> is in use.\<close>

definition slot_used :: "inode list \<Rightarrow> (nat \<Rightarrow> u8 list) \<Rightarrow> nat \<Rightarrow> nat \<Rightarrow> bool" where
  "slot_used tab B d e \<longleftrightarrow> is_dir tab d \<and> e < 16 \<and> de_used (B d) e"

text \<open>The entries of all directories: the name and the inode in each slot in use.\<close>

definition ent :: "inode list \<Rightarrow> (nat \<Rightarrow> u8 list) \<Rightarrow> nat \<times> nat \<Rightarrow> (u8 list \<times> nat) option" where
  "ent tab B = (\<lambda>(d, e). if slot_used tab B d e then Some (cstr (de_name (B d) e), de_inode (B d) e) else None)"

definition blocks_ok :: "inode list \<Rightarrow> (nat \<Rightarrow> u8 list) \<Rightarrow> bool" where
  "blocks_ok tab B \<longleftrightarrow> (\<forall>d. length (B d) = 512) \<and> (\<forall>d e. slot_used tab B d e \<longrightarrow> entry_ok (B d) e)"

text \<open>
  Every entry names a live inode; no inode has two entries; no directory has two entries of one name
  and type.
\<close>

definition links_ok :: "inode list \<Rightarrow> (nat \<times> nat \<Rightarrow> (u8 list \<times> nat) option) \<Rightarrow> bool" where
  "links_ok tab m \<longleftrightarrow>
     (\<forall>p n i. m p = Some (n, i) \<longrightarrow> 0 < i \<and> i < 64 \<and> used (tab ! i) \<noteq> 0) \<and>
     (\<forall>p q n n' i. m p = Some (n, i) \<longrightarrow> m q = Some (n', i) \<longrightarrow> p = q) \<and>
     (\<forall>d e e' n i i'. m (d, e) = Some (n, i) \<longrightarrow> m (d, e') = Some (n, i') \<longrightarrow>
        itype (tab ! i) = itype (tab ! i') \<longrightarrow> e = e')"

definition tree_ok :: "inode list \<Rightarrow> (nat \<Rightarrow> u8 list) \<Rightarrow> bool" where
  "tree_ok tab B \<longleftrightarrow> blocks_ok tab B \<and> links_ok tab (ent tab B)"

text \<open>What a directory holds: the inode of each name and type, and the contents of its files.\<close>

definition entry_of :: "inode list \<Rightarrow> (nat \<Rightarrow> u8 list) \<Rightarrow> u8 \<Rightarrow> nat \<Rightarrow> u8 list \<Rightarrow> nat option" where
  "entry_of tab B ty d name = map_option (de_inode (B d)) (find_dir_entry name (B d) tab ty)"

definition file_view :: "inode list \<Rightarrow> (nat \<Rightarrow> u8 list) \<Rightarrow> nat \<Rightarrow> u8 list \<Rightarrow> u8 list option" where
  "file_view tab B d name =
     map_option (\<lambda>i. mem_get (B i) (unat (isize (tab ! i)))) (entry_of tab B INODE_FILE d name)"

lemma ent_Some:
  "ent tab B (d, e) = Some (n, i) \<longleftrightarrow>
   slot_used tab B d e \<and> cstr (de_name (B d) e) = n \<and> de_inode (B d) e = i"
  by (auto simp: ent_def)

lemma links_okD:
  assumes "links_ok tab m"
  shows "m p = Some (n, i) \<Longrightarrow> 0 < i" "m p = Some (n, i) \<Longrightarrow> i < 64" "m p = Some (n, i) \<Longrightarrow> used (tab ! i) \<noteq> 0"
    and "m p = Some (n, i) \<Longrightarrow> m q = Some (n', i) \<Longrightarrow> p = q"
    and "m (d, e) = Some (n, i) \<Longrightarrow> m (d, e') = Some (n, i') \<Longrightarrow> itype (tab ! i) = itype (tab ! i') \<Longrightarrow> e = e'"
  using assms unfolding links_ok_def by blast+

text \<open>In a consistent tree the name search is a lookup.\<close>

lemma entry_of_iff:
  assumes t: "links_ok tab (ent tab B)" and d: "is_dir tab d" and ty: "ty \<noteq> 0"
  shows "entry_of tab B ty d name = Some i \<longleftrightarrow>
    (\<exists>e. ent tab B (d, e) = Some (cstr name, i) \<and> itype (tab ! i) = ty)"
    (is "?l \<longleftrightarrow> ?r")
proof
  assume ?l
  then show ?r
    using d by (auto simp: ent_Some entry_of_def slot_used_def entry_matches_def str_equals_cstr ty
      dest!: find_dir_entry_Some)
next
  assume ?r
  then obtain e where e: "ent tab B (d, e) = Some (cstr name, i)" "itype (tab ! i) = ty" by blast
  have m: "entry_matches name (B d) tab ty e"
    using e links_okD(2,3) [OF t e(1)] by (auto simp: entry_matches_def ent_Some slot_used_def str_equals_cstr)
  then obtain e' where f: "find_dir_entry name (B d) tab ty = Some e'"
    using e(1) find_dir_entry_None [of name "B d" tab ty]
    by (cases "find_dir_entry name (B d) tab ty") (auto simp: ent_Some slot_used_def)
  then have e': "e' < 16" "entry_matches name (B d) tab ty e'" by (auto dest: find_dir_entry_Some)
  then have "ent tab B (d, e') = Some (cstr name, de_inode (B d) e')"
    using d by (simp add: ent_Some slot_used_def entry_matches_def str_equals_cstr)
  then have "e' = e"
    using links_okD(5) [OF t _ e(1), of e'] e' e(2) ty by (auto simp: entry_matches_def)
  with f e show ?l by (simp add: entry_of_def ent_Some)
qed

section \<open>How the operations change the entries\<close>

lemma ent_upd:
  assumes b: "blocks_ok tab B" and d: "is_dir tab d" and l': "length blk = 512" and sl: "slot < 16"
    and same: "\<And>e. e \<noteq> slot \<Longrightarrow> same_entry (B d) blk e"
  shows "ent tab (B(d := blk)) = (ent tab B)((d, slot) :=
      (if de_used blk slot then Some (cstr (de_name blk slot), de_inode blk slot) else None))" (is "?l = ?r")
    and "(de_used blk slot \<Longrightarrow> entry_ok blk slot) \<Longrightarrow> blocks_ok tab (B(d := blk))"
proof -
  have l: "length (B d) = 512" and ok: "slot_used tab B d' e' \<Longrightarrow> entry_ok (B d') e'" for d' e'
    using b by (auto simp: blocks_ok_def)
  have u: "slot_used tab (B(d := blk)) d e \<longleftrightarrow> slot_used tab B d e" if "e \<noteq> slot" for e
    using same [OF that] by (simp add: slot_used_def same_entryD(1))
  have o: "de_inode blk e = de_inode (B d) e \<and> cstr (de_name blk e) = cstr (de_name (B d) e)"
    if "slot_used tab B d e" "e \<noteq> slot" for e
    using same [OF that(2)] that ok [OF that(1)] l l' same_entry_name
    by (auto simp: same_entryD(2) slot_used_def)
  have other: "slot_used tab (B(d := blk)) d' e \<longleftrightarrow> slot_used tab B d' e" if "d' \<noteq> d" for d' e
    using that by (simp add: slot_used_def)
  have "?l (d', e) = ?r (d', e)" for d' e
    using u [of e] o [of e] other [of d' e] d sl
    by (cases "d' = d"; cases "e = slot") (auto simp: ent_def slot_used_def)
  then show "?l = ?r" by (metis surj_pair ext)
  show "blocks_ok tab (B(d := blk))" if new: "de_used blk slot \<Longrightarrow> entry_ok blk slot"
    unfolding blocks_ok_def
  proof (intro conjI allI impI)
    show "length ((B(d := blk)) d') = 512" for d' using b l' by (simp add: blocks_ok_def)
    fix d' e assume s: "slot_used tab (B(d := blk)) d' e"
    show "entry_ok ((B(d := blk)) d') e"
    proof (cases "d' = d \<and> e = slot")
      case True
      then show ?thesis using new s by (simp add: slot_used_def)
    next
      case False
      then have "slot_used tab B d' e" using s u other by (cases "d' = d") auto
      then show ?thesis using ok [of d' e] o [of e] False by (cases "d' = d") (auto simp: entry_ok_def)
    qed
  qed
qed

lemma ent_put:
  assumes b: "blocks_ok tab B" and d: "is_dir tab d" "slot < 16" and i: "i < 256" and n: "str_len name < 30"
  shows "ent tab (B(d := de_put (B d) slot i name)) = (ent tab B)((d, slot) \<mapsto> (cstr name, i))"
    and "blocks_ok tab (B(d := de_put (B d) slot i name))"
proof -
  have l: "length (B d) = 512" using b by (simp add: blocks_ok_def)
  note put = de_put_entry [OF d(2) l n i]
  show "ent tab (B(d := de_put (B d) slot i name)) = (ent tab B)((d, slot) \<mapsto> (cstr name, i))"
    using ent_upd(1) [OF b d(1) _ d(2), of "de_put (B d) slot i name"] l put same_entry_put [OF n] by simp
  show "blocks_ok tab (B(d := de_put (B d) slot i name))"
    using ent_upd(2) [OF b d(1) _ d(2), of "de_put (B d) slot i name"] l put n same_entry_put [OF n]
    by (simp add: entry_ok_def str_len_cstr)
qed

lemma ent_clear:
  assumes b: "blocks_ok tab B" and d: "is_dir tab d" "e < 16"
  shows "ent tab (B(d := de_clear (B d) e)) = (ent tab B)((d, e) := None)"
    and "blocks_ok tab (B(d := de_clear (B d) e))"
proof -
  have l: "length (B d) = 512" using b by (simp add: blocks_ok_def)
  have c: "\<not> de_used (de_clear (B d) e) e" using de_clear_entry [OF d(2) l] .
  show "ent tab (B(d := de_clear (B d) e)) = (ent tab B)((d, e) := None)"
    using ent_upd(1) [OF b d(1) _ d(2), of "de_clear (B d) e"] l c same_entry_clear by simp
  show "blocks_ok tab (B(d := de_clear (B d) e))"
    using ent_upd(2) [OF b d(1) _ d(2), of "de_clear (B d) e"] l c same_entry_clear by simp
qed

lemma ent_rename:
  assumes b: "blocks_ok tab B" and u: "slot_used tab B d e" and n: "str_len name < 30"
  shows "ent tab (B(d := de_rename (B d) e name)) = (ent tab B)((d, e) \<mapsto> (cstr name, de_inode (B d) e))"
    and "blocks_ok tab (B(d := de_rename (B d) e name))"
proof -
  have l: "length (B d) = 512" using b by (simp add: blocks_ok_def)
  have d: "is_dir tab d" "e < 16" "de_used (B d) e" using u by (auto simp: slot_used_def)
  note ren = de_rename_entry [OF d(2) l n]
  show "ent tab (B(d := de_rename (B d) e name)) = (ent tab B)((d, e) \<mapsto> (cstr name, de_inode (B d) e))"
    using ent_upd(1) [OF b d(1) _ d(2), of "de_rename (B d) e name"] l ren d(3) same_entry_rename [OF n] by simp
  show "blocks_ok tab (B(d := de_rename (B d) e name))"
    using ent_upd(2) [OF b d(1) _ d(2), of "de_rename (B d) e name"] l ren n same_entry_rename [OF n]
    by (simp add: entry_ok_def str_len_cstr)
qed

text \<open>Giving out an unused inode, or one that is no directory, changes no entry.\<close>

lemma ent_inode:
  assumes b: "blocks_ok tab B" and i: "i < length tab" "\<not> is_dir tab i" and x: "length X = 512"
    and nd: "itype nd = INODE_DIR \<longrightarrow> (\<forall>e < 16. \<not> de_used X e)"
  shows "ent (tab[i := nd]) (B(i := X)) = ent tab B" and "blocks_ok (tab[i := nd]) (B(i := X))"
proof -
  have s: "slot_used (tab[i := nd]) (B(i := X)) d e \<longleftrightarrow> slot_used tab B d e" for d e
    using i nd by (cases "d = i") (auto simp: slot_used_def is_dir_def)
  have "d \<noteq> i" if "slot_used tab B d e" for d e using that i(2) by (auto simp: slot_used_def)
  with s show "ent (tab[i := nd]) (B(i := X)) = ent tab B" by (auto simp: ent_def fun_eq_iff)
  show "blocks_ok (tab[i := nd]) (B(i := X))"
    using b s i(2) x by (auto simp: blocks_ok_def slot_used_def)
qed

text \<open>Dropping an inode drops the entries of the directory it was.\<close>

lemma ent_drop:
  assumes b: "blocks_ok tab B" and i: "i < length tab" and x: "length X = 512"
  shows "ent (tab[i := zero_inode]) (B(i := X)) = (\<lambda>(d, e). if d = i then None else ent tab B (d, e))"
    and "blocks_ok (tab[i := zero_inode]) (B(i := X))"
proof -
  have s: "slot_used (tab[i := zero_inode]) (B(i := X)) d e \<longleftrightarrow> d \<noteq> i \<and> slot_used tab B d e" for d e
    using i by (cases "d = i") (auto simp: slot_used_def is_dir_def)
  then show "ent (tab[i := zero_inode]) (B(i := X)) = (\<lambda>(d, e). if d = i then None else ent tab B (d, e))"
    by (auto simp: ent_def fun_eq_iff)
  show "blocks_ok (tab[i := zero_inode]) (B(i := X))"
    using b s x by (auto simp: blocks_ok_def)
qed

text \<open>What these changes keep of \<open>links_ok\<close>.\<close>

lemma links_add:
  assumes m: "links_ok tab m" and i: "0 < i" "i < 64" "length tab = 64" "used (tab ! i) = 0"
    and nd: "used nd \<noteq> 0" and p: "m (d, slot) = None"
    and new: "\<And>e j. m (d, e) = Some (n, j) \<Longrightarrow> itype (tab ! j) \<noteq> itype nd"
  shows "links_ok (tab[i := nd]) (m((d, slot) \<mapsto> (n, i)))"
proof -
  have ni: "j \<noteq> i" if "m q = Some (n', j)" for q n' j using links_okD(3) [OF m that] i(4) by auto
  have t: "tab[i := nd] ! j = (if j = i then nd else tab ! j)" if "j < 64" for j using that i(3) by simp
  note D = links_okD [OF m]
  show ?thesis
    unfolding links_ok_def
  proof (intro conjI allI impI)
    fix q n' j assume a: "(m((d, slot) \<mapsto> (n, i))) q = Some (n', j)"
    then show "0 < j" "j < 64" using D(1,2) i by (auto split: if_splits)
    then show "used (tab[i := nd] ! j) \<noteq> 0" using a D(3) [of q n' j] nd t [of j] by (auto split: if_splits)
    fix q' n'' assume "(m((d, slot) \<mapsto> (n, i))) q' = Some (n'', j)"
    then show "q = q'" using a ni [of q n' j] ni [of q' n'' j] D(4) [of q n' j q' n''] by (auto split: if_splits)
  next
    fix d' e e' n' j j'
    assume a: "(m((d, slot) \<mapsto> (n, i))) (d', e) = Some (n', j)" "(m((d, slot) \<mapsto> (n, i))) (d', e') = Some (n', j')"
      and ty: "itype (tab[i := nd] ! j) = itype (tab[i := nd] ! j')"
    have "j < 64" "j' < 64" using a D(2) i by (auto split: if_splits)
    then show "e = e'" using a ty new D(5) ni t by (auto split: if_splits)
  qed
qed

lemma links_rename:
  assumes m: "links_ok tab m" and p: "m (d0, e0) = Some (n0, i)"
    and q: "d = d0 \<and> slot = e0 \<or> m (d, slot) = None"
    and new: "\<And>e j. m (d, e) = Some (n, j) \<Longrightarrow> (d, e) \<noteq> (d0, e0) \<Longrightarrow> itype (tab ! j) \<noteq> itype (tab ! i)"
  shows "links_ok tab ((m((d0, e0) := None))((d, slot) \<mapsto> (n, i)))"
proof -
  note D = links_okD [OF m]
  show ?thesis
    unfolding links_ok_def
  proof (intro conjI allI impI)
    fix q n' j assume a: "((m((d0, e0) := None))((d, slot) \<mapsto> (n, i))) q = Some (n', j)"
    then show "0 < j" "j < 64" "used (tab ! j) \<noteq> 0" using D(1,2,3) p by (auto split: if_splits)
    fix q' n'' assume b: "((m((d0, e0) := None))((d, slot) \<mapsto> (n, i))) q' = Some (n'', j)"
    show "q = q'"
      using a b D(4) [OF p, of q n'] D(4) [OF p, of q' n''] D(4) [of q n' j q' n'']
      by (auto split: if_splits)
  next
    fix d' e e' n' j j'
    assume a: "((m((d0, e0) := None))((d, slot) \<mapsto> (n, i))) (d', e) = Some (n', j)"
       "((m((d0, e0) := None))((d, slot) \<mapsto> (n, i))) (d', e') = Some (n', j')"
      and ty: "itype (tab ! j) = itype (tab ! j')"
    then show "e = e'"
      using new [of e j] new [of e' j'] D(5) [of d' e n' j e' j'] by (auto split: if_splits)
  qed
qed

lemma links_drop:
  assumes m: "links_ok tab m" and i: "length tab = 64" "m p = Some (n, i)"
  shows "links_ok (tab[i := zero_inode]) (\<lambda>(d, e). if d = i then None else (m(p := None)) (d, e))"
proof -
  note D = links_okD [OF m]
  have j: "j \<noteq> i" if "m q = Some (n', j)" "q \<noteq> p" for q n' j using D(4) [OF i(2), of q n'] that by auto
  have t: "tab[i := zero_inode] ! j = tab ! j" if "j \<noteq> i" for j using that by simp
  show ?thesis
    unfolding links_ok_def
  proof (intro conjI allI impI)
    fix q n' k assume "(\<lambda>(d, e). if d = i then None else (m(p := None)) (d, e)) q = Some (n', k)"
    then have k: "m q = Some (n', k)" "q \<noteq> p" by (cases q; auto split: if_splits)+
    show "0 < k" "k < 64" "used (tab[i := zero_inode] ! k) \<noteq> 0" using D(1,2,3) [OF k(1)] t j [OF k] by auto
    fix q' n'' assume "(\<lambda>(d, e). if d = i then None else (m(p := None)) (d, e)) q' = Some (n'', k)"
    then show "q = q'" using D(4) [OF k(1), of q'] by (cases q') (auto split: if_splits)
  next
    fix d e e' n' k k'
    assume "(\<lambda>(d, e). if d = i then None else (m(p := None)) (d, e)) (d, e) = Some (n', k)"
      "(\<lambda>(d, e). if d = i then None else (m(p := None)) (d, e)) (d, e') = Some (n', k')"
      and ty: "itype (tab[i := zero_inode] ! k) = itype (tab[i := zero_inode] ! k')"
    then have "m (d, e) = Some (n', k)" "(d, e) \<noteq> p" "m (d, e') = Some (n', k')" "(d, e') \<noteq> p"
      by (auto split: if_splits)
    then show "e = e'" using ty j t D(5) [of d e n' k e' k'] by metis
  qed
qed

section \<open>Adding, rewriting and removing a file\<close>

lemma option_eqI: "(\<And>i. x = Some i \<longleftrightarrow> y = Some i) \<Longrightarrow> x = y"
  by (cases x; cases y) auto

lemma entry_of_ent:
  assumes "links_ok tab (ent tab B)" "links_ok tab' (ent tab' B')" and "is_dir tab d" "is_dir tab' d'" "ty \<noteq> 0"
    and "\<And>i. (\<exists>e. ent tab' B' (d', e) = Some (cstr n, i) \<and> itype (tab' ! i) = ty) \<longleftrightarrow>
         (\<exists>e. ent tab B (d, e) = Some (cstr n, i) \<and> itype (tab ! i) = ty)"
  shows "entry_of tab' B' ty d' n = entry_of tab B ty d n"
  by (rule option_eqI) (simp only: entry_of_iff [OF assms(1,3,5)] entry_of_iff [OF assms(2,4,5)] assms(6))

lemma entry_of_live:
  assumes "tree_ok tab B" "is_dir tab d" "ty \<noteq> 0" "entry_of tab B ty d n = Some i"
  shows "0 < i" "i < 64" "used (tab ! i) \<noteq> 0" "itype (tab ! i) = ty"
  using assms links_okD(1-3) [of tab "ent tab B"] entry_of_iff [of tab B d ty n i]
  by (auto simp: tree_ok_def)

lemma ex_upd:
  assumes "m (d, slot) = None"
  shows "(\<exists>e. (m((d, slot) \<mapsto> v)) (d', e) = Some w) \<longleftrightarrow> d' = d \<and> v = w \<or> (\<exists>e. m (d', e) = Some w)"
proof
  assume "\<exists>e. (m((d, slot) \<mapsto> v)) (d', e) = Some w"
  then show "d' = d \<and> v = w \<or> (\<exists>e. m (d', e) = Some w)" by (auto split: if_splits)
next
  assume "d' = d \<and> v = w \<or> (\<exists>e. m (d', e) = Some w)"
  then show "\<exists>e. (m((d, slot) \<mapsto> v)) (d', e) = Some w"
  proof
    assume "\<exists>e. m (d', e) = Some w"
    then obtain e where e: "m (d', e) = Some w" ..
    then have "(d', e) \<noteq> (d, slot)" using assms by auto
    with e have "(m((d, slot) \<mapsto> v)) (d', e) = Some w" by (auto simp: fun_upd_apply)
    then show ?thesis ..
  qed auto
qed

lemma tree_add:
  assumes t: "tree_ok tab B" and d: "is_dir tab d" "slot < 16" "\<not> de_used (B d) slot"
    and i: "0 < i" "i < 64" "length tab = 64" "used (tab ! i) = 0"
    and nd: "used nd \<noteq> 0" "itype nd = ty" "ty \<in> {INODE_FILE, INODE_DIR}" and x: "length X = 512"
    and dir: "ty = INODE_DIR \<longrightarrow> (\<forall>e < 16. \<not> de_used X e)"
    and n: "str_len name < 30" "entry_of tab B ty d name = None"
  defines "tab' \<equiv> tab[i := nd]" and "B' \<equiv> B(i := X, d := de_put (B d) slot i name)"
  shows "tree_ok tab' B'"
    and "is_dir tab d' \<Longrightarrow> ty' \<noteq> 0 \<Longrightarrow> entry_of tab' B' ty' d' n' =
      (if d' = d \<and> ty' = ty \<and> cstr n' = cstr name then Some i else entry_of tab B ty' d' n')"
    and "is_dir tab d' \<Longrightarrow> is_dir tab' d'"
    and "is_dir tab d' \<Longrightarrow> file_view tab' B' d' n' =
      (if d' = d \<and> ty = INODE_FILE \<and> cstr n' = cstr name then Some (mem_get X (unat (isize nd)))
       else file_view tab B d' n')"
proof -
  have bl: "blocks_ok tab B" and lk: "links_ok tab (ent tab B)" using t by (auto simp: tree_ok_def)
  have ni: "\<not> is_dir tab i" using i by (simp add: is_dir_def)
  have di: "d \<noteq> i" using d(1) ni by auto
  have dir': "is_dir tab' e" if "is_dir tab e" for e
    using that ni i unfolding tab'_def by (cases "e = i") (auto simp: is_dir_def)
  have bl1: "blocks_ok tab' (B(i := X))" and ent1: "ent tab' (B(i := X)) = ent tab B"
    unfolding tab'_def by (rule ent_inode [OF bl _ ni x]; use i nd dir in auto)+
  have put: "de_put ((B(i := X)) d) slot i name = de_put (B d) slot i name" using di by simp
  have ent2: "ent tab' B' = (ent tab B)((d, slot) \<mapsto> (cstr name, i))" and bl2: "blocks_ok tab' B'"
    using ent_put [OF bl1 dir' [OF d(1)] d(2) _ n(1), of i] i(2) ent1 put by (simp_all add: B'_def)
  have free: "ent tab B (d, slot) = None" using d by (simp add: ent_def slot_used_def)
  have new: "itype (tab ! j) \<noteq> itype nd" if "ent tab B (d, e) = Some (cstr name, j)" for e j
    using n(2) nd(2,3) entry_of_iff [OF lk d(1), of ty name j] that by auto
  have lk2: "links_ok tab' (ent tab' B')"
    using links_add [OF lk i nd(1) free new] unfolding ent2 by (simp add: tab'_def)
  show t': "tree_ok tab' B'" using bl2 lk2 by (simp add: tree_ok_def)
  have j: "j \<noteq> i \<and> tab' ! j = tab ! j" if "ent tab B p = Some (m, j)" for p m j
    using links_okD(3) [OF lk that] i(4) unfolding tab'_def by (cases "j = i") auto
  have ti: "tab' ! i = nd" using i(2,3) by (simp add: tab'_def)
  have eo: "entry_of tab' B' ty' d' n' =
      (if d' = d \<and> ty' = ty \<and> cstr n' = cstr name then Some i else entry_of tab B ty' d' n')"
    if d': "is_dir tab d'" and ty': "ty' \<noteq> 0" for d' ty' n'
  proof (rule option_eqI)
    fix k
    have "(\<exists>e. ent tab' B' (d', e) = Some (cstr n', k) \<and> itype (tab' ! k) = ty') \<longleftrightarrow>
        (d' = d \<and> cstr n' = cstr name \<and> ty' = ty \<and> k = i) \<or>
        (\<exists>e. ent tab B (d', e) = Some (cstr n', k) \<and> itype (tab ! k) = ty')"
      using j [of _ _ k] ti nd(2) ex_upd [where m = "ent tab B", OF free, of "(cstr name, i)" d' "(cstr n', k)"]
      unfolding ent2 by (auto simp del: fun_upd_apply)
    then show "(entry_of tab' B' ty' d' n' = Some k) =
        ((if d' = d \<and> ty' = ty \<and> cstr n' = cstr name then Some i else entry_of tab B ty' d' n') = Some k)"
      using entry_of_iff [OF lk2 dir' [OF d'] ty', of n' k] entry_of_iff [OF lk d' ty', of n' k] n(2)
        entry_of_iff [OF lk d(1), of ty name k] nd(3) by auto
  qed
  show "is_dir tab d' \<Longrightarrow> ty' \<noteq> 0 \<Longrightarrow> entry_of tab' B' ty' d' n' =
      (if d' = d \<and> ty' = ty \<and> cstr n' = cstr name then Some i else entry_of tab B ty' d' n')"
    by (rule eo)
  show "is_dir tab d' \<Longrightarrow> is_dir tab' d'" by (rule dir')
  show "file_view tab' B' d' n' =
      (if d' = d \<and> ty = INODE_FILE \<and> cstr n' = cstr name then Some (mem_get X (unat (isize nd)))
       else file_view tab B d' n')" if d': "is_dir tab d'"
  proof -
    have "tab' ! k = tab ! k \<and> B' k = B k" if "entry_of tab B INODE_FILE d' n' = Some k" for k
      using entry_of_live [OF t d' _ that] d(1) i(4) by (auto simp: tab'_def B'_def is_dir_def)
    then show ?thesis
      using eo [OF d', of INODE_FILE n'] ti di
      by (cases "entry_of tab B INODE_FILE d' n'") (auto simp: file_view_def B'_def)
  qed
qed

lemma tree_write:
  fixes sz :: u32
  assumes t: "tree_ok tab B" and d: "is_dir tab d" and len: "length tab = 64" and x: "length X = 512"
    and i: "entry_of tab B INODE_FILE d name = Some i"
  defines "tab' \<equiv> tab[i := (tab ! i)\<lparr>isize := sz\<rparr>]" and "B' \<equiv> B(i := X)"
  shows "tree_ok tab' B'"
    and "is_dir tab' d' \<longleftrightarrow> is_dir tab d'"
    and "is_dir tab d' \<Longrightarrow> ty \<noteq> 0 \<Longrightarrow> entry_of tab' B' ty d' n = entry_of tab B ty d' n"
    and "is_dir tab d' \<Longrightarrow> file_view tab' B' d' n =
      (if d' = d \<and> cstr n = cstr name then Some (mem_get X (unat sz)) else file_view tab B d' n)"
proof -
  have bl: "blocks_ok tab B" and lk: "links_ok tab (ent tab B)" using t by (auto simp: tree_ok_def)
  have i': "i < 64" "used (tab ! i) \<noteq> 0" "itype (tab ! i) = INODE_FILE" using entry_of_live [OF t d _ i] by auto
  have ni: "\<not> is_dir tab i" using i' by (simp add: is_dir_def)
  have nth: "tab' ! j = (if j = i then (tab ! i)\<lparr>isize := sz\<rparr> else tab ! j)" for j
    using i' len by (simp add: tab'_def)
  have bl': "blocks_ok tab' B'" and ent': "ent tab' B' = ent tab B"
    unfolding tab'_def B'_def by (rule ent_inode [OF bl _ ni x]; use i' len in auto)+
  have ty: "itype (tab' ! k) = itype (tab ! k)" "used (tab' ! k) = used (tab ! k)" for k
    by (simp_all add: nth)
  have lk': "links_ok tab' (ent tab' B')"
    using lk unfolding ent' links_ok_def ty .
  show "tree_ok tab' B'" using bl' lk' by (simp add: tree_ok_def)
  show dir: "is_dir tab' d' \<longleftrightarrow> is_dir tab d'" for d' by (simp add: is_dir_def nth)
  show eo: "entry_of tab' B' ty d' n = entry_of tab B ty d' n" if "is_dir tab d'" "ty \<noteq> 0" for d' ty n
    by (rule entry_of_ent [OF lk lk' that(1) iffD2 [OF dir that(1)] that(2)]) (simp only: ent' ty)
  show "file_view tab' B' d' n =
      (if d' = d \<and> cstr n = cstr name then Some (mem_get X (unat sz)) else file_view tab B d' n)"
    if d': "is_dir tab d'"
  proof -
    have "d' = d \<and> cstr n = cstr name" if "entry_of tab B INODE_FILE d' n = Some i"
      using that i entry_of_iff [OF lk d', of INODE_FILE n i] entry_of_iff [OF lk d, of INODE_FILE name i]
        links_okD(4) [OF lk] by fastforce
    moreover have "entry_of tab B INODE_FILE d n = Some i" if "cstr n = cstr name"
      using that i entry_of_iff [OF lk d, of INODE_FILE n i] entry_of_iff [OF lk d, of INODE_FILE name i] by simp
    ultimately show ?thesis
      using eo [OF d', of INODE_FILE n]
      by (cases "entry_of tab B INODE_FILE d' n") (auto simp: file_view_def nth B'_def)
  qed
qed

lemma tree_remove:
  assumes t: "tree_ok tab B" and d: "is_dir tab d" and len: "length tab = 64" and x: "length X = 512"
    and e: "ent tab B (d, e) = Some (cstr name, i)" and ty: "itype (tab ! i) = INODE_FILE"
  defines "tab' \<equiv> tab[i := zero_inode]" and "B' \<equiv> B(i := X, d := de_clear (B d) e)"
  shows "tree_ok tab' B'"
    and "is_dir tab' d' \<longleftrightarrow> is_dir tab d'"
    and "is_dir tab d' \<Longrightarrow> ty' \<noteq> 0 \<Longrightarrow> entry_of tab' B' ty' d' n =
      (if d' = d \<and> ty' = INODE_FILE \<and> cstr n = cstr name then None else entry_of tab B ty' d' n)"
    and "is_dir tab d' \<Longrightarrow> file_view tab' B' d' n =
      (if d' = d \<and> cstr n = cstr name then None else file_view tab B d' n)"
proof -
  have bl: "blocks_ok tab B" and lk: "links_ok tab (ent tab B)" using t by (auto simp: tree_ok_def)
  note D = links_okD [OF lk]
  have i: "0 < i" "i < 64" "used (tab ! i) \<noteq> 0" using D(1-3) [OF e] by auto
  have ni: "\<not> is_dir tab i" using ty by (simp add: is_dir_def)
  have di: "d \<noteq> i" using d ni by auto
  have nth: "tab' ! j = (if j = i then zero_inode else tab ! j)" for j using i len by (simp add: tab'_def)
  show dir: "is_dir tab' d' \<longleftrightarrow> is_dir tab d'" for d' using ni by (auto simp: is_dir_def nth)
  have nent: "ent tab B (i, e') = None" for e' using ni by (simp add: ent_def slot_used_def)
  have bl1: "blocks_ok tab' (B(i := X))" and ent1: "ent tab' (B(i := X)) = ent tab B"
    unfolding tab'_def by (rule ent_inode [OF bl _ ni x]; use i len in auto)+
  have e16: "e < 16" using e by (auto simp: ent_Some slot_used_def)
  have ent2: "ent tab' B' = (ent tab B)((d, e) := None)" and bl2: "blocks_ok tab' B'"
    using ent_clear [OF bl1 _ e16, of d] d dir di by (simp_all add: B'_def ent1)
  have "(\<lambda>(d', e'). if d' = i then None else ((ent tab B)((d, e) := None)) (d', e')) = ent tab' B'"
    unfolding ent2 using nent by (auto simp: fun_eq_iff)
  then have lk2: "links_ok tab' (ent tab' B')"
    using links_drop [OF lk len e] unfolding tab'_def [symmetric] by simp
  show "tree_ok tab' B'" using bl2 lk2 by (simp add: tree_ok_def)
  have same: "k = i \<longleftrightarrow> p = (d, e)" if "ent tab B p = Some (m, k)" for p m k
    using that e D(4) [OF e, of p m] by auto
  show eo: "entry_of tab' B' ty' d' n =
      (if d' = d \<and> ty' = INODE_FILE \<and> cstr n = cstr name then None else entry_of tab B ty' d' n)"
    if d': "is_dir tab d'" and ty': "ty' \<noteq> 0" for d' ty' n
  proof (rule option_eqI)
    fix k
    have "(\<exists>e'. ent tab' B' (d', e') = Some (cstr n, k) \<and> itype (tab' ! k) = ty') \<longleftrightarrow>
       \<not> (d' = d \<and> ty' = INODE_FILE \<and> cstr n = cstr name) \<and>
       (\<exists>e'. ent tab B (d', e') = Some (cstr n, k) \<and> itype (tab ! k) = ty')" (is "?l \<longleftrightarrow> ?r")
    proof
      assume ?l
      then obtain e' where e': "ent tab B (d', e') = Some (cstr n, k)" "(d', e') \<noteq> (d, e)" "itype (tab' ! k) = ty'"
        unfolding ent2 by (auto split: if_splits)
      then have k: "itype (tab ! k) = ty'" using same [OF e'(1)] by (simp add: nth split: if_splits)
      have "\<not> (d' = d \<and> ty' = INODE_FILE \<and> cstr n = cstr name)"
        using D(5) [OF e, of e' k] e' k ty by auto
      then show ?r using e' k by blast
    next
      assume ?r
      then obtain e' where e': "ent tab B (d', e') = Some (cstr n, k)" "itype (tab ! k) = ty'"
        and no: "\<not> (d' = d \<and> ty' = INODE_FILE \<and> cstr n = cstr name)" by blast
      have "(d', e') \<noteq> (d, e)" using e' e no ty by auto
      then show ?l using e' same [OF e'(1)] unfolding ent2 by (intro exI [of _ e']) (auto simp: nth)
    qed
    then show "(entry_of tab' B' ty' d' n = Some k) \<longleftrightarrow>
      ((if d' = d \<and> ty' = INODE_FILE \<and> cstr n = cstr name then None else entry_of tab B ty' d' n) = Some k)"
      using entry_of_iff [OF lk2, of d' ty' n k] dir d' ty' entry_of_iff [OF lk d' ty', of n k] by auto
  qed
  show "file_view tab' B' d' n = (if d' = d \<and> cstr n = cstr name then None else file_view tab B d' n)"
    if d': "is_dir tab d'"
  proof -
    have "tab' ! k = tab ! k \<and> B' k = B k"
      if a: "entry_of tab B INODE_FILE d' n = Some k" "\<not> (d' = d \<and> cstr n = cstr name)" for k
    proof -
      obtain e' where e': "ent tab B (d', e') = Some (cstr n, k)"
        using entry_of_iff [OF lk d', of INODE_FILE n k] a(1) by (metis one_neq_zero)
      then have "k \<noteq> i" using same [OF e'] a e by auto
      moreover have "k \<noteq> d" using entry_of_live [OF t d' _ a(1)] d by (auto simp: is_dir_def)
      ultimately show ?thesis by (simp add: nth B'_def)
    qed
    then show ?thesis
      using eo [OF d', of INODE_FILE n]
      by (cases "entry_of tab B INODE_FILE d' n") (auto simp: file_view_def)
  qed
qed

end
