(* ===== verification/FsSpec.thy ===== *)
theory FsSpec
  imports FsSession FsView
begin

text \<open>
  The tree of theory \<open>FsView\<close> that a state holds, over a device whose commands do not fail: what
  reading or writing a block, giving out an inode, releasing one and writing the tables back do to
  it, when the directory scans succeed, and the two calls that create an entry in the root.

  A step (\<open>tree_step\<close>) succeeds exactly under its condition; it then changes the tree in one way and
  leaves the tables in memory and on disk the same, and otherwise it changes nothing.
\<close>

section \<open>The tree of a state\<close>

lemma concat_sectors:
  assumes "\<forall>i < n. f (a + i) = chunk buf i" and "length buf = 512 * n"
  shows "concat (map f [a..<a + n]) = buf"
proof -
  have "map f [a..<a + n] = map (chunk buf) [0..<n]"
    using assms(1) by (intro nth_equalityI) simp_all
  then show ?thesis using concat_chunks [OF assms(2)] by simp
qed

definition blks :: "('d \<Rightarrow> nat \<Rightarrow> u8 list) \<Rightarrow> 'd fs \<Rightarrow> nat \<Rightarrow> u8 list" where
  "blks sec s i = (if i < 64 then sec (disk s) (unat (block_lba s i)) else zero_block)"

definition fs_at :: "(fs_head \<Rightarrow> 'd \<Rightarrow> bool) \<Rightarrow> ('d \<Rightarrow> nat \<Rightarrow> u8 list) \<Rightarrow> inode list \<Rightarrow> (nat \<Rightarrow> u8 list) \<Rightarrow> 'd fs \<Rightarrow> bool" where
  "fs_at K sec tab B s \<longleftrightarrow> fs_ok K s \<and> g_inodes s = tab \<and> blks sec s = B"

definition synced :: "('d \<Rightarrow> nat \<Rightarrow> u8 list) \<Rightarrow> 'd fs \<Rightarrow> bool" where
  "synced sec s \<longleftrightarrow>
     concat (map (sec (disk s)) [129..<137]) = g_bitmap s \<and>
     concat (map (sec (disk s)) [137..<145]) = inodes_bytes (g_inodes s)"

lemma fs_atD:
  assumes "fs_at K sec tab B s"
  shows "fs_ok K s" "mem_inv s" "g_inodes s = tab" "inode_at s i = tab ! i" "blks sec s = B" "length tab = 64"
  using assms by (auto simp: fs_at_def inode_at_def)

lemma blks_disk_write:
  assumes m: "mem_inv s" and i: "i < 64" "direct0 (inode_at s i) \<noteq> 0"
    and w: "sec d (unat (block_lba s i)) = blk"
    and o: "\<And>l. l < lba_limit \<Longrightarrow> l \<noteq> unat (block_lba s i) \<Longrightarrow> sec d l = sec (disk s) l"
  shows "blks sec (s\<lparr>disk := d\<rparr>) = (blks sec s)(i := blk)"
proof
  fix j
  have ne: "unat (block_lba s j) \<noteq> unat (block_lba s i)" if "j < 64" "j \<noteq> i"
  proof -
    have "direct0 (inode_at s j) \<noteq> direct0 (inode_at s i)"
      using m i that unfolding mem_inv_def tab_inv_def inode_at_def by metis
    then show ?thesis using block_lba_eq [OF m that(1)] block_lba_eq [OF m i(1)] by (simp add: word_unat_eq_iff)
  qed
  have lt: "unat (block_lba s j) < lba_limit" if "j < 64"
    using block_lba_eq [OF m that] mem_inv_block [OF m that] m by (simp add: mem_inv_def sb_inv_def)
  show "blks sec (s\<lparr>disk := d\<rparr>) j = ((blks sec s)(i := blk)) j"
    using w o [OF lt ne] i(1) by (auto simp: blks_def)
qed

lemma blks_frame:
  assumes m: "mem_inv s" and m': "g_sb s' = g_sb s" "g_inodes s' = g_inodes s"
    and o: "\<And>l. l < lba_limit \<Longrightarrow> 145 \<le> l \<Longrightarrow> sec (disk s') l = sec (disk s) l"
  shows "blks sec s' = blks sec s"
proof
  fix j
  have "unat (block_lba s j) < lba_limit \<and> 145 \<le> unat (block_lba s j)" if "j < 64"
    using block_lba_eq [OF m that] mem_inv_block [OF m that] m by (simp add: mem_inv_def sb_inv_def)
  then show "blks sec s' j = blks sec s j"
    using o m' by (auto simp: blks_def block_lba_def inode_at_def)
qed

context fs_device
begin

lemma blks_length: "fs_ok K s \<Longrightarrow> length (blks sec s i) = 512"
  using sec_length [OF K_ready [of "fs_head s" "disk s"]] by (simp add: blks_def fs_ok_def)

lemma alloc_at:
  assumes a: "fs_at K sec tab B s" and f: "find_free_inode s = Some i \<or> alloc_inode_raw s = Some i"
    and b: "find_free_block s = Some b \<or> alloc_block_raw s = Some b" and ty: "ty \<in> {INODE_FILE, INODE_DIR}"
    and nd: "nd = (fill_inode ty b (tab ! i))\<lparr>isize := n\<rparr>"
  obtains X where "length X = 512" "fs_at K sec (tab[i := nd]) (B(i := X)) (set_inode i nd (mark_block_used b s))"
proof -
  let ?s = "set_inode i nd (mark_block_used b s)"
  note A = fs_atD [OF a]
  have i: "i < 64" using f scan_ranges by blast
  have ok: "fs_ok K ?s" using fs_ok_alloc(1) [OF A(1) ty f b, of n] A(4) nd by simp
  have "blks sec ?s = (blks sec s)(i := blks sec ?s i)"
    using A(2) i by (auto simp: fun_eq_iff blks_def block_lba_def inode_at_set)
  then show ?thesis
    using that [of "blks sec ?s i"] blks_length [OF ok] ok A by (simp add: fs_at_def set_inode_def mark_block_used_def)
qed

lemma isize_at:
  assumes a: "fs_at K sec tab B s" and i: "i < 64"
  shows "fs_at K sec (tab[i := (tab ! i)\<lparr>isize := n\<rparr>]) B (set_inode i ((tab ! i)\<lparr>isize := n\<rparr>) s)"
proof -
  note A = fs_atD [OF a]
  have "blks sec (set_inode i ((tab ! i)\<lparr>isize := n\<rparr>) s) = blks sec s"
    using A(2,4) i by (auto simp: fun_eq_iff blks_def block_lba_def inode_at_set)
  then show ?thesis
    using fs_ok_isize [OF A(1) i, of n] A by (simp add: fs_at_def set_inode_def)
qed

end

context reliable_fs
begin

lemma read_at:
  assumes a: "fs_at K sec tab B s" and i: "lba = block_lba s i" "i < 64"
    and f: "\<And>s'. fs_at K sec tab B s' \<Longrightarrow> fs_head s' = fs_head s \<Longrightarrow> g_bitmap s' = g_bitmap s \<Longrightarrow>
       sec (disk s') = sec (disk s) \<Longrightarrow> P (f True (B i) s')"
  shows "P (case disk_read_lba io lba 1 s of (ok, bs, s) \<Rightarrow> f ok bs s)"
proof -
  note A = fs_atD [OF a]
  obtain ok bs d where r: "read_sectors io (disk s) lba 1 = (ok, bs, d)" by (metis prod_cases3)
  have k: "K (fs_head s) (disk s)" using A(1) by (simp add: fs_ok_def)
  have area: "unat lba + unat (1 :: u32) \<le> lba_limit" using block_lba_range [OF A(1) i(2)] i(1) by (simp add: fs_area_def)
  have law: "ready d \<and> sec d = sec (disk s) \<and> (ok \<longrightarrow> bs = sec (disk s) (unat lba))"
    using read_law [OF K_ready [OF k] area r] by auto
  have ok using read_total [OF K_ready [OF k] area] r by simp
  then have "bs = B i" using law A(5) i by (auto simp: blks_def)
  moreover have "fs_at K sec tab B (s\<lparr>disk := d\<rparr>)"
    using a law K_read [OF k] A(1) by (auto simp: fs_at_def blks_def fs_ok_def)
  ultimately show ?thesis using f [of "s\<lparr>disk := d\<rparr>"] \<open>ok\<close> law by (simp add: disk_read_lba_def r)
qed

lemma write_at:
  assumes a: "fs_at K sec tab B s" and i: "lba = block_lba s i" "i < 64" "direct0 (tab ! i) \<noteq> 0" "length blk = 512"
    and f: "\<And>s'. fs_at K sec tab (B(i := blk)) s' \<Longrightarrow> fs_head s' = fs_head s \<Longrightarrow> g_bitmap s' = g_bitmap s \<Longrightarrow>
      P (f True s')"
  shows "P (case disk_write_lba io lba blk 1 s of (ok, s) \<Rightarrow> f ok s)"
proof -
  note A = fs_atD [OF a]
  obtain ok d where r: "write_sectors io (disk s) lba blk 1 = (ok, d)" by (metis surj_pair)
  have k: "K (fs_head s) (disk s)" using A(1) by (simp add: fs_ok_def)
  have area: "129 \<le> unat lba" "unat lba + unat (1 :: u32) \<le> lba_limit"
    using block_lba_range [OF A(1) i(2)] i(1) by (simp_all add: fs_area_def)
  have len: "512 * unat (1 :: u32) \<le> length blk" using i(4) by simp
  have ok using write_total [OF K_ready [OF k] area(2) len] r by simp
  have law: "ready d \<and> (ok \<longrightarrow> (\<forall>i < unat (1 :: u32). sec d (unat lba + i) = chunk blk i)) \<and>
      (\<forall>l < lba_limit. l < unat lba \<or> unat lba + unat (1 :: u32) \<le> l \<longrightarrow> sec d l = sec (disk s) l)"
    by (rule write_law [OF K_ready [OF k] area(2) len r])
  then have kd: "K (fs_head s) d" using area by (intro K_frame [OF k]) auto
  have w: "sec d (unat (block_lba s i)) = blk" using law \<open>ok\<close> i(1,4) chunk_0 by simp
  have o: "sec d l = sec (disk s) l" if "l < lba_limit" "l \<noteq> unat (block_lba s i)" for l
    using law that i(1) by (cases "l < unat lba") auto
  have "blks sec (s\<lparr>disk := d\<rparr>) = B(i := blk)"
    using blks_disk_write [where sec = sec, OF A(2) i(2) _ w o] i(3) A(4,5) by simp
  then have "fs_at K sec tab (B(i := blk)) (s\<lparr>disk := d\<rparr>)"
    using a kd A(1) by (simp add: fs_at_def fs_ok_def)
  then show ?thesis using f [of "s\<lparr>disk := d\<rparr>"] \<open>ok\<close> by (simp add: disk_write_lba_def r)
qed


lemma flush_at:
  assumes a: "fs_at K sec tab B s"
    and f: "\<And>s'. fs_at K sec tab B s' \<Longrightarrow> fs_head s' = fs_head s \<Longrightarrow> g_bitmap s' = g_bitmap s \<Longrightarrow> synced sec s' \<Longrightarrow> Q True s'"
  shows "post Q (flush io s)"
proof -
  note A = fs_atD [OF a]
  have sh: "\<forall>nd \<in> set (g_inodes s). inode_shape nd" and lba: "bitmap_lba (g_sb s) = 129"
      "inode_table_lba (g_sb s) = 137" and len: "length (g_bitmap s) = 4096" "length (g_inodes s) = 64"
    using A(2) by (auto simp: mem_inv_def tab_inv_def sb_inv_def in_set_conv_nth)
  have ilen: "length (inodes_bytes (g_inodes s)) = 4096" using length_inodes_bytes [OF sh] len by simp
  have k: "K (fs_head s) (disk s)" using A(1) by (simp add: fs_ok_def)
  obtain ok d where w: "write_sectors io (disk s) 129 (g_bitmap s) 8 = (ok, d)" by (metis surj_pair)
  obtain ok' d' where w': "write_sectors io d 137 (inodes_bytes (g_inodes s)) 8 = (ok', d')" by (metis surj_pair)
  have ok: ok using write_total [OF K_ready [OF k], of 129 8 "g_bitmap s"] w len by simp
  have law: "ready d" "\<forall>i < 8. sec d (129 + i) = chunk (g_bitmap s) i"
      "\<forall>l < lba_limit. l < 129 \<or> 137 \<le> l \<longrightarrow> sec d l = sec (disk s) l"
    using write_law [OF K_ready [OF k] _ _ w] len ok by auto
  have kd: "K (fs_head s) d" using law by (intro K_frame [OF k]) auto
  have ok': ok' using write_total [OF law(1), of 137 8 "inodes_bytes (g_inodes s)"] w' ilen by simp
  have law': "ready d'" "\<forall>i < 8. sec d' (137 + i) = chunk (inodes_bytes (g_inodes s)) i"
      "\<forall>l < lba_limit. l < 137 \<or> 145 \<le> l \<longrightarrow> sec d' l = sec d l"
    using write_law [OF law(1) _ _ w'] ilen ok' by auto
  let ?s = "s\<lparr>disk := d'\<rparr>"
  have kd': "K (fs_head s) d'" using law' by (intro K_frame [OF kd]) auto
  have "blks sec ?s = blks sec s" by (rule blks_frame [OF A(2)]) (use law law' in auto)
  then have at: "fs_at K sec tab B ?s" using a kd' A(1) by (simp add: fs_at_def fs_ok_def)
  have "concat (map (sec d') [129..<129 + 8]) = g_bitmap s"
    by (rule concat_sectors) (use law law' len in auto)
  moreover have "concat (map (sec d') [137..<137 + 8]) = inodes_bytes (g_inodes s)"
    by (rule concat_sectors) (use law' ilen in auto)
  ultimately have "synced sec ?s" by (simp add: synced_def)
  then show ?thesis
    using f [OF at] ok ok' w w' lba
    by (simp add: flush_def flush_bitmap_def flush_inodes_def disk_write_lba_def post_def)
qed

text \<open>Dropping an inode: its block is freed and cleared, its table entry zeroed.\<close>

lemma release_at:
  assumes a: "fs_at K sec tab B s" and i: "0 < i" "i < 64" "direct0 (tab ! i) \<noteq> 0"
    and f: "\<And>s' X. fs_at K sec (tab[i := zero_inode]) (B(i := X)) (set_inode i zero_inode s') \<Longrightarrow> length X = 512 \<Longrightarrow>
       fs_head s' = fs_head s \<Longrightarrow> P (f True s')"
  shows "P (case release_block io i s of (ok, s) \<Rightarrow> f ok s)"
proof -
  note A = fs_atD [OF a]
  let ?b = "direct0 (inode_at s i)" and ?s = "mark_block_free (unat (direct0 (inode_at s i))) s"
  have k: "K (fs_head s) (disk s)" using A(1) by (simp add: fs_ok_def)
  have lt: "?b < block_count (g_sb s)" using mem_inv_block [OF A(2) i(2)] by (simp add: word_less_nat_alt)
  let ?lba = "data_lba (g_sb s) + ?b"
  have area: "129 \<le> unat ?lba" "unat ?lba + unat (1 :: u32) \<le> lba_limit"
    using block_lba_range [OF A(1) i(2)] by (simp_all add: block_lba_def fs_area_def)
  have len: "512 * unat (1 :: u32) \<le> length zero_block" by simp
  obtain ok d where w: "write_sectors io (disk s) ?lba zero_block 1 = (ok, d)" by (metis surj_pair)
  have ok: "ok" using write_total [OF K_ready [OF k] area(2) len] w by simp
  have law: "ready d \<and> (\<forall>l < lba_limit. l < unat ?lba \<or> unat ?lba + unat (1 :: u32) \<le> l \<longrightarrow> sec d l = sec (disk s) l)"
    using write_law [OF K_ready [OF k] area(2) len w] by simp
  then have kd: "K (fs_head s) d" using area by (intro K_frame [OF k]) auto
  have o: "sec d l = sec (disk s) l" if "l < lba_limit" "l \<noteq> unat (block_lba s i)" for l
    using law that by (cases "l < unat ?lba") (auto simp: block_lba_def)
  let ?s' = "set_inode i zero_inode (?s\<lparr>disk := d\<rparr>)"
  have ok': "fs_ok K ?s'"
    using mem_inv_release(1) [OF A(2) i(1,2)] kd by (simp add: set_inode_disk fs_ok_def)
  have "blks sec (s\<lparr>disk := d\<rparr>) = (blks sec s)(i := sec d (unat (block_lba s i)))"
    by (rule blks_disk_write [OF A(2) i(2) _ refl o]) (use i A in auto)
  moreover have "blks sec ?s' j = blks sec (s\<lparr>disk := d\<rparr>) j" if "j \<noteq> i" for j
    using that A(2) i by (simp add: blks_def block_lba_def inode_at_set inode_at_def mark_block_free_def set_inode_def)
  ultimately have "blks sec ?s' = B(i := blks sec ?s' i)" using A(5) by (auto simp: fun_eq_iff)
  then have "fs_at K sec (tab[i := zero_inode]) (B(i := blks sec ?s' i)) ?s'"
    using ok' A(3) by (simp add: fs_at_def set_inode_def mark_block_free_def)
  then show ?thesis
    using f [of "blks sec ?s' i" "?s\<lparr>disk := d\<rparr>"] blks_length [OF ok'] i(3) A(4) lt w ok
    by (simp add: release_block_def Let_def disk_write_lba_def)
qed

end

lemma new_entry_scan_Some:
  "new_entry_scan name blk tab ty is sl = Some r \<Longrightarrow> ty \<noteq> 0 \<Longrightarrow>
   (r = sl \<or> (\<exists>e \<in> set is. r = Some e \<and> \<not> de_used blk e)) \<and> (\<forall>e \<in> set is. \<not> entry_matches name blk tab ty e)"
proof (induction "is" arbitrary: sl)
  case (Cons i "is")
  have "\<not> entry_matches name blk tab ty i"
    using Cons.prems by (auto simp: entry_matches_def split: if_split_asm)
  moreover have "new_entry_scan name blk tab ty is sl = Some r \<or>
      \<not> de_used blk i \<and> new_entry_scan name blk tab ty is (if sl = None then Some i else sl) = Some r"
    using Cons.prems(1) by (auto split: if_split_asm)
  ultimately show ?case using Cons.IH [OF _ Cons.prems(2)] by (auto split: if_split_asm)
qed simp

lemma mkdir_path_scan_Some:
  "mkdir_path_scan name blk tab is sl = Some r \<Longrightarrow>
   (r = sl \<or> (\<exists>e \<in> set is. r = Some e \<and> \<not> de_used blk e)) \<and>
   (\<forall>e \<in> set is. \<not> entry_matches name blk tab INODE_DIR e)"
proof (induction "is" arbitrary: sl)
  case (Cons i "is")
  have "\<not> entry_matches name blk tab INODE_DIR i"
    using Cons.prems by (auto simp: entry_matches_def split: if_split_asm)
  moreover have "mkdir_path_scan name blk tab is sl = Some r \<or>
      \<not> de_used blk i \<and> mkdir_path_scan name blk tab is (if sl = None then Some i else sl) = Some r"
    using Cons.prems by (auto split: if_split_asm)
  ultimately show ?case using Cons.IH by (auto split: if_split_asm)
qed simp

lemma write_scan_Some:
  "write_scan name blk tab is sl = Some (found, r) \<Longrightarrow>
   (case found of
      Some t \<Rightarrow> \<exists>e \<in> set is. entry_matches name blk tab INODE_FILE e \<and> de_inode blk e = t
    | None \<Rightarrow> (r = sl \<or> (\<exists>e \<in> set is. r = Some e \<and> \<not> de_used blk e)) \<and>
        (\<forall>e \<in> set is. \<not> entry_matches name blk tab INODE_FILE e))"
proof (induction "is" arbitrary: sl)
  case (Cons i "is")
  consider "entry_matches name blk tab INODE_FILE i" "found = Some (de_inode blk i)"
    | "\<not> entry_matches name blk tab INODE_FILE i" "de_used blk i" "write_scan name blk tab is sl = Some (found, r)"
    | "\<not> entry_matches name blk tab INODE_FILE i" "\<not> de_used blk i"
      "write_scan name blk tab is (if sl = None then Some i else sl) = Some (found, r)"
    using Cons.prems by (auto simp: entry_matches_def split: if_split_asm)
  then show ?case
  proof cases
    case 1
    then show ?thesis by auto
  next
    case 2
    then show ?thesis using Cons.IH [of sl] by (cases found) auto
  next
    case 3
    then show ?thesis using Cons.IH [OF 3(3)] by (cases found) (auto split: if_split_asm)
  qed
qed auto

lemma entry_of_None: "entry_of tab B ty d name = None \<longleftrightarrow> (\<forall>e \<in> set [0..<16]. \<not> entry_matches name (B d) tab ty e)"
  unfolding entry_of_def set_upt by (auto simp: find_dir_entry_None)

lemma new_entry_slot:
  assumes "new_entry_scan name (B d) tab ty [0..<16] None = Some (Some slot)" and "ty \<noteq> 0"
  shows "slot < 16" "\<not> de_used (B d) slot" "entry_of tab B ty d name = None"
  using new_entry_scan_Some [OF assms] unfolding entry_of_None by (simp_all only: set_upt) auto

lemma mkdir_path_slot:
  assumes "mkdir_path_scan name (B d) tab [0..<16] None = Some (Some slot)"
  shows "slot < 16" "\<not> de_used (B d) slot" "entry_of tab B INODE_DIR d name = None"
  using mkdir_path_scan_Some [OF assms] unfolding entry_of_None by (simp_all only: set_upt) auto

lemma write_slot:
  assumes "write_scan name (B d) tab [0..<16] None = Some (None, Some slot)"
  shows "slot < 16" "\<not> de_used (B d) slot" "entry_of tab B INODE_FILE d name = None"
  using write_scan_Some [OF assms] unfolding entry_of_None by (simp_all only: set_upt option.case) auto

lemma match_entry_of:
  assumes "links_ok tab (ent tab B)" "is_dir tab d" "ty \<noteq> 0" "e < 16" "entry_matches name (B d) tab ty e"
  shows "ent tab B (d, e) = Some (cstr name, de_inode (B d) e)" "itype (tab ! de_inode (B d) e) = ty"
    "entry_of tab B ty d name = Some (de_inode (B d) e)"
proof -
  show e: "ent tab B (d, e) = Some (cstr name, de_inode (B d) e)" and t: "itype (tab ! de_inode (B d) e) = ty"
    using assms by (auto simp: ent_Some slot_used_def entry_matches_def str_equals_cstr)
  show "entry_of tab B ty d name = Some (de_inode (B d) e)"
    unfolding entry_of_iff [OF assms(1,2,3)] using e t by blast
qed

lemma write_target:
  assumes "links_ok tab (ent tab B)" "is_dir tab d"
    and "write_scan name (B d) tab [0..<16] None = Some (Some t, r)"
  shows "entry_of tab B INODE_FILE d name = Some t"
proof -
  obtain e where "e < 16" "entry_matches name (B d) tab INODE_FILE e" "de_inode (B d) e = t"
    using write_scan_Some [OF assms(3)] by (auto simp only: set_upt option.case atLeastLessThan_iff)
  then show ?thesis using match_entry_of(3) [OF assms(1,2) _ _, of INODE_FILE e name] by simp
qed

text \<open>The conditions under which a call succeeds.\<close>

definition name_ok :: "u8 list \<Rightarrow> bool" where
  "name_ok name \<longleftrightarrow> \<not> is_empty name \<and> str_len name < 30"

definition room :: "'d fs \<Rightarrow> bool" where
  "room s \<longleftrightarrow> find_free_inode s \<noteq> None \<and> find_free_block s \<noteq> None"

definition has_slot :: "(nat \<Rightarrow> u8 list) \<Rightarrow> nat \<Rightarrow> bool" where
  "has_slot B d \<longleftrightarrow> (\<exists>e < 16. \<not> de_used (B d) e)"

lemma room_raw: "g_mounted s \<Longrightarrow> room s \<longleftrightarrow> alloc_inode_raw s \<noteq> None \<and> alloc_block_raw s \<noteq> None"
  by (simp add: room_def find_free_inode_def alloc_inode_raw_def find_free_block_def alloc_block_raw_def)

lemma new_entry_scan_None:
  "new_entry_scan name blk tab ty is sl = None \<Longrightarrow> ty \<noteq> 0 \<Longrightarrow> \<forall>e \<in> set is. de_used blk e \<longrightarrow> de_inode blk e < 64 \<Longrightarrow>
   \<exists>e \<in> set is. entry_matches name blk tab ty e"
  by (induction "is" arbitrary: sl) (auto simp: entry_matches_def split: if_split_asm)

lemma new_entry_scan_full:
  "new_entry_scan name blk tab ty is sl = Some None \<Longrightarrow> sl = None \<and> (\<forall>e \<in> set is. de_used blk e)"
proof (induction "is" arbitrary: sl)
  case (Cons i "is")
  then show ?case by (auto split: if_split_asm dest!: Cons.IH)
qed simp

lemma mkdir_path_scan_None:
  "mkdir_path_scan name blk tab is sl = None \<Longrightarrow> \<exists>e \<in> set is. entry_matches name blk tab INODE_DIR e"
  by (induction "is" arbitrary: sl) (auto simp: entry_matches_def split: if_split_asm)

lemma mkdir_path_scan_full:
  "mkdir_path_scan name blk tab is sl = Some None \<Longrightarrow> sl = None \<and> (\<forall>e \<in> set is. de_used blk e)"
proof (induction "is" arbitrary: sl)
  case (Cons i "is")
  then show ?case by (auto split: if_split_asm dest!: Cons.IH)
qed simp

lemma write_scan_None:
  "write_scan name blk tab is sl = None \<Longrightarrow> \<exists>e \<in> set is. de_used blk e \<and> 64 \<le> de_inode blk e"
  by (induction "is" arbitrary: sl) (auto split: if_split_asm)

lemma write_scan_full:
  "write_scan name blk tab is sl = Some (None, None) \<Longrightarrow> sl = None \<and> (\<forall>e \<in> set is. de_used blk e)"
proof (induction "is" arbitrary: sl)
  case (Cons i "is")
  then show ?case by (auto split: if_split_asm dest!: Cons.IH)
qed simp

lemma remove_scan_None:
  "remove_scan name blk tab ty is = None \<Longrightarrow> \<exists>e \<in> set is. de_used blk e \<and> (de_inode blk e = 0 \<or> 64 \<le> de_inode blk e)"
  by (induction "is") (auto split: if_split_asm)

lemma remove_scan_Nomatch:
  "remove_scan name blk tab ty is = Some None \<Longrightarrow> \<forall>e \<in> set is. ty \<noteq> 0 \<longrightarrow> \<not> entry_matches name blk tab ty e"
  by (induction "is") (auto simp: entry_matches_def split: if_split_asm)

text \<open>The outcomes of the scans in a consistent tree.\<close>

lemma tree_inodes:
  assumes "tree_ok tab B" "is_dir tab d" "e < 16" "de_used (B d) e"
  shows "0 < de_inode (B d) e" "de_inode (B d) e < 64"
  using assms links_okD(1,2) [of tab "ent tab B" "(d, e)"] by (auto simp: tree_ok_def ent_Some slot_used_def)

lemma scan_outcomes:
  assumes t: "tree_ok tab B" and d: "is_dir tab d"
  shows "new_entry_scan name (B d) tab ty [0..<16] None = None \<Longrightarrow> ty \<noteq> 0 \<Longrightarrow> entry_of tab B ty d name \<noteq> None"
    and "new_entry_scan name (B d) tab ty [0..<16] None = Some None \<Longrightarrow> \<not> has_slot B d"
    and "mkdir_path_scan name (B d) tab [0..<16] None = None \<Longrightarrow> entry_of tab B INODE_DIR d name \<noteq> None"
    and "mkdir_path_scan name (B d) tab [0..<16] None = Some None \<Longrightarrow> \<not> has_slot B d"
    and "write_scan name (B d) tab [0..<16] None \<noteq> None"
    and "write_scan name (B d) tab [0..<16] None = Some (None, free) \<Longrightarrow> entry_of tab B INODE_FILE d name = None"
    and "write_scan name (B d) tab [0..<16] None = Some (None, None) \<Longrightarrow> \<not> has_slot B d"
    and "remove_scan name (B d) tab INODE_FILE [0..<16] \<noteq> None"
    and "remove_scan name (B d) tab INODE_FILE [0..<16] = Some None \<Longrightarrow> entry_of tab B INODE_FILE d name = None"
proof -
  define I where "I = [0..<(16 :: nat)]"
  have mem: "e \<in> set I \<longleftrightarrow> e < 16" for e unfolding I_def set_upt by auto
  note N = entry_of_None [folded I_def] and T = tree_inodes [OF t d]
  have I: "\<forall>e \<in> set I. de_used (B d) e \<longrightarrow> de_inode (B d) e < 64" using T mem by blast
  have I': "\<not> (\<exists>e \<in> set I. de_used (B d) e \<and> (de_inode (B d) e = 0 \<or> 64 \<le> de_inode (B d) e))"
    using T mem by (metis less_irrefl not_le)
  have slots: "\<not> has_slot B d \<longleftrightarrow> (\<forall>e \<in> set I. de_used (B d) e)" using mem by (auto simp: has_slot_def)
  show "new_entry_scan name (B d) tab ty [0..<16] None = None \<Longrightarrow> ty \<noteq> 0 \<Longrightarrow> entry_of tab B ty d name \<noteq> None"
    using new_entry_scan_None [OF _ _ I] unfolding N I_def [symmetric] by blast
  show "new_entry_scan name (B d) tab ty [0..<16] None = Some None \<Longrightarrow> \<not> has_slot B d"
    using new_entry_scan_full unfolding slots I_def [symmetric] by blast
  show "mkdir_path_scan name (B d) tab [0..<16] None = None \<Longrightarrow> entry_of tab B INODE_DIR d name \<noteq> None"
    using mkdir_path_scan_None unfolding N I_def [symmetric] by blast
  show "mkdir_path_scan name (B d) tab [0..<16] None = Some None \<Longrightarrow> \<not> has_slot B d"
    using mkdir_path_scan_full unfolding slots I_def [symmetric] by blast
  show "write_scan name (B d) tab [0..<16] None \<noteq> None"
    using write_scan_None I' unfolding I_def [symmetric] by blast
  show "write_scan name (B d) tab [0..<16] None = Some (None, free) \<Longrightarrow> entry_of tab B INODE_FILE d name = None"
    using write_scan_Some [of name "B d" tab I None None free] unfolding N I_def [symmetric] by simp
  show "write_scan name (B d) tab [0..<16] None = Some (None, None) \<Longrightarrow> \<not> has_slot B d"
    using write_scan_full unfolding slots I_def [symmetric] by blast
  show "remove_scan name (B d) tab INODE_FILE [0..<16] \<noteq> None"
    using remove_scan_None I' unfolding I_def [symmetric] by blast
  show "remove_scan name (B d) tab INODE_FILE [0..<16] = Some None \<Longrightarrow> entry_of tab B INODE_FILE d name = None"
    using remove_scan_Nomatch [of name "B d" tab INODE_FILE I] unfolding N I_def [symmetric] by simp
qed

text \<open>A consistent tree in memory and on disk.\<close>

definition tree_at :: "(fs_head \<Rightarrow> 'd \<Rightarrow> bool) \<Rightarrow> ('d \<Rightarrow> nat \<Rightarrow> u8 list) \<Rightarrow> inode list \<Rightarrow> (nat \<Rightarrow> u8 list) \<Rightarrow> 'd fs \<Rightarrow> bool" where
  "tree_at K sec tab B s \<longleftrightarrow> fs_at K sec tab B s \<and> tree_ok tab B \<and> is_dir tab 0"

lemma is_dirD: "is_dir tab d \<Longrightarrow> d < 64 \<and> used (tab ! d) \<noteq> 0 \<and> itype (tab ! d) = INODE_DIR \<and> direct0 (tab ! d) \<noteq> 0"
  by (simp add: is_dir_def)

lemma ensure_root_at: "fs_at K sec tab B s \<Longrightarrow> is_dir tab 0 \<Longrightarrow> ensure_root_dir_block io s = (True, s)"
  by (simp add: ensure_root_dir_block_def fs_atD(4) is_dir_def)

lemma zero_block_free: "\<not> de_used zero_block e"
  by (simp add: de_used_def byte_at_replicate)

text \<open>What a call did to the tree: either nothing, or \<open>R\<close> relates the trees before and after.\<close>

definition tree_step where
  "tree_step K sec c R tab B ok s' \<longleftrightarrow> (ok \<longleftrightarrow> c) \<and>
     (if ok then synced sec s' \<and> (\<exists>tab' B'. tree_at K sec tab' B' s' \<and> R tab B tab' B')
      else tree_at K sec tab B s')"

definition put_file where
  "put_file d name content tab B tab' B' \<longleftrightarrow>
     (\<forall>d'. is_dir tab d' \<longrightarrow> is_dir tab' d' \<and>
        (\<forall>n. file_view tab' B' d' n = (if d' = d \<and> cstr n = cstr name then Some content else file_view tab B d' n)) \<and>
        (\<forall>n. entry_of tab' B' INODE_DIR d' n = entry_of tab B INODE_DIR d' n))"

definition put_dir where
  "put_dir d name tab B tab' B' \<longleftrightarrow>
     (\<exists>i. \<not> is_dir tab i \<and> is_dir tab' i \<and> (\<forall>n. file_view tab' B' i n = None \<and> entry_of tab' B' INODE_DIR i n = None) \<and>
     (\<forall>d'. is_dir tab d' \<longrightarrow> is_dir tab' d' \<and>
        (\<forall>n. file_view tab' B' d' n = file_view tab B d' n) \<and>
        (\<forall>n. entry_of tab' B' INODE_DIR d' n =
           (if d' = d \<and> cstr n = cstr name then Some i else entry_of tab B INODE_DIR d' n))))"

lemma entry_of_empty: "\<forall>e < 16. \<not> de_used (B d) e \<Longrightarrow> entry_of tab B ty d n = None"
  unfolding entry_of_None set_upt by (auto simp: entry_matches_def)

lemma put_file_add:
  assumes "tree_ok tab B" "is_dir tab d" "slot < 16" "\<not> de_used (B d) slot" "0 < i" "i < 64" "length tab = 64"
    and "used (tab ! i) = 0" "used nd \<noteq> 0" "itype nd = INODE_FILE" "length X = 512" "str_len name < 30"
    and "entry_of tab B INODE_FILE d name = None"
  defines "tab' \<equiv> tab[i := nd]" and "B' \<equiv> B(i := X, d := de_put (B d) slot i name)"
  shows "tree_ok tab' B'" and "put_file d name (mem_get X (unat (isize nd))) tab B tab' B'" 
    and "entry_of tab' B' INODE_FILE d name = Some i"
  using tree_add [OF assms(1-10) _ assms(11) _ assms(12,13)] assms(2)
  by (auto simp: put_file_def tab'_def B'_def)

lemma put_dir_add:
  assumes "tree_ok tab B" "is_dir tab d" "slot < 16" "\<not> de_used (B d) slot" "0 < i" "i < 64" "length tab = 64"
    and "used (tab ! i) = 0" "used nd \<noteq> 0" "itype nd = INODE_DIR" "direct0 nd \<noteq> 0" "str_len name < 30"
    and "entry_of tab B INODE_DIR d name = None"
  defines "tab' \<equiv> tab[i := nd]" and "B' \<equiv> B(i := zero_block, d := de_put (B d) slot i name)"
  shows "tree_ok tab' B'" and "put_dir d name tab B tab' B'"
proof -
  note T = tree_add [OF assms(1-10) _ _ _ assms(12,13), of zero_block]
  have di: "i \<noteq> d" "\<not> is_dir tab i" using assms(2,8) by (auto simp: is_dir_def)
  have "is_dir tab' i" using assms(6,7,9,10,11) by (simp add: is_dir_def tab'_def)
  moreover have "entry_of tab' B' ty i n = None" for ty n
    by (rule entry_of_empty) (use di in \<open>simp add: B'_def zero_block_free\<close>)
  ultimately show "put_dir d name tab B tab' B'"
    unfolding put_dir_def using T di zero_block_free
    by (intro exI [of _ i]) (auto simp: tab'_def B'_def file_view_def)
  show "tree_ok tab' B'" using T zero_block_free by (simp add: tab'_def B'_def)
qed

lemma new_inode_fields:
  "itype ((fill_inode ty b nd)\<lparr>isize := n\<rparr>) = ty" "used ((fill_inode ty b nd)\<lparr>isize := n\<rparr>) \<noteq> 0"
  by (simp_all add: fill_inode_def)

lemma find_free_cong:
  assumes "fs_head s' = fs_head s"
  shows "g_inodes s' = g_inodes s \<Longrightarrow> find_free_inode s' = find_free_inode s"
    and "g_inodes s' = g_inodes s \<Longrightarrow> alloc_inode_raw s' = alloc_inode_raw s"
    and "g_bitmap s' = g_bitmap s \<Longrightarrow> find_free_block s' = find_free_block s"
    and "g_bitmap s' = g_bitmap s \<Longrightarrow> alloc_block_raw s' = alloc_block_raw s"
  using assms by (auto simp: fs_head_def find_free_inode_def inode_limit_def find_free_block_def block_limit_def
    alloc_inode_raw_def alloc_block_raw_def inode_at_def)

lemma fill_inode_ok:
  assumes "fs_ok K s" "inode_at s i = nd0" "find_free_block s = Some b \<or> alloc_block_raw s = Some b" "i < 64"
  shows "direct0 ((fill_inode ty b nd0)\<lparr>isize := n\<rparr>) \<noteq> 0"
    "direct0 ((fill_inode ty b nd0)\<lparr>isize := n\<rparr>) = of_nat b"
proof -
  have m: "mem_inv s" using assms(1) by simp
  have b: "0 < b" "b < unat (block_count (g_sb s))"
    using assms(3) find_free_blockD [OF _ m] alloc_block_rawD [OF _ m] by blast+
  then have "b < 2 ^ 32" using order.strict_trans [OF b(2) unat_less_u32] by simp
  then have "(of_nat b :: u32) \<noteq> 0" using b(1) of_nat_eq_u32 [of b 0] by simp
  moreover have "inode_shape nd0" using mem_inv_shape [OF m assms(4)] assms(2) by simp
  ultimately show "direct0 ((fill_inode ty b nd0)\<lparr>isize := n\<rparr>) \<noteq> 0"
    "direct0 ((fill_inode ty b nd0)\<lparr>isize := n\<rparr>) = of_nat b"
    by (simp_all add: fill_inode_def direct0_def inode_shape_def)
qed

context reliable_fs
begin

lemmas post_read_at = read_at [where P = "post Q" for Q]
lemmas post_write_at = write_at [where P = "post Q" for Q]

lemma commit_dir:
  assumes "fs_at K sec tab' B1 s1" and "is_dir tab' d" and "length blk = 512"
    and "tree_ok tab' (B1(d := blk))" "is_dir tab' 0" "R tab B tab' (B1(d := blk))" "c"
  shows "post (tree_step K sec c R tab B)
    (case disk_write_lba io (block_lba s1 d) blk 1 s1 of (ok, s) \<Rightarrow> if \<not> ok then (False, s) else flush io s)"
  by (rule post_write_at [OF assms(1) refl], (use assms in \<open>auto simp: is_dir_def\<close>)[3],
      simp, rule flush_at, assumption)
    (use assms in \<open>auto simp: tree_step_def tree_at_def\<close>)

lemma unchanged: "tree_at K sec tab B s \<Longrightarrow> fs_at K sec tab B s' \<Longrightarrow> \<not> c \<Longrightarrow> post (tree_step K sec c R tab B) (False, s')"
  by (simp add: post_def tree_step_def tree_at_def)

lemma commit_new_file:
  assumes at: "fs_at K sec tab B s" and t: "tree_ok tab B" and d: "is_dir tab d" and r: "is_dir tab 0"
    and slot: "slot < 16" "\<not> de_used (B d) slot" "entry_of tab B INODE_FILE d name = None"
    and fi: "find_free_inode s = Some i" and fb: "find_free_block s = Some b" and n: "str_len name < 30" and c: c
  defines "nd \<equiv> (fill_inode INODE_FILE b (inode_at (mark_block_used b s) i))\<lparr>isize := 0\<rparr>"
  defines "s1 \<equiv> set_inode i nd (mark_block_used b s)"
  shows "post (tree_step K sec c (put_file d name []) tab B)
    (case disk_write_lba io (block_lba s1 d) (de_put (B d) slot i name) 1 s1 of
       (ok, s) \<Rightarrow> if \<not> ok then (False, s) else flush io s)"
proof -
  note A = fs_atD [OF at]
  note i = find_free_inodeD [OF fi]
  have nd: "nd = (fill_inode INODE_FILE b (tab ! i))\<lparr>isize := 0\<rparr>" by (simp add: nd_def A(4))
  obtain X where X: "length X = 512" "fs_at K sec (tab[i := nd]) (B(i := X)) s1"
    using alloc_at [OF at disjI1 [OF fi] disjI1 [OF fb], of INODE_FILE nd 0] nd by (auto simp: s1_def)
  have P: "tree_ok (tab[i := nd]) (B(i := X, d := de_put (B d) slot i name))"
    "put_file d name [] tab B (tab[i := nd]) (B(i := X, d := de_put (B d) slot i name))"
    using put_file_add [OF t d slot(1,2) _ _ A(6) _ _ _ X(1) n slot(3), of i nd] i A(4) new_inode_fields
    by (auto simp: nd)
  show ?thesis
    by (rule commit_dir [OF X(2)]) (use P t d r c in \<open>auto simp: put_file_def tree_ok_def blocks_ok_def\<close>)
qed

lemma commit_new_dir:
  assumes at: "fs_at K sec tab B s" and t: "tree_ok tab B" and d: "is_dir tab d" and r: "is_dir tab 0"
    and slot: "slot < 16" "\<not> de_used (B d) slot" "entry_of tab B INODE_DIR d name = None"
    and fi: "find_free_inode s = Some i \<or> alloc_inode_raw s = Some i"
    and fb: "find_free_block s = Some b \<or> alloc_block_raw s = Some b" and n: "str_len name < 30" and c: c
  defines "nd \<equiv> (fill_inode INODE_DIR b (inode_at (mark_block_used b s) i))\<lparr>isize := 0\<rparr>"
  defines "s1 \<equiv> set_inode i nd (mark_block_used b s)"
  shows "post (tree_step K sec c (put_dir d name) tab B)
    (case disk_write_lba io (data_lba (g_sb s1) + of_nat b) zero_block 1 s1 of
       (ok, s) \<Rightarrow> if \<not> ok then (False, s) else
       case disk_write_lba io (block_lba s d) (de_put (B d) slot i name) 1 s of
       (ok, s) \<Rightarrow> if \<not> ok then (False, s) else flush io s)"
proof -
  note A = fs_atD [OF at]
  have i: "0 < i" "i < 64" "used (inode_at s i) = 0" using fi find_free_inodeD alloc_inode_rawD by blast+
  have nd: "nd = (fill_inode INODE_DIR b (tab ! i))\<lparr>isize := 0\<rparr>" by (simp add: nd_def A(4))
  note d0 = fill_inode_ok [OF A(1) A(4) fb i(2), where ty = INODE_DIR and n = 0, folded nd]
  obtain X where X: "length X = 512" "fs_at K sec (tab[i := nd]) (B(i := X)) s1"
    using alloc_at [OF at fi fb, of INODE_DIR nd 0] nd by (auto simp: s1_def)
  have lba: "data_lba (g_sb s1) + of_nat b = block_lba s1 i"
    using d0(2) i A(6) fs_atD(4) [OF X(2)] by (simp add: block_lba_def)
  have P: "tree_ok (tab[i := nd]) (B(i := zero_block, d := de_put (B d) slot i name))"
    "put_dir d name tab B (tab[i := nd]) (B(i := zero_block, d := de_put (B d) slot i name))"
    using put_dir_add [OF t d slot(1,2) i(1,2) A(6) _ _ _ d0(1) n slot(3)] i A(4) new_inode_fields
    by (auto simp: nd)
  show ?thesis
    unfolding lba
  proof (rule post_write_at [OF X(2) refl])
    fix s' assume "fs_at K sec (tab[i := nd]) ((B(i := X))(i := zero_block)) s'"
    then have s': "fs_at K sec (tab[i := nd]) (B(i := zero_block)) s'" by simp
    show "post (tree_step K sec c (put_dir d name) tab B)
      (if \<not> True then (False, s') else case disk_write_lba io (block_lba s' d) (de_put (B d) slot i name) 1 s' of
       (ok, s) \<Rightarrow> if \<not> ok then (False, s) else flush io s)"
      unfolding not_True_eq_False if_False
      by (rule commit_dir [OF s']) (use P t d r c in \<open>auto simp: put_dir_def tree_ok_def blocks_ok_def\<close>)
  qed (use i d0 A(6) in simp_all)
qed

lemma fs_create_step:
  assumes a: "tree_at K sec tab B s"
  shows "post (tree_step K sec (g_mounted s \<and> name_ok name \<and> room s \<and> has_slot B 0 \<and> entry_of tab B INODE_FILE 0 name = None)
    (put_file 0 name []) tab B) (fs_create io (Some name) s)" (is "post (tree_step K sec ?c _ tab B) _")
proof -
  have at: "fs_at K sec tab B s" and t: "tree_ok tab B" and r: "is_dir tab 0" using a by (auto simp: tree_at_def)
  note out = scan_outcomes(1,2) [OF t r, of name INODE_FILE]
  show ?thesis
    unfolding fs_create_def Let_def option.case ensure_root_at [OF at r] prod.case not_True_eq_False if_False
  proof ((rule post_if post_option unchanged [OF a] at post_read_at [OF at] refl | assumption
      | (simp add: name_ok_def room_def; fail) | (use out in \<open>auto dest!: fs_atD(3)\<close>; fail))+, goal_cases)
    case (1 i b s1 y slot)
    have s1: "fs_at K sec tab B s1" by fact
    have free: "find_free_inode s1 = Some i" "find_free_block s1 = Some b"
      using 1 find_free_cong [of s1 s] fs_atD(3) [OF s1] fs_atD(3) [OF at] by auto
    have "new_entry_scan name (B 0) tab INODE_FILE [0..<16] None = Some (Some slot)"
      using 1 fs_atD(3) [OF s1] by simp
    note slot = new_entry_slot [where B = B and d = 0, OF this, simplified]
    then have ?c using 1 by (auto simp: name_ok_def room_def has_slot_def)
    with slot show ?case
      by (intro commit_new_file [OF s1 t r r _ _ _ free]) (use 1 in simp_all)
  qed
qed

lemma fs_mkdir_step:
  assumes a: "tree_at K sec tab B s"
  shows "post (tree_step K sec (g_mounted s \<and> name_ok name \<and> room s \<and> has_slot B 0 \<and> entry_of tab B INODE_DIR 0 name = None)
    (put_dir 0 name) tab B) (fs_mkdir io (Some name) s)" (is "post (tree_step K sec ?c _ tab B) _")
proof -
  have at: "fs_at K sec tab B s" and t: "tree_ok tab B" and r: "is_dir tab 0" using a by (auto simp: tree_at_def)
  note out = scan_outcomes(1,2) [OF t r, of name INODE_DIR]
  show ?thesis
    unfolding fs_mkdir_def Let_def option.case ensure_root_at [OF at r] prod.case not_True_eq_False if_False
  proof ((rule post_if post_option unchanged [OF a] at post_read_at [OF at] refl | assumption
      | (simp add: name_ok_def room_def; fail) | (use out in \<open>auto dest!: fs_atD(3)\<close>; fail))+, goal_cases)
    case (1 i b s1 y slot)
    have s1: "fs_at K sec tab B s1" by fact
    have free: "find_free_inode s1 = Some i" "find_free_block s1 = Some b"
      using 1 find_free_cong [of s1 s] fs_atD(3) [OF s1] fs_atD(3) [OF at] by auto
    have "new_entry_scan name (B 0) tab INODE_DIR [0..<16] None = Some (Some slot)"
      using 1 fs_atD(3) [OF s1] by simp
    note slot = new_entry_slot [where B = B and d = 0, OF this, simplified]
    then have ?c using 1 by (auto simp: name_ok_def room_def has_slot_def)
    with slot show ?case
      by (intro commit_new_dir [OF s1 t r r _ _ _ disjI1 [OF free(1)] disjI1 [OF free(2)]]) (use 1 in simp_all)
  qed
qed

end

end
