(* ===== verification/FsCalls.thy ===== *)
theory FsCalls
  imports FsSpec
begin

text \<open>
  The calls that write, make directories on paths, read and remove files, as steps of the tree: when
  each succeeds and what it then changes, or returns.
\<close>

text \<open>What \<^verbatim>\<open>fs_write\<close> stores of its argument: at most a block, up to the terminator.\<close>

definition file_content :: "u8 list option \<Rightarrow> u8 list" where
  "file_content data = (case data of None \<Rightarrow> [] | Some d \<Rightarrow> take 512 (cstr d))"

lemma data_len_le: "data_len data \<le> 512"
  by (simp add: data_len_def split: option.split)

lemma file_content_block:
  "mem_get (mem_copy zero_block 0 (case data of None \<Rightarrow> [] | Some d \<Rightarrow> d) (data_len data))
     (unat (of_nat (data_len data) :: u32)) = file_content data"
proof (cases data)
  case None
  then show ?thesis by (simp add: file_content_def data_len_def)
next
  case (Some d)
  have n: "data_len data = min 512 (length (cstr d))" by (simp add: Some data_len_def str_len_cstr)
  have "unat (of_nat (data_len data) :: u32) = data_len data"
    using data_len_le [of data] by (intro unat_of_nat_u32) simp
  moreover have "mem_get (mem_copy zero_block 0 d (data_len data)) (data_len data) = take 512 (cstr d)"
  proof (rule nth_equalityI)
    show "length (mem_get (mem_copy zero_block 0 d (data_len data)) (data_len data)) = length (take 512 (cstr d))"
      by (simp add: n)
    fix i assume "i < length (mem_get (mem_copy zero_block 0 d (data_len data)) (data_len data))"
    then have "i < data_len data" by simp
    then show "mem_get (mem_copy zero_block 0 d (data_len data)) (data_len data) ! i = take 512 (cstr d) ! i"
      using data_len_le [of data]
      by (simp add: mem_get_def byte_at_mem_copy)
        (auto simp: n byte_at_def cstr_def takeWhile_nth dest: less_le_trans [OF _ length_takeWhile_le])
  qed
  ultimately show ?thesis by (simp add: Some file_content_def)
qed

text \<open>
  What a call on a path does: with the directory of its first part if there is one in the root, else
  nothing. The second part is taken as one name, whatever slashes it has.
\<close>

definition in_subdir where
  "in_subdir K sec path P tab B ok s' \<longleftrightarrow>
     (case entry_of tab B INODE_DIR 0 (path_dir path) of
        None \<Rightarrow> \<not> ok \<and> tree_at K sec tab B s'
      | Some d \<Rightarrow> P d ok s')"

context reliable_fs
begin

lemma find_subdir_at:
  assumes at: "fs_at K sec tab B s" and r: "is_dir tab 0"
    and f: "\<And>s'. fs_at K sec tab B s' \<Longrightarrow> fs_head s' = fs_head s \<Longrightarrow> g_bitmap s' = g_bitmap s \<Longrightarrow>
      post Q (f (entry_of tab B INODE_DIR 0 nm) s')"
  shows "post Q (case find_subdir io nm s of (r, s) \<Rightarrow> f r s)"
proof -
  note A = fs_atD [OF at]
  have e: "find_subdir io nm s = (case disk_read_lba io (block_lba s 0) 1 s of (ok, blk, s) \<Rightarrow>
      if \<not> ok then (None, s) else
      case find_dir_entry nm blk (g_inodes s) INODE_DIR of None \<Rightarrow> (None, s) | Some e \<Rightarrow>
      if FS_MAX_INODES \<le> de_inode blk e then (None, s) else (Some (de_inode blk e), s))"
    using r A(4) by (simp add: find_subdir_def is_dir_def)
  show ?thesis
    unfolding e
    by (rule read_at [where P = "\<lambda>x. post Q (case x of (r, s) \<Rightarrow> f r s)", OF at refl])
      (use f in \<open>auto simp: entry_of_def fs_atD(3) split: option.split dest: find_dir_entry_range\<close>)
qed

lemma write_file_at:
  fixes data :: "u8 list option"
  assumes at: "fs_at K sec tab1 B1 s" and d: "is_dir tab1 d" and l: "length blk = 512" and i: "i < 64" "direct0 (tab1 ! i) \<noteq> 0"
  defines "tab' \<equiv> tab1[i := (tab1 ! i)\<lparr>isize := of_nat (data_len data)\<rparr>]"
    and "content \<equiv> mem_copy zero_block 0 (case data of None \<Rightarrow> [] | Some d \<Rightarrow> d) (data_len data)"
  assumes fin: "tree_ok tab' (B1(d := blk, i := content))" "is_dir tab' 0" "R tab B tab' (B1(d := blk, i := content))" "c"
  shows "post (tree_step K sec c R tab B) (write_file io d blk i data s)"
proof -
  note A = fs_atD [OF at]
  let ?s = "set_inode i ((tab1 ! i)\<lparr>isize := of_nat (data_len data)\<rparr>) s"
  have at1: "fs_at K sec tab' B1 ?s" using isize_at [OF at i(1)] by (simp add: tab'_def)
  have nth: "direct0 (tab' ! j) = direct0 (tab1 ! j)" for j
    by (cases "j = i") (use i(1) A(6) in \<open>simp_all add: tab'_def\<close>)
  show ?thesis
    unfolding write_file_def Let_def A(4)
  proof (rule post_write_at [OF at1 refl])
    fix s1 assume s1: "fs_at K sec tab' (B1(d := blk)) s1"
    show "post (tree_step K sec c R tab B) (if \<not> True then (False, s1) else
        case disk_write_lba io (block_lba s1 i) (mem_copy zero_block 0 (case data of None \<Rightarrow> [] | Some d \<Rightarrow> d) (data_len data)) 1 s1 of
          (ok, s) \<Rightarrow> if \<not> ok then (False, s) else flush io s)"
      unfolding not_True_eq_False if_False content_def [symmetric]
    proof (rule post_write_at [OF s1 refl])
      fix s2 assume s2: "fs_at K sec tab' (B1(d := blk, i := content)) s2"
      show "post (tree_step K sec c R tab B) (if \<not> True then (False, s2) else flush io s2)"
        unfolding not_True_eq_False if_False
        by (rule flush_at [OF s2]) (use fin in \<open>auto simp: tree_step_def tree_at_def\<close>)
    qed (use i nth in \<open>auto simp: content_def\<close>)
  qed (use d l nth in \<open>auto simp: is_dir_def\<close>)
qed

text \<open>The common part of the two write calls, in directory \<open>d\<close>.\<close>

lemma write_in_dir:
  assumes a: "tree_at K sec tab B s0" and at: "fs_at K sec tab B s" and d: "is_dir tab d"
    and sc: "write_scan name (B d) tab [0..<16] None = Some (found, free)"
    and n: "str_len name < 30"
    and c: "c \<longleftrightarrow> entry_of tab B INODE_FILE d name \<noteq> None \<or> has_slot B d \<and> room s"
  shows "post (tree_step K sec c (put_file d name (file_content data)) tab B)
    (case claim_file (B d) name found free s of (r, s) \<Rightarrow>
       case r of None \<Rightarrow> (False, s) | Some (target, blk) \<Rightarrow> write_file io d blk target data s)"
proof -
  have t: "tree_ok tab B" and r: "is_dir tab 0" using a by (auto simp: tree_at_def)
  have lk: "links_ok tab (ent tab B)" and l: "length (B d) = 512" using t by (auto simp: tree_ok_def blocks_ok_def)
  note A = fs_atD [OF at]
  let ?c = "mem_copy zero_block 0 (case data of None \<Rightarrow> [] | Some d \<Rightarrow> d) (data_len data)"
  let ?n = "of_nat (data_len data) :: u32"
  note no = unchanged [OF a]
  show ?thesis
  proof (cases found)
    case (Some i)
    have e: "entry_of tab B INODE_FILE d name = Some i" using write_target [OF lk d] sc Some by simp
    note E = entry_of_live [OF t d _ e, simplified]
    have d0: "direct0 (tab ! i) \<noteq> 0"
      using A(2,4) E unfolding mem_inv_def tab_inv_def inode_at_def by (metis neq0_conv)
    note W = tree_write [OF t d A(6) _ e, where X = ?c and sz = ?n]
    have "put_file d name (file_content data) tab B (tab[i := (tab ! i)\<lparr>isize := ?n\<rparr>]) (B(i := ?c))"
      using W(2-4) by (simp add: put_file_def file_content_block)
    then have "post (tree_step K sec c (put_file d name (file_content data)) tab B) (write_file io d (B d) i data s)"
      by (intro write_file_at [OF at d l E(2) d0]) (use W(1,2) r c e in simp_all)
    then show ?thesis by (simp add: claim_file_def Some)
  next
    case None
    show ?thesis
    proof (cases "\<exists>slot i b. free = Some slot \<and> find_free_inode s = Some i \<and> find_free_block s = Some b")
      case False
      then have cf: "claim_file (B d) name found free s = (None, s)"
        by (auto simp: claim_file_def None split: option.split)
      have "\<not> c"
        using False scan_outcomes(6,7) [OF t d] sc None c by (cases free) (auto simp: room_def)
      with cf show ?thesis using no [OF at] by simp
    next
      case True
      then obtain slot i b where fr: "free = Some slot" and fi: "find_free_inode s = Some i"
        and fb: "find_free_block s = Some b" by blast
      note slot = write_slot [where B = B and d = d, OF sc [unfolded None fr]]
      note i = find_free_inodeD [OF fi]
      define nd where "nd = fill_inode INODE_FILE b (tab ! i)"
      have nd': "nd = (fill_inode INODE_FILE b (tab ! i))\<lparr>isize := isize (tab ! i)\<rparr>"
        by (simp add: nd_def fill_inode_def)
      let ?nd = "nd\<lparr>isize := ?n\<rparr>" and ?s1 = "set_inode i nd (mark_block_used b s)"
      obtain X where X: "length X = 512" "fs_at K sec (tab[i := nd]) (B(i := X)) ?s1"
        using alloc_at [OF at disjI1 [OF fi] disjI1 [OF fb] _ nd'] by auto
      have d0: "direct0 nd \<noteq> 0"
        using fill_inode_ok(1) [OF A(1) A(4) disjI1 [OF fb], where ty = INODE_FILE] i unfolding nd' by blast
      have di: "d \<noteq> i" using d i A(4) by (auto simp: is_dir_def)
      have P: "tree_ok (tab[i := ?nd]) (B(i := ?c, d := de_put (B d) slot i name))"
        "put_file d name (file_content data) tab B (tab[i := ?nd]) (B(i := ?c, d := de_put (B d) slot i name))"
        using put_file_add [OF t d slot(1,2) _ _ A(6) _ _ _ _ n slot(3), of i ?nd ?c] i A(4)
        by (auto simp: nd_def fill_inode_def file_content_block)
      have "claim_file (B d) name found free s = (Some (i, de_put (B d) slot i name), ?s1)"
        by (simp add: claim_file_def None fr fi fb A(4) nd_def)
      moreover have "post (tree_step K sec c (put_file d name (file_content data)) tab B)
          (write_file io d (de_put (B d) slot i name) i data ?s1)"
      proof (rule write_file_at [OF X(2)])
        show "is_dir (tab[i := nd]) d" using d di by (simp add: is_dir_def)
        have eq: "(B(i := X))(d := de_put (B d) slot i name, i := ?c) = B(i := ?c, d := de_put (B d) slot i name)"
          using di by (auto simp: fun_eq_iff)
        have tb: "(tab[i := nd])[i := ((tab[i := nd]) ! i)\<lparr>isize := ?n\<rparr>] = tab[i := ?nd]"
          using i A(6) by simp
        show "tree_ok ((tab[i := nd])[i := ((tab[i := nd]) ! i)\<lparr>isize := ?n\<rparr>]) ((B(i := X))(d := de_put (B d) slot i name, i := ?c))"
          "put_file d name (file_content data) tab B ((tab[i := nd])[i := ((tab[i := nd]) ! i)\<lparr>isize := ?n\<rparr>])
             ((B(i := X))(d := de_put (B d) slot i name, i := ?c))"
          unfolding eq tb by (rule P)+
        show "is_dir ((tab[i := nd])[i := ((tab[i := nd]) ! i)\<lparr>isize := ?n\<rparr>]) 0"
          using P(2) r unfolding tb by (simp add: put_file_def)
        show c using c slot fi fb by (auto simp: has_slot_def room_def)
      qed (use l i d0 A(6) in simp_all)
      ultimately show ?thesis by simp
    qed
  qed
qed

lemma room_cong:
  assumes "fs_head s' = fs_head s" "g_inodes s' = g_inodes s" "g_bitmap s' = g_bitmap s"
  shows "room s' = room s"
  unfolding room_def find_free_cong(1) [OF assms(1,2)] find_free_cong(3) [OF assms(1,3)] ..

lemma fs_write_step:
  assumes a: "tree_at K sec tab B s"
  shows "post (tree_step K sec (g_mounted s \<and> name_ok name \<and>
      (entry_of tab B INODE_FILE 0 name \<noteq> None \<or> has_slot B 0 \<and> room s))
    (put_file 0 name (file_content data)) tab B) (fs_write io (Some name) data s)" (is "post (tree_step K sec ?c _ tab B) _")
proof -
  have at: "fs_at K sec tab B s" and t: "tree_ok tab B" and r: "is_dir tab 0" using a by (auto simp: tree_at_def)
  have sc5: "fs_at K sec tab B s' \<Longrightarrow> write_scan name (B 0) (g_inodes s') [0..<16] None = None \<Longrightarrow> P" for s' P
    using scan_outcomes(5) [OF t r] fs_atD(3) [of K sec tab B s'] by simp
  show ?thesis
    unfolding fs_write_def Let_def option.case ensure_root_at [OF at r] prod.case not_True_eq_False if_False
  proof ((rule post_if post_option unchanged [OF a] at post_read_at [OF at] refl | assumption
      | (simp add: name_ok_def; fail) | (erule (1) sc5))+, goal_cases)
    case (1 s1 y)
    obtain found free where y: "y = (found, free)" by (cases y)
    have s1: "fs_at K sec tab B s1" by fact
    have "room s1 = room s" using 1 fs_atD(3) [OF s1] fs_atD(3) [OF at] by (intro room_cong) simp_all
    then have c: "?c \<longleftrightarrow> entry_of tab B INODE_FILE 0 name \<noteq> None \<or> has_slot B 0 \<and> room s1"
      using 1 by (simp add: name_ok_def)
    have "write_scan name (B 0) tab [0..<16] None = Some (found, free)"
      using 1 y fs_atD(3) [OF s1] by simp
    then show ?case unfolding y prod.case by (rule write_in_dir [OF a s1 r _ _ c]) (use 1 in simp)
  qed
qed

text \<open>A subdirectory as the calls on paths find it.\<close>

lemma subdir_is_dir:
  assumes "tree_ok tab B" "is_dir tab 0" "entry_of tab B INODE_DIR 0 nm = Some d" "direct0 (tab ! d) \<noteq> 0"
  shows "is_dir tab d"
  using entry_of_live [OF assms(1,2) _ assms(3)] assms(4) by (simp add: is_dir_def)

lemma live_block:
  assumes "fs_at K sec tab B s" "tree_ok tab B" "is_dir tab d" "entry_of tab B ty d n = Some i" "ty \<noteq> 0"
  shows "i < 64" "direct0 (tab ! i) \<noteq> 0"
proof -
  note E = entry_of_live [OF assms(2,3,5,4)]
  show "i < 64" by (rule E(2))
  show "direct0 (tab ! i) \<noteq> 0"
    using fs_atD(2,4) [OF assms(1)] E unfolding mem_inv_def tab_inv_def inode_at_def by (metis neq0_conv)
qed

lemma subdir_at:
  assumes "tree_at K sec tab B s" "entry_of tab B INODE_DIR 0 nm = Some d"
  shows "is_dir tab d"
  using assms subdir_is_dir live_block(2) [of tab B s 0 INODE_DIR nm d]
  by (auto simp: tree_at_def)

lemma fs_write_path_step:
  assumes a: "tree_at K sec tab B s" and p: "has_sep path" "\<not> is_empty path"
    and n: "str_len (path_rest path) < 30"
  shows "post (in_subdir K sec path (\<lambda>d. tree_step K sec (g_mounted s \<and> \<not> is_empty (path_rest path) \<and>
        (entry_of tab B INODE_FILE d (path_rest path) \<noteq> None \<or> has_slot B d \<and> room s))
      (put_file d (path_rest path) (file_content data)) tab B) tab B)
    (fs_write_path io (Some path) data s)" (is "post ?Q _")
proof -
  have at: "fs_at K sec tab B s" and t: "tree_ok tab B" and r: "is_dir tab 0" using a by (auto simp: tree_at_def)
  have no: "post ?Q (False, s')" if "fs_at K sec tab B s'" "\<not> (g_mounted s \<and> \<not> is_empty (path_rest path))" for s'
    using that t r by (auto simp: post_def tree_step_def tree_at_def in_subdir_def split: option.split)
  show ?thesis
    unfolding fs_write_path_def Let_def option.case
  proof (intro post_if no at, (simp add: p; fail), (simp add: p; fail), simp, rule find_subdir_at [OF at r])
    fix s1 assume m: "\<not> (\<not> g_mounted s \<or> is_empty path)" "\<not> is_empty (path_rest path)"
      and s1: "fs_at K sec tab B s1" "fs_head s1 = fs_head s" "g_bitmap s1 = g_bitmap s"
    show "post ?Q (case entry_of tab B INODE_DIR 0 (path_dir path) of None \<Rightarrow> (False, s1) | Some dir \<Rightarrow>
       if direct0 (inode_at s1 dir) = 0 then (False, s1) else
       case disk_read_lba io (block_lba s1 dir) 1 s1 of (ok, blk, s) \<Rightarrow> if \<not> ok then (False, s) else
       case write_scan (path_rest path) blk (g_inodes s) [0..<entry_count] None of None \<Rightarrow> (False, s)
       | Some (found, free) \<Rightarrow>
       case claim_file blk (path_rest path) found free s of (r, s) \<Rightarrow>
       case r of None \<Rightarrow> (False, s) | Some (target, blk) \<Rightarrow> write_file io dir blk target data s)"
    proof (cases "entry_of tab B INODE_DIR 0 (path_dir path)")
      case None
      then show ?thesis using s1 t r by (simp add: post_def in_subdir_def tree_at_def)
    next
      case (Some d)
      let ?c = "g_mounted s \<and> \<not> is_empty (path_rest path) \<and>
        (entry_of tab B INODE_FILE d (path_rest path) \<noteq> None \<or> has_slot B d \<and> room s)"
      have d: "is_dir tab d" by (rule subdir_at [OF a Some])
      have un: "\<not> direct0 (inode_at s1 d) = 0" "d < 64" using d fs_atD(4) [OF s1(1)] by (simp_all add: is_dir_def)
      have Q: "post ?Q x \<longleftrightarrow> post (tree_step K sec ?c (put_file d (path_rest path) (file_content data)) tab B) x" for x
        by (simp add: in_subdir_def Some post_def)
      show ?thesis
        unfolding Some option.case Q
      proof (simp only: un if_False, rule post_read_at [OF s1(1) refl un(2)], simp only: not_True_eq_False if_False)
        fix s2 assume s2: "fs_at K sec tab B s2" "fs_head s2 = fs_head s1" "g_bitmap s2 = g_bitmap s1"
        obtain found free where y: "write_scan (path_rest path) (B d) tab [0..<16] None = Some (found, free)"
          using scan_outcomes(5) [OF t d] by fastforce
        have "room s2 = room s" using s1 s2 fs_atD(3) [OF at] fs_atD(3) [OF s2(1)] by (intro room_cong) simp_all
        then have c: "?c \<longleftrightarrow> entry_of tab B INODE_FILE d (path_rest path) \<noteq> None \<or> has_slot B d \<and> room s2"
          using m by simp
        show "post (tree_step K sec ?c (put_file d (path_rest path) (file_content data)) tab B)
          (case write_scan (path_rest path) (B d) (g_inodes s2) [0..<entry_count] None of None \<Rightarrow> (False, s2)
           | Some (found, free) \<Rightarrow>
             case claim_file (B d) (path_rest path) found free s2 of (r, s) \<Rightarrow>
             case r of None \<Rightarrow> (False, s) | Some (target, blk) \<Rightarrow> write_file io d blk target data s)"
          unfolding fs_atD(3) [OF s2(1)] y option.case prod.case by (rule write_in_dir [OF a s2(1) d y n c])
      qed
    qed
  qed
qed

end

context reliable_fs
begin
lemma fs_mkdir_path_step:
  assumes a: "tree_at K sec tab B s" and p: "has_sep path" "\<not> is_empty path"
  shows "post (in_subdir K sec path (\<lambda>d. tree_step K sec (g_mounted s \<and> name_ok (path_rest path) \<and>
        \<not> has_sep (path_rest path) \<and> room s \<and> has_slot B d \<and> entry_of tab B INODE_DIR d (path_rest path) = None)
      (put_dir d (path_rest path)) tab B) tab B)
    (fs_mkdir_path io (Some path) s)" (is "post ?Q _")
proof -
  have at: "fs_at K sec tab B s" and t: "tree_ok tab B" and r: "is_dir tab 0" using a by (auto simp: tree_at_def)
  let ?m = "g_mounted s \<and> name_ok (path_rest path) \<and> \<not> has_sep (path_rest path)"
  have no: "post ?Q (False, s')" if "fs_at K sec tab B s'" "\<not> ?m" for s'
    using that t r by (auto simp: post_def tree_step_def tree_at_def in_subdir_def split: option.split)
  show ?thesis
    unfolding fs_mkdir_path_def Let_def option.case ensure_root_at [OF at r] prod.case not_True_eq_False if_False
  proof (intro post_if no at, (simp_all add: p name_ok_def)[5], rule post_read_at [OF at refl],
      simp, unfold not_True_eq_False if_False)
    fix s1 assume m: "\<not> (\<not> g_mounted s \<or> is_empty path)" "\<not> is_empty (path_rest path)" "\<not> has_sep (path_rest path)"
      "\<not> 30 \<le> str_len (path_rest path)"
      and s1: "fs_at K sec tab B s1" "fs_head s1 = fs_head s" "g_bitmap s1 = g_bitmap s"
    note A = fs_atD [OF s1(1)]
    have mm: ?m using m by (simp add: name_ok_def)
    show "post ?Q (case find_dir_entry (path_dir path) (B 0) (g_inodes s1) INODE_DIR of None \<Rightarrow> (False, s1) | Some e \<Rightarrow>
       if FS_MAX_INODES \<le> de_inode (B 0) e then (False, s1)
       else if direct0 (inode_at s1 (de_inode (B 0) e)) = 0 then (False, s1) else
       case disk_read_lba io (block_lba s1 (de_inode (B 0) e)) 1 s1 of (ok, blk, s) \<Rightarrow> if \<not> ok then (False, s) else
       case mkdir_path_scan (path_rest path) blk (g_inodes s) [0..<entry_count] None of
         None \<Rightarrow> (False, s) | Some None \<Rightarrow> (False, s) | Some (Some slot) \<Rightarrow>
       case alloc_inode_raw s of None \<Rightarrow> (False, s) | Some ino \<Rightarrow>
       case alloc_block_raw s of None \<Rightarrow> (False, s) | Some block \<Rightarrow>
       case disk_write_lba io (data_lba (g_sb (set_inode ino ((fill_inode INODE_DIR block (inode_at (mark_block_used block s) ino))\<lparr>isize := 0\<rparr>) (mark_block_used block s))) + of_nat block)
          zero_block 1 (set_inode ino ((fill_inode INODE_DIR block (inode_at (mark_block_used block s) ino))\<lparr>isize := 0\<rparr>) (mark_block_used block s)) of
       (ok, s) \<Rightarrow> if \<not> ok then (False, s) else
       case disk_write_lba io (block_lba s (de_inode (B 0) e)) (de_put blk slot ino (path_rest path)) 1 s of
       (ok, s) \<Rightarrow> if \<not> ok then (False, s) else flush io s)"
    proof (cases "find_dir_entry (path_dir path) (B 0) tab INODE_DIR")
      case None
      then show ?thesis
        using s1 t r by (simp add: A(3) post_def in_subdir_def tree_at_def entry_of_def)
    next
      case (Some e)
      let ?d = "de_inode (B 0) e"
      have ed: "entry_of tab B INODE_DIR 0 (path_dir path) = Some ?d" using Some by (simp add: entry_of_def)
      have d: "is_dir tab ?d" by (rule subdir_at [OF a ed])
      let ?c = "?m \<and> room s \<and> has_slot B ?d \<and> entry_of tab B INODE_DIR ?d (path_rest path) = None"
      have un: "\<not> 64 \<le> ?d" "\<not> direct0 (inode_at s1 ?d) = 0" "?d < 64" using d A(4) by (simp_all add: is_dir_def)
      have Q: "post ?Q x \<longleftrightarrow> post (tree_step K sec ?c (put_dir ?d (path_rest path)) tab B) x" for x
        by (simp add: in_subdir_def ed post_def)
      show ?thesis
        unfolding A(3) Some option.case Q
      proof (simp only: un if_False, rule post_read_at [OF s1(1) refl un(3)], simp only: not_True_eq_False if_False)
        fix s2 assume s2: "fs_at K sec tab B s2" "fs_head s2 = fs_head s1" "g_bitmap s2 = g_bitmap s1"
        have "room s2 = room s" using s1 s2 fs_atD(3) [OF at] fs_atD(3) [OF s2(1)] by (intro room_cong) simp_all
        moreover have "g_mounted s2" using m s1(2) s2(2) by (simp add: fs_head_def)
        ultimately have rm: "room s \<longleftrightarrow> alloc_inode_raw s2 \<noteq> None \<and> alloc_block_raw s2 \<noteq> None"
          using room_raw by blast
        have commit: "post (tree_step K sec ?c (put_dir ?d (path_rest path)) tab B)
          (case disk_write_lba io (data_lba (g_sb (set_inode i ((fill_inode INODE_DIR b (inode_at (mark_block_used b s2) i))\<lparr>isize := 0\<rparr>) (mark_block_used b s2))) + of_nat b)
             zero_block 1 (set_inode i ((fill_inode INODE_DIR b (inode_at (mark_block_used b s2) i))\<lparr>isize := 0\<rparr>) (mark_block_used b s2)) of
           (ok, s) \<Rightarrow> if \<not> ok then (False, s) else
           case disk_write_lba io (block_lba s ?d) (de_put (B ?d) slot i (path_rest path)) 1 s of
           (ok, s) \<Rightarrow> if \<not> ok then (False, s) else flush io s)"
          if sc: "mkdir_path_scan (path_rest path) (B ?d) tab [0..<16] None = Some (Some slot)"
            and free: "alloc_inode_raw s2 = Some i" "alloc_block_raw s2 = Some b" for slot i b
        proof -
          note slot = mkdir_path_slot [where B = B and d = ?d, OF sc]
          then have ?c using mm rm free by (auto simp: has_slot_def)
          with slot show ?thesis
            by (intro commit_new_dir [OF s2(1) t d r _ _ _ disjI2 [OF free(1)] disjI2 [OF free(2)]]) (use m in simp_all)
        qed
        note out = scan_outcomes(3,4) [OF t d, of "path_rest path"]
        show "post (tree_step K sec ?c (put_dir ?d (path_rest path)) tab B)
          (case mkdir_path_scan (path_rest path) (B ?d) (g_inodes s2) [0..<entry_count] None of
             None \<Rightarrow> (False, s2) | Some None \<Rightarrow> (False, s2) | Some (Some slot) \<Rightarrow>
           case alloc_inode_raw s2 of None \<Rightarrow> (False, s2) | Some ino \<Rightarrow>
           case alloc_block_raw s2 of None \<Rightarrow> (False, s2) | Some block \<Rightarrow>
           case disk_write_lba io (data_lba (g_sb (set_inode ino ((fill_inode INODE_DIR block (inode_at (mark_block_used block s2) ino))\<lparr>isize := 0\<rparr>) (mark_block_used block s2))) + of_nat block)
              zero_block 1 (set_inode ino ((fill_inode INODE_DIR block (inode_at (mark_block_used block s2) ino))\<lparr>isize := 0\<rparr>) (mark_block_used block s2)) of
           (ok, s) \<Rightarrow> if \<not> ok then (False, s) else
           case disk_write_lba io (block_lba s ?d) (de_put (B ?d) slot ino (path_rest path)) 1 s of
           (ok, s) \<Rightarrow> if \<not> ok then (False, s) else flush io s)"
          unfolding fs_atD(3) [OF s2(1)]
          by (intro post_option unchanged [OF a s2(1)] commit) (use out rm in \<open>auto\<close>)
      qed
    qed
  qed
qed

text \<open>Reading: the contents of the file, cut off at the caller's limit.\<close>

lemma read_clip: "mem_get X (clip_len sz n) = take (unat n) (mem_get X (unat sz))"
  by (simp add: take_mem_get clip_len_def word_less_nat_alt min_def)

text \<open>The common part of the two read calls.\<close>

lemma read_in_dir:
  assumes a: "tree_at K sec tab B s0" and at: "fs_at K sec tab B s" and d: "is_dir tab d"
  shows "post (\<lambda>r s'. r = map_option (take (unat n)) (file_view tab B d name) \<and> tree_at K sec tab B s')
    (case find_dir_entry name (B d) (g_inodes s) INODE_FILE of None \<Rightarrow> (None, s) | Some e \<Rightarrow>
      if direct0 (inode_at s (de_inode (B d) e)) = 0 then (None, s) else
      case disk_read_lba io (block_lba s (de_inode (B d) e)) 1 s of (ok, blk, s) \<Rightarrow>
      if \<not> ok then (None, s)
      else (Some (mem_get blk (clip_len (isize (inode_at s (de_inode (B d) e))) n)), s))"
proof -
  have t: "tree_ok tab B" and r: "is_dir tab 0" using a by (auto simp: tree_at_def)
  note A = fs_atD [OF at]
  have same: "tree_at K sec tab B s'" if "fs_at K sec tab B s'" for s'
    using that t r by (simp add: tree_at_def)
  show ?thesis
  proof (cases "find_dir_entry name (B d) tab INODE_FILE")
    case None
    then show ?thesis using same [OF at] by (simp add: A(3) post_def file_view_def entry_of_def)
  next
    case (Some e)
    let ?i = "de_inode (B d) e"
    have e: "entry_of tab B INODE_FILE d name = Some ?i" using Some by (simp add: entry_of_def)
    note L = live_block [OF at t d e, simplified]
    have v: "file_view tab B d name = Some (mem_get (B ?i) (unat (isize (tab ! ?i))))"
      using e by (simp add: file_view_def)
    show ?thesis
      unfolding A(3) Some option.case
      using L(2) A(4)
      by (simp, intro post_read_at [OF at refl L(1)])
        (auto simp: v read_clip fs_atD(4) intro!: post_return same)
  qed
qed

lemma fs_read_result:
  assumes a: "tree_at K sec tab B s" and m: "g_mounted s" and e: "\<not> is_empty name"
  shows "post (\<lambda>r s'. r = map_option (take (unat n)) (file_view tab B 0 name) \<and> tree_at K sec tab B s')
    (fs_read io (Some name) n s)"
proof -
  have at: "fs_at K sec tab B s" and r: "is_dir tab 0" using a by (auto simp: tree_at_def)
  have un: "\<not> (used (inode_at s 0) = 0 \<or> direct0 (inode_at s 0) = 0)"
    using r fs_atD(4) [OF at] by (simp add: is_dir_def)
  show ?thesis
    unfolding fs_read_def Let_def option.case
    by (simp only: m e un not_True_eq_False if_False, rule post_read_at [OF at refl], simp,
        simp only: not_True_eq_False if_False, rule read_in_dir [OF a _ r])
qed

lemma fs_read_path_result:
  assumes a: "tree_at K sec tab B s" and m: "g_mounted s" and p: "has_sep path" "\<not> is_empty path"
    and e: "\<not> is_empty (path_rest path)"
  shows "post (\<lambda>r s'. r = (case entry_of tab B INODE_DIR 0 (path_dir path) of None \<Rightarrow> None
      | Some d \<Rightarrow> map_option (take (unat n)) (file_view tab B d (path_rest path))) \<and>
      tree_at K sec tab B s')
    (fs_read_path io (Some path) n s)" (is "post ?Q _")
proof -
  have at: "fs_at K sec tab B s" and t: "tree_ok tab B" and r: "is_dir tab 0" using a by (auto simp: tree_at_def)
  have same: "tree_at K sec tab B s'" if "fs_at K sec tab B s'" for s'
    using that t r by (simp add: tree_at_def)
  have c: "\<not> (\<not> g_mounted s \<or> is_empty path)" "\<not> \<not> has_sep path" using m p by simp_all
  show ?thesis
    unfolding fs_read_path_def Let_def option.case
  proof (simp only: c e if_False, rule find_subdir_at [OF at r])
    fix s1 assume s1: "fs_at K sec tab B s1"
    show "post ?Q (case entry_of tab B INODE_DIR 0 (path_dir path) of None \<Rightarrow> (None, s1) | Some dir \<Rightarrow>
      if direct0 (inode_at s1 dir) = 0 then (None, s1) else
      case disk_read_lba io (block_lba s1 dir) 1 s1 of (ok, blk, s) \<Rightarrow> if \<not> ok then (None, s) else
      case find_dir_entry (path_rest path) blk (g_inodes s) INODE_FILE of None \<Rightarrow> (None, s) | Some e \<Rightarrow>
      if direct0 (inode_at s (de_inode blk e)) = 0 then (None, s) else
      case disk_read_lba io (block_lba s (de_inode blk e)) 1 s of (ok, blka, s) \<Rightarrow> if \<not> ok then (None, s) else
      (Some (mem_get blka (clip_len (isize (inode_at s (de_inode blk e))) n)), s))"
    proof (cases "entry_of tab B INODE_DIR 0 (path_dir path)")
      case None
      then show ?thesis using same [OF s1] by (simp add: post_def)
    next
      case (Some d)
      have d: "is_dir tab d" by (rule subdir_at [OF a Some])
      have un: "\<not> direct0 (inode_at s1 d) = 0" "d < 64" using d fs_atD(4) [OF s1] by (simp_all add: is_dir_def)
      show ?thesis
        unfolding Some option.case
        by (simp only: un if_False, rule post_read_at [OF s1 refl un(2)],
            simp only: not_True_eq_False if_False, rule read_in_dir [OF a _ d])
    qed
  qed
qed

end

section \<open>Removing a file\<close>

definition del_file where
  "del_file d name tab B tab' B' \<longleftrightarrow>
     file_view tab B d name \<noteq> None \<and>
     (\<forall>d'. is_dir tab' d' \<longleftrightarrow> is_dir tab d') \<and>
     (\<forall>d'. is_dir tab d' \<longrightarrow>
        (\<forall>n. file_view tab' B' d' n = (if d' = d \<and> cstr n = cstr name then None else file_view tab B d' n)) \<and>
        (\<forall>n. entry_of tab' B' INODE_DIR d' n = entry_of tab B INODE_DIR d' n))"

lemma remove_scan_match:
  assumes "remove_scan name blk tab ty is = Some (Some e)" and "ty \<noteq> 0"
  shows "e \<in> set is \<and> entry_matches name blk tab ty e"
  using assms by (induction name blk tab ty "is" rule: remove_scan.induct) (auto simp: entry_matches_def split: if_splits)

context reliable_fs
begin

lemma remove_entry_step:
  assumes a: "tree_at K sec tab B s0" and at: "fs_at K sec tab B s" and d: "is_dir tab d"
    and c: "c \<longleftrightarrow> file_view tab B d name \<noteq> None"
  shows "post (tree_step K sec c (del_file d name) tab B) (remove_entry_from_dir io d name s)"
proof -
  have t: "tree_ok tab B" and r: "is_dir tab 0" using a by (auto simp: tree_at_def)
  have lk: "links_ok tab (ent tab B)" and l: "length (B d) = 512" using t by (auto simp: tree_ok_def blocks_ok_def)
  note A = fs_atD [OF at]
  have un: "\<not> direct0 (inode_at s d) = 0" "d < 64" using d A(4) by (simp_all add: is_dir_def)
  note no = unchanged [OF a]
  show ?thesis
    unfolding remove_entry_from_dir_def Let_def
  proof (simp only: un if_False, rule post_read_at [OF at refl un(2)], simp only: not_True_eq_False if_False)
    fix s1 assume s1: "fs_at K sec tab B s1"
    note A1 = fs_atD [OF s1]
    show "post (tree_step K sec c (del_file d name) tab B)
     (case remove_scan name (B d) (g_inodes s1) INODE_FILE [0..<entry_count] of
        None \<Rightarrow> (False, s1) | Some None \<Rightarrow> (False, s1) | Some (Some e) \<Rightarrow>
      if de_inode (B d) e = 0 \<or> FS_MAX_INODES \<le> de_inode (B d) e then (False, s1)
      else if itype (inode_at s1 (de_inode (B d) e)) \<noteq> INODE_FILE then (False, s1) else
      case release_block io (de_inode (B d) e) s1 of (ok, s) \<Rightarrow> if \<not> ok then (False, s) else
      case disk_write_lba io (block_lba (set_inode (de_inode (B d) e) zero_inode s) d) (de_clear (B d) e) 1
          (set_inode (de_inode (B d) e) zero_inode s) of (ok, s) \<Rightarrow> if \<not> ok then (False, s) else
      flush io s)"
    proof (intro post_option no s1, goal_cases)
      case 1
      then show ?case using scan_outcomes(8) [OF t d, of name] A1(3) by metis
    next
      case (2 y)
      then show ?case
        using scan_outcomes(9) [OF t d, of name] A1(3) c by (metis (no_types) file_view_def option.map_disc_iff)
    next
      case (3 y e)
      then have "remove_scan name (B d) tab INODE_FILE [0..<16] = Some (Some e)" using A1(3) by simp
      note RM = remove_scan_match [OF this one_neq_zero]
      have e16: "e < 16" using conjunct1 [OF RM] by (simp only: set_upt atLeastLessThan_iff)
      note em = conjunct2 [OF RM]
      let ?i = "de_inode (B d) e"
      note M = match_entry_of [OF lk d one_neq_zero e16 em]
      note i = links_okD(1-3) [OF lk M(1)]
      have ifs: "\<not> (?i = 0 \<or> FS_MAX_INODES \<le> ?i)" "\<not> itype (inode_at s1 ?i) \<noteq> INODE_FILE"
        using i M(2) A1(4) by simp_all
      note L = live_block [OF at t d M(3), simplified]
      show ?case
      proof (simp only: ifs if_False, rule release_at [where P = "post Q" for Q, OF s1 i(1,2) L(2)], simp only: not_True_eq_False if_False)
        fix s' X assume X: "fs_at K sec (tab[?i := zero_inode]) (B(?i := X)) (set_inode ?i zero_inode s')" "length X = 512"
        note T = tree_remove [OF t d A(6) X(2) M(1,2)]
        have "file_view tab B d name \<noteq> None" using M(3) by (simp add: file_view_def)
        then show "post (tree_step K sec c (del_file d name) tab B)
          (case disk_write_lba io (block_lba (set_inode ?i zero_inode s') d) (de_clear (B d) e) 1 (set_inode ?i zero_inode s') of
             (ok, s) \<Rightarrow> if \<not> ok then (False, s) else flush io s)"
          by (intro commit_dir [OF X(1)]) (use T d r l c in \<open>simp_all add: del_file_def\<close>)
      qed
    qed
  qed
qed

lemma fs_remove_step:
  assumes a: "tree_at K sec tab B s"
  shows "post (tree_step K sec (g_mounted s \<and> name_ok name \<and> file_view tab B 0 name \<noteq> None) (del_file 0 name) tab B)
    (fs_remove io (Some name) s)"
proof -
  have at: "fs_at K sec tab B s" and r: "is_dir tab 0" using a by (auto simp: tree_at_def)
  have un: "\<not> (used (inode_at s 0) = 0 \<or> direct0 (inode_at s 0) = 0)"
    using r fs_atD(4) [OF at] by (simp add: is_dir_def)
  show ?thesis
    unfolding fs_remove_def option.case
    by (intro post_if unchanged [OF a] at remove_entry_step [OF a at r]) (use un in \<open>auto simp: name_ok_def\<close>)
qed

lemma fs_remove_path_step:
  assumes a: "tree_at K sec tab B s" and p: "has_sep path" "\<not> is_empty path"
  shows "post (in_subdir K sec path (\<lambda>d. tree_step K sec (g_mounted s \<and> \<not> is_empty (path_rest path) \<and>
        file_view tab B d (path_rest path) \<noteq> None) (del_file d (path_rest path)) tab B) tab B)
    (fs_remove_path io (Some path) s)" (is "post ?Q _")
proof -
  have at: "fs_at K sec tab B s" and t: "tree_ok tab B" and r: "is_dir tab 0" using a by (auto simp: tree_at_def)
  let ?m = "g_mounted s \<and> \<not> is_empty (path_rest path)"
  have no: "post ?Q (False, s')" if "fs_at K sec tab B s'" "\<not> ?m" for s'
    using that t r by (auto simp: post_def tree_step_def tree_at_def in_subdir_def split: option.split)
  show ?thesis
    unfolding fs_remove_path_def Let_def option.case
  proof (intro post_if no at, (simp_all add: p)[3], rule find_subdir_at [OF at r])
    fix s1 assume m: "\<not> (\<not> g_mounted s \<or> is_empty path)" "\<not> is_empty (path_rest path)" and s1: "fs_at K sec tab B s1"
    show "post ?Q (case entry_of tab B INODE_DIR 0 (path_dir path) of None \<Rightarrow> (False, s1)
       | Some dir \<Rightarrow> remove_entry_from_dir io dir (path_rest path) s1)"
    proof (cases "entry_of tab B INODE_DIR 0 (path_dir path)")
      case None
      then show ?thesis using s1 t r by (simp add: post_def in_subdir_def tree_at_def)
    next
      case (Some d)
      have Q: "post ?Q x \<longleftrightarrow> post (tree_step K sec (?m \<and> file_view tab B d (path_rest path) \<noteq> None)
          (del_file d (path_rest path)) tab B) x" for x
        by (simp add: in_subdir_def Some post_def)
      show ?thesis
        unfolding Some option.case Q by (rule remove_entry_step [OF a s1 subdir_at [OF a Some]]) (use m in simp)
    qed
  qed
qed

end

end
