(* ===== verification/FsSample.thy ===== *)
theory FsSample
  imports FsCalls
begin

text \<open>
  A mounted file system on the disk in memory, with a directory \<^verbatim>\<open>d\<close> and a file \<^verbatim>\<open>f\<close> that
  holds \<^verbatim>\<open>hi\<close> in its root: inodes 0 to 2 with the blocks 1 to 3.
\<close>

definition demo_node :: "u8 \<Rightarrow> u32 \<Rightarrow> u32 \<Rightarrow> inode" where
  "demo_node ty b n = \<lparr>used = 1, itype = ty, links = 1, isize = n,
     direct = b # replicate 7 0, reserved = replicate 6 0\<rparr>"

definition demo_tab0 :: "inode list" where
  "demo_tab0 = demo_node INODE_DIR 1 0 # replicate 63 zero_inode"

definition demo_tab :: "inode list" where
  "demo_tab = demo_tab0[1 := demo_node INODE_DIR 2 0, 2 := demo_node INODE_FILE 3 2]"

definition demo_hi :: "u8 list" where
  "demo_hi = [104, 105] @ replicate 510 0"

definition demo_blk1 :: "nat \<Rightarrow> u8 list" where
  "demo_blk1 = (\<lambda>_. zero_block)(1 := zero_block, 0 := de_put zero_block 0 1 [100])"

definition demo_blk :: "nat \<Rightarrow> u8 list" where
  "demo_blk = demo_blk1(2 := demo_hi, 0 := de_put (demo_blk1 0) 1 2 [102])"

definition demo_disk :: ramdisk where
  "demo_disk l = (if l = 146 then demo_blk 0 else if l = 148 then demo_hi else zero_block)"

definition demo_fs :: "ramdisk fs" where
  "demo_fs = \<lparr>g_sb = \<lparr>magic = FS_MAGIC, version = FS_VERSION, block_size = FS_BLOCK_SIZE, inode_count = 64,
       block_count = 100, inode_table_lba = FS_INODE_TABLE_LBA, bitmap_lba = FS_BITMAP_LBA, data_lba = FS_DATA_LBA\<rparr>,
     g_sb_pad = replicate 480 0, g_bitmap = bm_mark (bm_mark (bm_mark (replicate 4096 0) 1) 2) 3,
     g_inodes = demo_tab, g_mounted = True, g_last_error = FS_ERR_NONE, disk = demo_disk\<rparr>"

lemma demo_node_simps [simp]:
  "used (demo_node ty b n) = 1" "itype (demo_node ty b n) = ty" "isize (demo_node ty b n) = n"
  "direct0 (demo_node ty b n) = b" "inode_shape (demo_node ty b n)"
  by (simp_all add: demo_node_def direct0_def inode_shape_def)

lemma length_demo_tab0: "length demo_tab0 = 64"
  by (simp add: demo_tab0_def)

lemma demo_tab0_nth: "i < 64 \<Longrightarrow> demo_tab0 ! i = (if i = 0 then demo_node INODE_DIR 1 0 else zero_inode)"
  by (simp add: demo_tab0_def nth_Cons')

lemma demo_tab_nth: "i < 64 \<Longrightarrow> demo_tab ! i =
    (if i = 0 then demo_node INODE_DIR 1 0 else if i = 1 then demo_node INODE_DIR 2 0
     else if i = 2 then demo_node INODE_FILE 3 2 else zero_inode)"
  by (simp add: demo_tab_def nth_list_update length_demo_tab0 demo_tab0_nth)

lemma demo_bitmap: "bm_used (g_bitmap demo_fs) i \<longleftrightarrow> i \<in> {1, 2, 3}"
  by (auto simp: demo_fs_def bm_used_mark bm_used_replicate)

lemma demo_mem_inv: "mem_inv demo_fs"
proof -
  have "tab_inv demo_tab (g_bitmap demo_fs) 100"
    unfolding tab_inv_def
  proof (intro conjI allI impI)
    fix i j :: nat assume "i < 64" "j < 64" "i \<noteq> j" "direct0 (demo_tab ! i) \<noteq> 0"
    then show "direct0 (demo_tab ! i) \<noteq> direct0 (demo_tab ! j)"
      by (simp add: demo_tab_nth split: if_splits)
  qed (auto simp: demo_tab_nth demo_bitmap split: if_splits)
  moreover have "length demo_tab = 64" by (simp add: demo_tab_def length_demo_tab0)
  ultimately show ?thesis by (simp add: mem_inv_def demo_fs_def sb_inv_def)
qed

lemma demo_block_lba: "i < 64 \<Longrightarrow> unat (block_lba demo_fs i) =
    (if i = 0 then 146 else if i = 1 then 147 else if i = 2 then 148 else 145)"
  by (simp add: block_lba_eq [OF demo_mem_inv]) (simp add: demo_fs_def inode_at_def demo_tab_nth)

lemma demo_blk_simps: "demo_blk 1 = zero_block" "demo_blk (Suc 0) = zero_block" "demo_blk 2 = demo_hi" "3 \<le> i \<Longrightarrow> demo_blk i = zero_block"
  "length (demo_blk 0) = 512" "length demo_hi = 512"
  by (simp_all add: demo_blk_def demo_blk1_def demo_hi_def)

lemma demo_fs_simps: "disk demo_fs = demo_disk" "g_inodes demo_fs = demo_tab" "g_mounted demo_fs"
  by (simp_all add: demo_fs_def)

lemma demo_blks: "blks ram_sec demo_fs = demo_blk"
proof
  fix i :: nat
  consider "i = 0" | "i = 1" | "i = 2" | "3 \<le> i" "i < 64" | "64 \<le> i" by linarith
  then show "blks ram_sec demo_fs i = demo_blk i"
    by cases (auto simp: blks_def demo_block_lba ram_sec_def demo_fs_simps demo_disk_def demo_blk_simps pad_sector_id)
qed

lemma demo_tree0: "tree_ok demo_tab0 (\<lambda>_. zero_block)" "is_dir demo_tab0 0"
proof -
  have no: "\<not> slot_used demo_tab0 (\<lambda>_. zero_block) d e" for d e by (simp add: slot_used_def zero_block_free)
  then have "ent demo_tab0 (\<lambda>_. zero_block) = (\<lambda>_. None)" by (auto simp: ent_def fun_eq_iff)
  with no show "tree_ok demo_tab0 (\<lambda>_. zero_block)" by (simp add: tree_ok_def blocks_ok_def links_ok_def)
  show "is_dir demo_tab0 0" by (simp add: is_dir_def demo_tab0_nth)
qed

lemma demo_tree:
  shows "tree_ok demo_tab demo_blk" "is_dir demo_tab 0" "is_dir demo_tab 1"
    and "entry_of demo_tab demo_blk INODE_DIR 0 [100] = Some 1"
    and "file_view demo_tab demo_blk 0 [102] = Some [104, 105]"
    and "file_view demo_tab demo_blk 0 [110] = None" "file_view demo_tab demo_blk 1 n = None"
    and "entry_of demo_tab demo_blk INODE_DIR 0 [110] = None"
    and "file_view demo_tab demo_blk 0 n = (if cstr n = [102] then Some [104, 105] else None)"
    and "entry_of demo_tab demo_blk INODE_DIR 0 n = (if cstr n = [100] then Some 1 else None)"
    and "entry_of demo_tab demo_blk INODE_DIR 1 n = None"
proof -
  let ?B0 = "\<lambda>_. zero_block" and ?tab1 = "demo_tab0[1 := demo_node INODE_DIR 2 0]"
  have none: "entry_of demo_tab0 ?B0 ty d n = None" for ty d n
    by (rule entry_of_empty) (simp add: zero_block_free)
  have "tree_ok ?tab1 demo_blk1 \<and> put_dir 0 [100] demo_tab0 ?B0 ?tab1 demo_blk1"
    unfolding demo_blk1_def
    using put_dir_add [OF demo_tree0, of 0 1 "demo_node INODE_DIR 2 0" "[100]"]
    by (simp add: zero_block_free demo_tab0_nth length_demo_tab0 none)
  then have t1: "tree_ok ?tab1 demo_blk1" and p1: "put_dir 0 [100] demo_tab0 ?B0 ?tab1 demo_blk1" by auto
  have d1: "is_dir ?tab1 0" using p1 demo_tree0(2) unfolding put_dir_def by blast
  have "file_view ?tab1 demo_blk1 0 n = file_view demo_tab0 ?B0 0 n" for n
    using p1 demo_tree0(2) unfolding put_dir_def by blast
  then have f1: "file_view ?tab1 demo_blk1 0 n = None" for n by (simp add: file_view_def none)
  have "\<not> de_used (demo_blk1 0) 1"
    using same_entryD(1) [OF same_entry_put [of "[100]" 1 0 zero_block 1]]
    by (simp add: demo_blk1_def zero_block_free)
  then have "tree_ok demo_tab demo_blk \<and> put_file 0 [102] (mem_get demo_hi 2) ?tab1 demo_blk1 demo_tab demo_blk"
    unfolding demo_blk_def demo_tab_def
    using put_file_add [OF t1 d1, of 1 2 "demo_node INODE_FILE 3 2" demo_hi "[102]"] f1 [of "[102]"]
    by (simp add: demo_tab0_nth length_demo_tab0 demo_blk_simps file_view_def)
  then have t2: "tree_ok demo_tab demo_blk"
    and p2: "put_file 0 [102] (mem_get demo_hi 2) ?tab1 demo_blk1 demo_tab demo_blk" by auto
  have hi: "mem_get demo_hi 2 = [104, 105]" by (simp add: mem_get_take demo_blk_simps) (simp add: demo_hi_def)
  show "tree_ok demo_tab demo_blk" by (rule t2)
  show "is_dir demo_tab 0" "is_dir demo_tab 1" by (simp_all add: is_dir_def demo_tab_nth)
  have is1: "is_dir ?tab1 1" by (simp add: is_dir_def length_demo_tab0)
  show "file_view demo_tab demo_blk 0 [102] = Some [104, 105]" "file_view demo_tab demo_blk 0 [110] = None"
    using p2 d1 f1 hi by (simp_all add: put_file_def)
  have o: "i = 1" if "is_dir ?tab1 i" "\<not> is_dir demo_tab0 i" for i
    using that by (cases "i = 1") (auto simp: is_dir_def)
  obtain i where i: "\<not> is_dir demo_tab0 i" "is_dir ?tab1 i" "\<And>n. file_view ?tab1 demo_blk1 i n = None"
      "\<And>n. entry_of ?tab1 demo_blk1 INODE_DIR i n = None"
      "\<And>n. entry_of ?tab1 demo_blk1 INODE_DIR 0 n = (if cstr n = [100] then Some i else None)"
    using p1 demo_tree0(2) none by (auto simp: put_dir_def)
  then have i1: "i = 1" using o by blast
  show "entry_of demo_tab demo_blk INODE_DIR 0 [100] = Some 1" "entry_of demo_tab demo_blk INODE_DIR 0 [110] = None"
    using p2 d1 i i1 by (simp_all add: put_file_def)
  show "file_view demo_tab demo_blk 1 n = None" "entry_of demo_tab demo_blk INODE_DIR 1 n = None"
    using p2 is1 i i1 by (simp_all add: put_file_def)
  show "file_view demo_tab demo_blk 0 n = (if cstr n = [102] then Some [104, 105] else None)"
    "entry_of demo_tab demo_blk INODE_DIR 0 n = (if cstr n = [100] then Some 1 else None)"
    using p2 d1 f1 hi i i1 by (simp_all add: put_file_def)
qed

lemma demo_tree_at: "tree_at (\<lambda>_ _. True) ram_sec demo_tab demo_blk demo_fs"
  using demo_tree demo_mem_inv demo_blks
  by (simp add: tree_at_def fs_at_def fs_ok_def demo_fs_simps)

end
