(* ===== verification/FsTheorems.thy ===== *)
theory FsTheorems
  imports FsSample
begin

text \<open>
  What the file system promises its callers, over any device that keeps the contract of theory
  \<open>Disk\<close>: sessions keep the tables consistent and the low sectors untouched, formatting sets them
  up, the calls on files and directories succeed exactly under their conditions and change the tree
  as they should, what was written is read back, also after mounting again.
\<close>

section \<open>The tree of a state\<close>

text \<open>
  \<open>file_at\<close> and \<open>subdir_at\<close> look a name up in a directory of the state; \<open>fs_consistent\<close> says that the
  tables and the tree in the directory blocks are consistent.
\<close>

definition file_at :: "('d \<Rightarrow> nat \<Rightarrow> u8 list) \<Rightarrow> 'd fs \<Rightarrow> nat \<Rightarrow> u8 list \<Rightarrow> u8 list option" where
  "file_at sec s d name = file_view (g_inodes s) (blks sec s) d name"

definition subdir_at :: "('d \<Rightarrow> nat \<Rightarrow> u8 list) \<Rightarrow> 'd fs \<Rightarrow> nat \<Rightarrow> u8 list \<Rightarrow> nat option" where
  "subdir_at sec s d name = entry_of (g_inodes s) (blks sec s) INODE_DIR d name"

definition fs_consistent :: "('d \<Rightarrow> bool) \<Rightarrow> ('d \<Rightarrow> nat \<Rightarrow> u8 list) \<Rightarrow> 'd fs \<Rightarrow> bool" where
  "fs_consistent ready sec s \<longleftrightarrow> tree_at (\<lambda>_. ready) sec (g_inodes s) (blks sec s) s"

text \<open>What the calls keep: the device is ready, the header is \<open>h0\<close>.\<close>

definition at_head :: "('d \<Rightarrow> bool) \<Rightarrow> fs_head \<Rightarrow> fs_head \<Rightarrow> 'd \<Rightarrow> bool" where
  "at_head ready h0 h d \<longleftrightarrow> ready d \<and> h = h0"

lemma reliable_fsI:
  "reliable_disk io sec ready \<Longrightarrow> reliable_fs io sec ready (at_head ready h0)"
  "reliable_disk io sec ready \<Longrightarrow> reliable_fs io sec ready (super_synced ready sec)"
  unfolding reliable_fs_def reliable_disk_def fs_device_def fs_device_axioms_def
  by (auto simp: at_head_def super_synced_def)

lemma consistentD:
  "fs_consistent ready sec s \<Longrightarrow> tree_at (at_head ready (fs_head s)) sec (g_inodes s) (blks sec s) s"
  by (simp add: fs_consistent_def tree_at_def fs_at_def fs_ok_def at_head_def)

lemma consistentI:
  "tree_at (at_head ready h) sec tab B s \<Longrightarrow>
    fs_consistent ready sec s \<and> fs_head s = h \<and> g_inodes s = tab \<and> blks sec s = B"
  by (auto simp: fs_consistent_def tree_at_def fs_at_def fs_ok_def at_head_def)

lemma demo_consistent: "fs_consistent (\<lambda>_. True) ram_sec demo_fs"
  using demo_tree_at by (auto simp: fs_consistent_def tree_at_def fs_at_def)

text \<open>What a call that puts or deletes one file did.\<close>

definition file_changed :: "('d \<Rightarrow> nat \<Rightarrow> u8 list) \<Rightarrow> nat \<Rightarrow> u8 list \<Rightarrow> u8 list option \<Rightarrow> 'd fs \<Rightarrow> 'd fs \<Rightarrow> bool" where
  "file_changed sec d name content s s' \<longleftrightarrow>
     (\<forall>d'. is_dir (g_inodes s) d' \<longrightarrow> is_dir (g_inodes s') d' \<and>
        (\<forall>n. file_at sec s' d' n = (if d' = d \<and> cstr n = cstr name then content else file_at sec s d' n)) \<and>
        (\<forall>n. subdir_at sec s' d' n = subdir_at sec s d' n))"

definition tree_same :: "('d \<Rightarrow> nat \<Rightarrow> u8 list) \<Rightarrow> 'd fs \<Rightarrow> 'd fs \<Rightarrow> bool" where
  "tree_same sec s s' \<longleftrightarrow> g_inodes s' = g_inodes s \<and> blks sec s' = blks sec s"

text \<open>A new, empty directory.\<close>

definition dir_added :: "('d \<Rightarrow> nat \<Rightarrow> u8 list) \<Rightarrow> nat \<Rightarrow> u8 list \<Rightarrow> 'd fs \<Rightarrow> 'd fs \<Rightarrow> bool" where
  "dir_added sec d name s s' \<longleftrightarrow>
     (\<exists>i. \<not> is_dir (g_inodes s) i \<and> is_dir (g_inodes s') i \<and>
        (\<forall>n. file_at sec s' i n = None \<and> subdir_at sec s' i n = None) \<and>
        (\<forall>d'. is_dir (g_inodes s) d' \<longrightarrow> is_dir (g_inodes s') d' \<and>
           (\<forall>n. file_at sec s' d' n = file_at sec s d' n) \<and>
           (\<forall>n. subdir_at sec s' d' n = (if d' = d \<and> cstr n = cstr name then Some i else subdir_at sec s d' n))))"

text \<open>The sample file system.\<close>

lemma demo_at:
  "file_at ram_sec demo_fs d n = file_view demo_tab demo_blk d n"
  "subdir_at ram_sec demo_fs d n = entry_of demo_tab demo_blk INODE_DIR d n"
  "file_view demo_tab demo_blk 0 [102] = Some [104, 105]"
  by (simp_all add: file_at_def subdir_at_def demo_fs_simps demo_blks demo_tree)

lemma find_exists: "x \<in> set xs \<Longrightarrow> P x \<Longrightarrow> List.find P xs \<noteq> None"
  by (auto simp: find_None_iff)

lemma demo_room: "room demo_fs" "has_slot (blks ram_sec demo_fs) 0" "has_slot (blks ram_sec demo_fs) 1"
proof -
  have "List.find (\<lambda>i. used (inode_at demo_fs i) = 0) [1..<inode_limit demo_fs] \<noteq> None"
    by (rule find_exists [of 3]) (simp_all add: inode_at_def demo_fs_simps demo_tab_nth inode_limit_def demo_fs_def)
  moreover have "List.find (\<lambda>i. \<not> bm_used (g_bitmap demo_fs) i) [1..<block_limit demo_fs] \<noteq> None"
    by (rule find_exists [of 4]) (simp_all add: demo_bitmap block_limit_eq [OF demo_mem_inv], simp add: demo_fs_def)
  ultimately show "room demo_fs" by (simp add: room_def find_free_inode_def find_free_block_def demo_fs_simps)
  have "\<not> de_used (demo_blk 0) 2"
    using same_entryD(1) [OF same_entry_put [of "[102]" 2 1 "demo_blk1 0" 2]]
      same_entryD(1) [OF same_entry_put [of "[100]" 2 0 zero_block 1]]
    by (simp add: demo_blk_def demo_blk1_def zero_block_free)
  then show "has_slot (blks ram_sec demo_fs) 0" by (auto simp: demo_blks has_slot_def intro!: exI [of _ 2])
  show "has_slot (blks ram_sec demo_fs) 1"
    by (auto simp: demo_blks has_slot_def demo_blk_simps zero_block_free intro!: exI [of _ 2])
qed

text \<open>From the steps of the tree to the states.\<close>

definition step_effect where
  "step_effect ready sec c E s ok s' \<longleftrightarrow>
     fs_consistent ready sec s' \<and> fs_head s' = fs_head s \<and> (ok \<longleftrightarrow> c) \<and>
     (if ok then synced sec s' \<and> E s s' else tree_same sec s s')"

lemma stepD:
  assumes "post (tree_step (at_head ready (fs_head s)) sec c R (g_inodes s) (blks sec s)) r"
    and "R (g_inodes s) (blks sec s) (g_inodes (snd r)) (blks sec (snd r)) \<Longrightarrow> E s (snd r)"
  shows "step_effect ready sec c E s (fst r) (snd r)"
proof (cases "fst r")
  case True
  then obtain tab' B' where t: "tree_at (at_head ready (fs_head s)) sec tab' B' (snd r)" "c" "synced sec (snd r)"
    "R (g_inodes s) (blks sec s) tab' B'"
    using assms(1) by (cases r) (auto simp: post_def tree_step_def)
  then show ?thesis
    using True assms(2) consistentI [OF t(1)] by (auto simp: step_effect_def)
next
  case False
  then have t: "tree_at (at_head ready (fs_head s)) sec (g_inodes s) (blks sec s) (snd r)" "\<not> c"
    using assms(1) by (cases r; auto simp: post_def tree_step_def)+
  show ?thesis using False t(2) consistentI [OF t(1)] by (simp add: step_effect_def tree_same_def)
qed

lemma put_effect:
  "put_file d name x (g_inodes s) (blks sec s) (g_inodes s') (blks sec s') \<Longrightarrow> file_changed sec d name (Some x) s s'"
  by (simp add: put_file_def file_changed_def file_at_def subdir_at_def)

lemma del_effect:
  "del_file d name (g_inodes s) (blks sec s) (g_inodes s') (blks sec s') \<Longrightarrow> file_changed sec d name None s s'"
  by (simp add: del_file_def file_changed_def file_at_def subdir_at_def)

lemma dir_effect:
  "put_dir d name (g_inodes s) (blks sec s) (g_inodes s') (blks sec s') \<Longrightarrow> dir_added sec d name s s'"
  unfolding put_dir_def dir_added_def file_at_def subdir_at_def .

lemma file_view_None: "file_view tab B d n = None \<longleftrightarrow> entry_of tab B INODE_FILE d n = None"
  by (simp add: file_view_def)

text \<open>A call on a path works in the directory of its first part, or fails if the root has none.\<close>

definition path_effect where
  "path_effect ready sec path P s ok s' \<longleftrightarrow>
     (case subdir_at sec s 0 (path_dir path) of
        None \<Rightarrow> \<not> ok \<and> fs_consistent ready sec s' \<and> fs_head s' = fs_head s \<and> tree_same sec s s'
      | Some d \<Rightarrow> P d)"

lemma in_subdirD:
  assumes "post (in_subdir (at_head ready (fs_head s)) sec path P (g_inodes s) (blks sec s)) r"
    and "\<And>d. post (P d) r \<Longrightarrow> Q d"
  shows "path_effect ready sec path Q s (fst r) (snd r)"
  using assms consistentI [of ready "fs_head s" sec "g_inodes s" "blks sec s" "snd r"]
  by (cases r) (auto simp: path_effect_def post_def in_subdir_def subdir_at_def tree_same_def split: option.splits)

section \<open>Calls on a name in the root directory\<close>

lemma fs_write_effect:
  assumes "reliable_disk io sec ready" and "fs_consistent ready sec s"
  shows "step_effect ready sec (g_mounted s \<and> name_ok name \<and>
      (file_at sec s 0 name \<noteq> None \<or> has_slot (blks sec s) 0 \<and> room s))
    (file_changed sec 0 name (Some (file_content data))) s
    (fst (fs_write io (Some name) data s)) (snd (fs_write io (Some name) data s))"
  unfolding file_at_def file_view_None
  by (rule stepD [OF reliable_fs.fs_write_step [OF reliable_fsI(1) [OF assms(1)] consistentD [OF assms(2)]] put_effect])

lemma fs_read_effect:
  assumes "reliable_disk io sec ready" and "fs_consistent ready sec s" and "g_mounted s" and "\<not> is_empty name"
  shows "fst (fs_read io (Some name) n s) = map_option (take (unat n)) (file_at sec s 0 name) \<and>
    fs_consistent ready sec (snd (fs_read io (Some name) n s)) \<and> fs_head (snd (fs_read io (Some name) n s)) = fs_head s \<and>
    tree_same sec s (snd (fs_read io (Some name) n s))"
  using reliable_fs.fs_read_result [OF reliable_fsI(1) [OF assms(1)] consistentD [OF assms(2)] assms(3,4), of n]
    consistentI [of ready "fs_head s" sec "g_inodes s" "blks sec s" "snd (fs_read io (Some name) n s)"]
  by (cases "fs_read io (Some name) n s") (simp add: post_def file_at_def tree_same_def)

text \<open>C2: \<^verbatim>\<open>fs_write\<close> of a name stores the data (up to its terminator and at most one block) as the file
  of this name in the root: it returns true exactly if the file system is mounted, the name has 1 to
  29 characters, and the file exists or a directory slot, an inode and a block are free; then every
  other file and directory is as before and the tables are on disk; if it returns false nothing has
  changed.
\<close>

theorem fs_write_spec:
  assumes "reliable_disk io sec ready" and "fs_consistent ready sec s"
    and "fs_write io (Some name) data s = (ok, s')"
  shows "step_effect ready sec (g_mounted s \<and> name_ok name \<and>
      (file_at sec s 0 name \<noteq> None \<or> has_slot (blks sec s) 0 \<and> room s))
    (file_changed sec 0 name (Some (file_content data))) s ok s'"
  using fs_write_effect [OF assms(1,2), of name data] assms(3) by simp

theorem fs_write_spec_witness:
  "\<exists>s'. fs_write ram_ops (Some [102]) (Some [98, 121, 101]) demo_fs = (True, s') \<and>
     fs_consistent (\<lambda>_. True) ram_sec s' \<and> file_at ram_sec s' 0 [102] = Some [98, 121, 101]"
proof -
  obtain ok s' where r: "fs_write ram_ops (Some [102]) (Some [98, 121, 101]) demo_fs = (ok, s')" by (metis surj_pair)
  note W = fs_write_spec [OF ram.reliable_disk_axioms demo_consistent r, unfolded step_effect_def]
  have ok using W by (simp add: demo_fs_simps demo_at name_ok_def is_empty_def)
  then show ?thesis
    using W r by (auto simp: file_changed_def file_content_def demo_fs_simps demo_tree)
qed

text \<open>C11: \<^verbatim>\<open>fs_read\<close> of a name returns the contents of the file of this name in the root, cut off at the
  caller's limit, or fails if there is none; it changes nothing.
\<close>

theorem fs_read_spec:
  assumes "reliable_disk io sec ready" and "fs_consistent ready sec s"
    and "g_mounted s" and "\<not> is_empty name" and "fs_read io (Some name) n s = (r, s')"
  shows "r = map_option (take (unat n)) (file_at sec s 0 name) \<and>
    fs_consistent ready sec s' \<and> fs_head s' = fs_head s \<and> tree_same sec s s'"
  using fs_read_effect [OF assms(1-4), of n] assms(5) by simp

theorem fs_read_spec_witness:
  "\<exists>s'. fs_read ram_ops (Some [102]) 512 demo_fs = (Some [104, 105], s')"
proof -
  obtain r s' where r: "fs_read ram_ops (Some [102]) 512 demo_fs = (r, s')" by (metis surj_pair)
  have "r = Some [104, 105]"
    using fs_read_spec [OF ram.reliable_disk_axioms demo_consistent _ _ r]
    by (simp add: demo_fs_simps demo_at is_empty_def)
  with r show ?thesis by blast
qed

text \<open>C1: what \<^verbatim>\<open>fs_write\<close> has stored, \<^verbatim>\<open>fs_read\<close> of the same name reads back.
\<close>

theorem fs_write_read:
  assumes "reliable_disk io sec ready" and "fs_consistent ready sec s"
    and "fs_write io (Some name) data s = (True, s')"
  shows "fst (fs_read io (Some name) n s') = Some (take (unat n) (file_content data))"
proof -
  have W: "step_effect ready sec (g_mounted s \<and> name_ok name \<and>
      (file_at sec s 0 name \<noteq> None \<or> has_slot (blks sec s) 0 \<and> room s))
    (file_changed sec 0 name (Some (file_content data))) s True s'"
    using fs_write_effect [OF assms(1,2), of name data] assms(3) by simp
  then have ne: "\<not> is_empty name" "g_mounted s'" "fs_consistent ready sec s'"
    by (auto simp: step_effect_def name_ok_def fs_head_def)
  have "is_dir (g_inodes s) 0" using assms(2) by (simp add: fs_consistent_def tree_at_def)
  then have "file_at sec s' 0 name = Some (file_content data)"
    using W by (simp add: step_effect_def file_changed_def)
  then show ?thesis using fs_read_effect [OF assms(1) ne(3,2,1), of n] by simp
qed

theorem fs_write_read_witness:
  "\<exists>s'. fs_write ram_ops (Some [110]) (Some [120, 121]) demo_fs = (True, s') \<and>
     fst (fs_read ram_ops (Some [110]) 512 s') = Some [120, 121]"
proof -
  obtain ok s' where r: "fs_write ram_ops (Some [110]) (Some [120, 121]) demo_fs = (ok, s')" by (metis surj_pair)
  have ok
    using fs_write_effect [OF ram.reliable_disk_axioms demo_consistent, of "[110]" "Some [120, 121]"] r
    by (simp add: step_effect_def demo_fs_simps demo_room name_ok_def is_empty_def)
  then show ?thesis
    using r fs_write_read [OF ram.reliable_disk_axioms demo_consistent, of "[110]" "Some [120, 121]" s' 512]
    by (simp add: file_content_def)
qed

lemma fs_create_effect:
  assumes "reliable_disk io sec ready" and "fs_consistent ready sec s"
  shows "step_effect ready sec (g_mounted s \<and> name_ok name \<and> room s \<and> has_slot (blks sec s) 0 \<and> file_at sec s 0 name = None)
    (file_changed sec 0 name (Some [])) s
    (fst (fs_create io (Some name) s)) (snd (fs_create io (Some name) s))"
  unfolding file_at_def file_view_None
  by (rule stepD [OF reliable_fs.fs_create_step [OF reliable_fsI(1) [OF assms(1)] consistentD [OF assms(2)]] put_effect])

lemma fs_mkdir_effect:
  assumes "reliable_disk io sec ready" and "fs_consistent ready sec s"
  shows "step_effect ready sec (g_mounted s \<and> name_ok name \<and> room s \<and> has_slot (blks sec s) 0 \<and> subdir_at sec s 0 name = None)
    (dir_added sec 0 name) s
    (fst (fs_mkdir io (Some name) s)) (snd (fs_mkdir io (Some name) s))"
  unfolding subdir_at_def
  by (rule stepD [OF reliable_fs.fs_mkdir_step [OF reliable_fsI(1) [OF assms(1)] consistentD [OF assms(2)]] dir_effect])

lemma fs_remove_effect:
  assumes "reliable_disk io sec ready" and "fs_consistent ready sec s"
  shows "step_effect ready sec (g_mounted s \<and> name_ok name \<and> file_at sec s 0 name \<noteq> None)
    (file_changed sec 0 name None) s
    (fst (fs_remove io (Some name) s)) (snd (fs_remove io (Some name) s))"
  unfolding file_at_def
  by (rule stepD [OF reliable_fs.fs_remove_step [OF reliable_fsI(1) [OF assms(1)] consistentD [OF assms(2)]] del_effect])

text \<open>C5: \<^verbatim>\<open>fs_create\<close> adds an empty file to the root: it returns true exactly if the file system is
  mounted, the name has 1 to 29 characters and is no file yet, and a directory slot, an inode and a
  block are free; then every other file and directory is as before, and the tables are on disk; if
  it returns false nothing has changed.
\<close>

theorem fs_create_spec:
  assumes "reliable_disk io sec ready" and "fs_consistent ready sec s"
    and "fs_create io (Some name) s = (ok, s')"
  shows "step_effect ready sec (g_mounted s \<and> name_ok name \<and> room s \<and> has_slot (blks sec s) 0 \<and>
      file_at sec s 0 name = None) (file_changed sec 0 name (Some [])) s ok s'"
  using fs_create_effect [OF assms(1,2), of name] assms(3) by simp

theorem fs_create_spec_witness:
  "\<exists>s'. fs_create ram_ops (Some [110]) demo_fs = (True, s') \<and> file_at ram_sec s' 0 [110] = Some [] \<and>
     file_at ram_sec s' 0 [102] = Some [104, 105]"
proof -
  obtain ok s' where r: "fs_create ram_ops (Some [110]) demo_fs = (ok, s')" by (metis surj_pair)
  note W = fs_create_spec [OF ram.reliable_disk_axioms demo_consistent r, unfolded step_effect_def]
  have ok using W by (simp add: demo_fs_simps demo_at demo_room demo_tree name_ok_def is_empty_def)
  then show ?thesis using W r by (auto simp: file_changed_def demo_fs_simps demo_tree demo_at)
qed

text \<open>C4: \<^verbatim>\<open>fs_mkdir\<close> adds an empty directory to the root: it returns true exactly if the file system
  is mounted, the name has 1 to 29 characters and is no directory yet, and a directory slot, an
  inode and a block are free; then every file and every other directory is as before, and the tables
  are on disk; if it returns false nothing has changed.
\<close>

theorem fs_mkdir_spec:
  assumes "reliable_disk io sec ready" and "fs_consistent ready sec s"
    and "fs_mkdir io (Some name) s = (ok, s')"
  shows "step_effect ready sec (g_mounted s \<and> name_ok name \<and> room s \<and> has_slot (blks sec s) 0 \<and>
      subdir_at sec s 0 name = None) (dir_added sec 0 name) s ok s'"
  using fs_mkdir_effect [OF assms(1,2), of name] assms(3) by simp

theorem fs_mkdir_spec_witness:
  "\<exists>s' i. fs_mkdir ram_ops (Some [110]) demo_fs = (True, s') \<and> subdir_at ram_sec s' 0 [110] = Some i \<and>
     is_dir (g_inodes s') i \<and> i \<noteq> 1"
proof -
  obtain ok s' where r: "fs_mkdir ram_ops (Some [110]) demo_fs = (ok, s')" by (metis surj_pair)
  note W = fs_mkdir_spec [OF ram.reliable_disk_axioms demo_consistent r, unfolded step_effect_def]
  have ok using W by (simp add: demo_fs_simps demo_at demo_room demo_tree name_ok_def is_empty_def)
  then have "dir_added ram_sec 0 [110] demo_fs s'" using W by simp
  then obtain i where i: "\<not> is_dir demo_tab i" "is_dir (g_inodes s') i" "subdir_at ram_sec s' 0 [110] = Some i"
    by (auto simp: dir_added_def demo_fs_simps demo_tree)
  then have "i \<noteq> 1" using demo_tree(3) by blast
  with r \<open>ok\<close> i show ?thesis by auto
qed

text \<open>C6: \<^verbatim>\<open>fs_remove\<close> deletes the file of a name from the root: it returns true exactly if the file
  system is mounted, the name has 1 to 29 characters and is a file there; then the name is no file any
  more, every other file and directory is as before, and the tables are on disk; if it returns false
  nothing has changed.
\<close>

theorem fs_remove_spec:
  assumes "reliable_disk io sec ready" and "fs_consistent ready sec s"
    and "fs_remove io (Some name) s = (ok, s')"
  shows "step_effect ready sec (g_mounted s \<and> name_ok name \<and> file_at sec s 0 name \<noteq> None)
    (file_changed sec 0 name None) s ok s'"
  using fs_remove_effect [OF assms(1,2), of name] assms(3) by simp

theorem fs_remove_spec_witness:
  "\<exists>s'. fs_remove ram_ops (Some [102]) demo_fs = (True, s') \<and> file_at ram_sec s' 0 [102] = None \<and>
     subdir_at ram_sec s' 0 [100] = Some 1"
proof -
  obtain ok s' where r: "fs_remove ram_ops (Some [102]) demo_fs = (ok, s')" by (metis surj_pair)
  note W = fs_remove_spec [OF ram.reliable_disk_axioms demo_consistent r, unfolded step_effect_def]
  have ok using W by (simp add: demo_fs_simps demo_at name_ok_def is_empty_def)
  then show ?thesis using W r by (auto simp: file_changed_def demo_fs_simps demo_tree demo_at)
qed

end
