(* ===== verification/FsPaths.thy ===== *)
theory FsPaths
  imports FsTheorems
begin

text \<open>
  The calls on a path \<^verbatim>\<open>dir/name\<close> act on the directory \<^verbatim>\<open>dir\<close> of the root as the calls on a name
  act on the root.
\<close>

section \<open>Calls on a path\<close>

text \<open>The paths \<^verbatim>\<open>d/n\<close> and \<^verbatim>\<open>d\<close> on the sample.\<close>

lemma demo_path:
  "has_sep [100, 47, 110]" "path_dir [100, 47, 110] = [100]" "path_rest [100, 47, 110] = [110]"
  by code_simp+

lemmas demo_sub = demo_tree(3,7) [unfolded One_nat_def] demo_room(3) [unfolded One_nat_def]

lemma demo_path_effect:
  "path_effect (\<lambda>_. True) ram_sec [100, 47, 110] P demo_fs ok s' \<longleftrightarrow> P 1"
  by (simp add: path_effect_def demo_path demo_at demo_tree)

lemma fs_write_path_effect:
  assumes "reliable_disk io sec ready" and "fs_consistent ready sec s"
    and "has_sep path" and "\<not> is_empty path" and "str_len (path_rest path) < 30"
    and "fs_write_path io (Some path) data s = (ok, s')"
  shows "path_effect ready sec path (\<lambda>d. step_effect ready sec (g_mounted s \<and> \<not> is_empty (path_rest path) \<and>
        (file_at sec s d (path_rest path) \<noteq> None \<or> has_slot (blks sec s) d \<and> room s))
      (file_changed sec d (path_rest path) (Some (file_content data))) s ok s') s ok s'"
proof -
  have "path_effect ready sec path (\<lambda>d. step_effect ready sec (g_mounted s \<and> \<not> is_empty (path_rest path) \<and>
        (entry_of (g_inodes s) (blks sec s) INODE_FILE d (path_rest path) \<noteq> None \<or> has_slot (blks sec s) d \<and> room s))
      (file_changed sec d (path_rest path) (Some (file_content data))) s
      (fst (fs_write_path io (Some path) data s)) (snd (fs_write_path io (Some path) data s)))
    s (fst (fs_write_path io (Some path) data s)) (snd (fs_write_path io (Some path) data s))"
    by (rule in_subdirD [OF reliable_fs.fs_write_path_step [OF reliable_fsI(1) [OF assms(1)] consistentD [OF assms(2)] assms(3-5)]])
      (rule stepD [OF _ put_effect])
  then show ?thesis by (simp add: assms(6) file_at_def file_view_None)
qed

text \<open>The sample after writing \<^verbatim>\<open>x\<close> to \<^verbatim>\<open>d/n\<close>.\<close>

lemma demo_written:
  obtains s where "fs_write_path ram_ops (Some [100, 47, 110]) (Some [120]) demo_fs = (True, s)"
    "fs_consistent (\<lambda>_. True) ram_sec s" "g_mounted s" "file_at ram_sec s 1 [110] = Some [120]"
    "file_at ram_sec s 0 [102] = Some [104, 105]" "subdir_at ram_sec s 0 [100] = Some 1" "is_dir (g_inodes s) 1"
proof -
  obtain ok s' where r: "fs_write_path ram_ops (Some [100, 47, 110]) (Some [120]) demo_fs = (ok, s')" by (metis surj_pair)
  note W = fs_write_path_effect [OF ram.reliable_disk_axioms demo_consistent demo_path(1) _ _ r, unfolded demo_path_effect step_effect_def]
  have ok using W by (simp add: demo_path demo_fs_simps demo_at demo_room demo_tree demo_sub is_empty_def)
  then show thesis
    using W r by (intro that) (auto simp: demo_sub demo_path is_empty_def file_changed_def file_content_def
      demo_fs_simps demo_tree demo_at fs_head_def)
qed

text \<open>C12: \<^verbatim>\<open>fs_write_path\<close> of a path with a directory part stores the data as a file of that directory
  of the root: it returns true exactly if the file system is mounted, the directory exists, the rest
  of the path is not empty, and the file exists or a directory slot, an inode and a block are free;
  then only this file has changed. This needs the rest of the path to fit a directory entry, which
  \<^verbatim>\<open>fs_write_path\<close> does not check (theory \<open>FsLimits\<close>).
\<close>

theorem fs_write_path_spec:
  assumes "reliable_disk io sec ready" and "fs_consistent ready sec s"
    and "has_sep path" and "\<not> is_empty path" and "str_len (path_rest path) < 30"
    and "fs_write_path io (Some path) data s = (ok, s')"
  shows "path_effect ready sec path (\<lambda>d. step_effect ready sec (g_mounted s \<and> \<not> is_empty (path_rest path) \<and>
        (file_at sec s d (path_rest path) \<noteq> None \<or> has_slot (blks sec s) d \<and> room s))
      (file_changed sec d (path_rest path) (Some (file_content data))) s ok s') s ok s'"
  using assms by (rule fs_write_path_effect)

theorem fs_write_path_spec_witness:
  "\<exists>s'. fs_write_path ram_ops (Some [100, 47, 110]) (Some [120]) demo_fs = (True, s') \<and>
     file_at ram_sec s' 1 [110] = Some [120] \<and> file_at ram_sec s' 0 [102] = Some [104, 105]"
proof -
  obtain ok s' where r: "fs_write_path ram_ops (Some [100, 47, 110]) (Some [120]) demo_fs = (ok, s')" by (metis surj_pair)
  note W = fs_write_path_spec [OF ram.reliable_disk_axioms demo_consistent demo_path(1) _ _ r, unfolded demo_path_effect step_effect_def]
  have ok using W by (simp add: demo_path demo_fs_simps demo_at demo_room demo_tree demo_sub is_empty_def)
  then show ?thesis
    using W r by (auto simp: demo_sub demo_path is_empty_def file_changed_def file_content_def demo_fs_simps demo_tree demo_at)
qed

text \<open>C13: \<^verbatim>\<open>fs_read_path\<close> of a path with a directory part returns the contents of this file of this
  directory of the root, cut off at the caller's limit, or fails if there is none; it changes nothing.
\<close>

theorem fs_read_path_spec:
  assumes "reliable_disk io sec ready" and "fs_consistent ready sec s" and "g_mounted s"
    and "has_sep path" and "\<not> is_empty path" and "\<not> is_empty (path_rest path)"
    and "fs_read_path io (Some path) n s = (r, s')"
  shows "r = (case subdir_at sec s 0 (path_dir path) of None \<Rightarrow> None
      | Some d \<Rightarrow> map_option (take (unat n)) (file_at sec s d (path_rest path))) \<and>
    fs_consistent ready sec s' \<and> fs_head s' = fs_head s \<and> tree_same sec s s'"
  using reliable_fs.fs_read_path_result [OF reliable_fsI(1) [OF assms(1)] consistentD [OF assms(2)] assms(3-6), of n]
    consistentI [of ready "fs_head s" sec "g_inodes s" "blks sec s" s'] assms(7)
  by (auto simp: post_def file_at_def subdir_at_def tree_same_def split: option.split)

theorem fs_read_path_spec_witness:
  "\<exists>s s'. fs_read_path ram_ops (Some [100, 47, 110]) 512 s = (Some [120], s')"
proof -
  obtain s where s: "fs_consistent (\<lambda>_. True) ram_sec s" "g_mounted s" "file_at ram_sec s 1 [110] = Some [120]"
    "subdir_at ram_sec s 0 [100] = Some 1" by (rule demo_written)
  obtain r s' where r: "fs_read_path ram_ops (Some [100, 47, 110]) 512 s = (r, s')" by (metis surj_pair)
  have "r = Some [120]"
    using fs_read_path_spec [OF ram.reliable_disk_axioms s(1,2) demo_path(1) _ _ r] s(3,4)
    by (simp add: demo_path is_empty_def)
  with r show ?thesis by blast
qed

text \<open>C14: \<^verbatim>\<open>fs_mkdir_path\<close> of a path with a directory part adds an empty directory to that directory of
  the root: it returns true exactly if the file system is mounted, the rest of the path has 1 to 29
  characters, no further separator, and is no directory there yet, and a directory slot, an inode and
  a block are free; then every file and every other directory is as before.
\<close>

theorem fs_mkdir_path_spec:
  assumes "reliable_disk io sec ready" and "fs_consistent ready sec s"
    and "has_sep path" and "\<not> is_empty path"
    and "fs_mkdir_path io (Some path) s = (ok, s')"
  shows "path_effect ready sec path (\<lambda>d. step_effect ready sec (g_mounted s \<and> name_ok (path_rest path) \<and>
        \<not> has_sep (path_rest path) \<and> room s \<and> has_slot (blks sec s) d \<and> subdir_at sec s d (path_rest path) = None)
      (dir_added sec d (path_rest path)) s ok s') s ok s'"
proof -
  have "path_effect ready sec path (\<lambda>d. step_effect ready sec (g_mounted s \<and> name_ok (path_rest path) \<and>
        \<not> has_sep (path_rest path) \<and> room s \<and> has_slot (blks sec s) d \<and>
        entry_of (g_inodes s) (blks sec s) INODE_DIR d (path_rest path) = None)
      (dir_added sec d (path_rest path)) s
      (fst (fs_mkdir_path io (Some path) s)) (snd (fs_mkdir_path io (Some path) s)))
    s (fst (fs_mkdir_path io (Some path) s)) (snd (fs_mkdir_path io (Some path) s))"
    by (rule in_subdirD [OF reliable_fs.fs_mkdir_path_step [OF reliable_fsI(1) [OF assms(1)] consistentD [OF assms(2)] assms(3,4)]])
      (rule stepD [OF _ dir_effect])
  then show ?thesis by (simp add: assms(5) subdir_at_def)
qed

theorem fs_mkdir_path_spec_witness:
  "\<exists>s' i. fs_mkdir_path ram_ops (Some [100, 47, 110]) demo_fs = (True, s') \<and>
     subdir_at ram_sec s' 1 [110] = Some i \<and> is_dir (g_inodes s') i"
proof -
  obtain ok s' where r: "fs_mkdir_path ram_ops (Some [100, 47, 110]) demo_fs = (ok, s')" by (metis surj_pair)
  note W = fs_mkdir_path_spec [OF ram.reliable_disk_axioms demo_consistent demo_path(1) _ r, unfolded demo_path_effect step_effect_def]
  have "\<not> has_sep [110]" by code_simp
  moreover have "subdir_at ram_sec demo_fs 1 [110] = None" by (simp add: demo_at demo_blk_simps entry_of_empty zero_block_free)
  ultimately have ok using W by (simp add: demo_path demo_fs_simps demo_room demo_sub name_ok_def is_empty_def)
  then have "dir_added ram_sec 1 [110] demo_fs s'" using W by (auto simp add: demo_path is_empty_def simp del: One_nat_def)
  with r \<open>ok\<close> show ?thesis by (auto simp: dir_added_def demo_fs_simps demo_sub)
qed

text \<open>C15: \<^verbatim>\<open>fs_remove_path\<close> of a path with a directory part deletes a file of that directory of the root:
  it returns true exactly if the file system is mounted and the file exists; then only this file is
  gone.
\<close>

theorem fs_remove_path_spec:
  assumes "reliable_disk io sec ready" and "fs_consistent ready sec s"
    and "has_sep path" and "\<not> is_empty path"
    and "fs_remove_path io (Some path) s = (ok, s')"
  shows "path_effect ready sec path (\<lambda>d. step_effect ready sec (g_mounted s \<and> \<not> is_empty (path_rest path) \<and>
        file_at sec s d (path_rest path) \<noteq> None)
      (file_changed sec d (path_rest path) None) s ok s') s ok s'"
proof -
  have "path_effect ready sec path (\<lambda>d. step_effect ready sec (g_mounted s \<and> \<not> is_empty (path_rest path) \<and>
        file_view (g_inodes s) (blks sec s) d (path_rest path) \<noteq> None)
      (file_changed sec d (path_rest path) None) s
      (fst (fs_remove_path io (Some path) s)) (snd (fs_remove_path io (Some path) s)))
    s (fst (fs_remove_path io (Some path) s)) (snd (fs_remove_path io (Some path) s))"
    by (rule in_subdirD [OF reliable_fs.fs_remove_path_step [OF reliable_fsI(1) [OF assms(1)] consistentD [OF assms(2)] assms(3,4)]])
      (rule stepD [OF _ del_effect])
  then show ?thesis by (simp add: assms(5) file_at_def)
qed

theorem fs_remove_path_spec_witness:
  "\<exists>s s'. file_at ram_sec s 1 [110] = Some [120] \<and> fs_remove_path ram_ops (Some [100, 47, 110]) s = (True, s') \<and>
     file_at ram_sec s' 1 [110] = None"
proof -
  obtain s where s: "fs_consistent (\<lambda>_. True) ram_sec s" "g_mounted s" "file_at ram_sec s 1 [110] = Some [120]"
    "subdir_at ram_sec s 0 [100] = Some 1" "is_dir (g_inodes s) 1" by (rule demo_written)
  obtain ok s' where r: "fs_remove_path ram_ops (Some [100, 47, 110]) s = (ok, s')" by (metis surj_pair)
  note W = fs_remove_path_spec [OF ram.reliable_disk_axioms s(1) demo_path(1) _ r]
  have ok using W s by (simp add: path_effect_def step_effect_def demo_path is_empty_def)
  with W r s show ?thesis
    by (intro exI [of _ s] exI [of _ s']) (auto simp: path_effect_def step_effect_def demo_path is_empty_def file_changed_def)
qed

end
