(* ===== verification/FsCopy.thy ===== *)
theory FsCopy
  imports FsPaths
begin

text \<open>
  Copying, \<^verbatim>\<open>fs_copy_path\<close>: which file is copied and where the copy goes, as lookups in the tree, and
  the call as one step of the tree.
\<close>

section \<open>Source and target\<close>

lemma is_empty_len: "is_empty p \<longleftrightarrow> str_len p = 0"
  by (cases p) (auto simp: is_empty_def str_len_cstr cstr_def byte_at_def)

text \<open>A state in which only reads have happened since \<open>s\<close>.\<close>

definition reread where
  "reread K sec tab B s s' \<longleftrightarrow> fs_at K sec tab B s' \<and> fs_head s' = fs_head s \<and> g_bitmap s' = g_bitmap s \<and>
     sec (disk s') = sec (disk s)"

lemma rereadD:
  assumes "reread K sec tab B s s'"
  shows "fs_at K sec tab B s'" "fs_head s' = fs_head s" "g_bitmap s' = g_bitmap s" "g_inodes s' = tab"
    "inode_at s' i = tab ! i" "sec (disk s') = sec (disk s)" "g_mounted s' = g_mounted s" "g_sb s' = g_sb s"
  using assms fs_atD(3,4) [of K sec tab B s'] by (auto simp: reread_def fs_head_def)

lemma reread_refl: "fs_at K sec tab B s \<Longrightarrow> reread K sec tab B s s"
  by (simp add: reread_def)

lemma reread_trans: "reread K sec tab B s s1 \<Longrightarrow> reread K sec tab B s1 s2 \<Longrightarrow> reread K sec tab B s s2"
  by (simp add: reread_def)

lemma reread_synced: "reread K sec tab B s s' \<Longrightarrow> fs_at K sec tab B s \<Longrightarrow> synced sec s' = synced sec s"
  by (simp add: synced_def rereadD fs_atD(3))

text \<open>A file by its path: in the root, or in a directory of the root.\<close>

definition path_file :: "inode list \<Rightarrow> (nat \<Rightarrow> u8 list) \<Rightarrow> u8 list \<Rightarrow> nat option" where
  "path_file tab B p =
     (if \<not> has_sep p then entry_of tab B INODE_FILE 0 p
      else if is_empty (path_rest p) then None
      else Option.bind (entry_of tab B INODE_DIR 0 (path_dir p)) (\<lambda>d. entry_of tab B INODE_FILE d (path_rest p)))"

text \<open>Where the copy goes: a directory and a name.\<close>

definition path_target :: "inode list \<Rightarrow> (nat \<Rightarrow> u8 list) \<Rightarrow> u8 list \<Rightarrow> u8 list \<Rightarrow> (nat \<times> u8 list) option" where
  "path_target tab B src dst =
     (if has_sep dst then
        if is_empty (path_rest dst) then None
        else map_option (\<lambda>d. (d, path_rest dst)) (entry_of tab B INODE_DIR 0 (path_dir dst))
      else case entry_of tab B INODE_DIR 0 dst of Some d \<Rightarrow> Some (d, base_name src) | None \<Rightarrow> Some (0, dst))"

context reliable_fs
begin

lemma reread_room: "reread K sec tab B s s' \<Longrightarrow> fs_at K sec tab B s \<Longrightarrow> room s' = room s"
  by (intro room_cong) (simp_all add: rereadD fs_atD(3))

lemma child_dir:
  assumes "fs_at K sec tab B s" "tree_ok tab B" "is_dir tab 0" "entry_of tab B INODE_DIR 0 n = Some d"
  shows "is_dir tab d"
  using subdir_is_dir [OF assms(2-4)] live_block(2) [OF assms] by simp

lemma path_file_live:
  assumes "fs_at K sec tab B s" "tree_ok tab B" "is_dir tab 0" "path_file tab B p = Some i"
  shows "i < 64" "direct0 (tab ! i) \<noteq> 0"
proof -
  obtain d n where d: "is_dir tab d" "entry_of tab B INODE_FILE d n = Some i"
    using assms child_dir [OF assms(1-3)]
    by (auto simp: path_file_def bind_eq_Some_conv split: if_splits)
  show "i < 64" "direct0 (tab ! i) \<noteq> 0"
    using live_block [OF assms(1,2) d] by simp_all
qed

lemma path_target_dir:
  assumes "fs_at K sec tab B s" "tree_ok tab B" "is_dir tab 0" "path_target tab B src dst = Some (d, n)"
  shows "is_dir tab d"
  using assms child_dir [OF assms(1-3)]
  by (auto simp: path_target_def split: if_splits option.splits)

lemma read_ok:
  assumes "fs_at K sec tab B s" "i < 64"
  obtains s' where "disk_read_lba io (block_lba s i) 1 s = (True, B i, s')" "reread K sec tab B s s'"
proof -
  have "\<exists>s'. (case disk_read_lba io (block_lba s i) 1 s of (ok, bs, s) \<Rightarrow> (ok, bs, s)) = (True, B i, s') \<and>
      reread K sec tab B s s'"
    by (rule read_at [where P = "\<lambda>r. \<exists>s'. r = (True, B i, s') \<and> reread K sec tab B s s'" and f = "\<lambda>ok bs s. (ok, bs, s)",
          OF assms(1) refl assms(2)]) (simp add: reread_def)
  then show thesis using that by auto
qed

lemma copy_source_at:
  assumes at: "fs_at K sec tab B s" and t: "tree_ok tab B" and r: "is_dir tab 0"
  obtains s' where "copy_source io src s = (path_file tab B src, s')" "reread K sec tab B s s'"
proof -
  obtain s1 where s1: "disk_read_lba io (block_lba s 0) 1 s = (True, B 0, s1)" "reread K sec tab B s s1"
    by (rule read_ok [OF at, of 0]) simp_all
  note R1 = rereadD [OF s1(2)]
  have un: "\<not> (used (inode_at s 0) = 0 \<or> direct0 (inode_at s 0) = 0)" using r fs_atD(4) [OF at] by (simp add: is_dir_def)
  show thesis
  proof (cases "has_sep src \<and> \<not> is_empty (path_rest src) \<and> entry_of tab B INODE_DIR 0 (path_dir src) \<noteq> None")
    case False
    then have "copy_source io src s = (path_file tab B src, s1)"
      by (auto simp: copy_source_def un s1 R1 Let_def path_file_def entry_of_def split: option.split)
    then show thesis by (rule that) (rule s1)
  next
    case True
    then obtain e where e: "find_dir_entry (path_dir src) (B 0) tab INODE_DIR = Some e" by (auto simp: entry_of_def)
    let ?d = "de_inode (B 0) e"
    have ed: "entry_of tab B INODE_DIR 0 (path_dir src) = Some ?d" using e by (simp add: entry_of_def)
    have d: "is_dir tab ?d" by (rule child_dir [OF at t r ed])
    then have d': "?d < 64" "direct0 (tab ! ?d) \<noteq> 0" by (auto simp: is_dir_def)
    obtain s2 where s2: "disk_read_lba io (block_lba s1 ?d) 1 s1 = (True, B ?d, s2)" "reread K sec tab B s1 s2"
      by (rule read_ok [OF R1(1) d'(1)])
    note R2 = rereadD [OF s2(2)]
    have "copy_source io src s = (path_file tab B src, s2)"
      using True d' by (auto simp: copy_source_def un s1 R1 s2 R2 e ed Let_def path_file_def entry_of_def split: option.split)
    then show thesis by (rule that) (rule reread_trans [OF s1(2) s2(2)])
  qed
qed

lemma copy_target_at:
  assumes at: "fs_at K sec tab B s" and t: "tree_ok tab B" and r: "is_dir tab 0"
  obtains s' where "copy_target io src dst s = (path_target tab B src dst, s')" "reread K sec tab B s s'"
proof -
  obtain s1 where s1: "disk_read_lba io (block_lba s 0) 1 s = (True, B 0, s1)" "reread K sec tab B s s1"
    by (rule read_ok [OF at, of 0]) simp_all
  note R1 = rereadD [OF s1(2)]
  show thesis
  proof (cases "has_sep dst \<and> is_empty (path_rest dst)")
    case True
    then have "copy_target io src dst s = (path_target tab B src dst, s)"
      by (simp add: copy_target_def path_target_def)
    then show thesis by (rule that) (rule reread_refl [OF at])
  next
    case False
    then have "copy_target io src dst s = (path_target tab B src dst, s1)"
      by (auto simp: copy_target_def s1 R1 Let_def path_target_def entry_of_def
        split: option.split dest: find_dir_entry_range)
    then show thesis by (rule that) (rule s1)
  qed
qed

end

section \<open>The copy\<close>

lemma copy_scan_write:
  "\<forall>e \<in> set is. de_used blk e \<longrightarrow> de_inode blk e < 64 \<Longrightarrow>
   write_scan name blk tab is sl = Some (copy_scan name blk tab is sl)"
  by (induction "is" arbitrary: sl) auto

context reliable_fs
begin

lemma commit_dir_file:
  assumes at: "fs_at K sec tab' B1 s1" and d: "is_dir tab' d" "length blk = 512"
    and i: "i < 64" "direct0 (tab' ! i) \<noteq> 0" "length X = 512"
    and fin: "tree_ok tab' (B1(d := blk, i := X))" "is_dir tab' 0" "R tab B tab' (B1(d := blk, i := X))" "c"
  shows "post (tree_step K sec c R tab B)
    (case disk_write_lba io (block_lba s1 d) blk 1 s1 of (ok, s) \<Rightarrow> if \<not> ok then (False, s) else
     case disk_write_lba io (block_lba s i) X 1 s of (ok, s) \<Rightarrow> if \<not> ok then (False, s) else flush io s)"
proof (rule post_write_at [OF at refl])
  fix s2 assume s2: "fs_at K sec tab' (B1(d := blk)) s2"
  show "post (tree_step K sec c R tab B) (if \<not> True then (False, s2) else
     case disk_write_lba io (block_lba s2 i) X 1 s2 of (ok, s) \<Rightarrow> if \<not> ok then (False, s) else flush io s)"
    unfolding not_True_eq_False if_False
  proof (rule post_write_at [OF s2 refl i])
    fix s3 assume s3: "fs_at K sec tab' (B1(d := blk, i := X)) s3"
    show "post (tree_step K sec c R tab B) (if \<not> True then (False, s3) else flush io s3)"
      unfolding not_True_eq_False if_False
      by (rule flush_at [OF s3]) (use fin in \<open>auto simp: tree_step_def tree_at_def\<close>)
  qed
qed (use d in \<open>auto simp: is_dir_def\<close>)

lemma copy_in_dir:
  assumes a: "tree_at K sec tab B s0" and at: "fs_at K sec tab B s" and m: "g_mounted s" and d: "is_dir tab d"
    and x: "length X = 512" and n: "str_len name < 30"
    and c: "c \<longleftrightarrow> entry_of tab B INODE_FILE d name \<noteq> None \<or> has_slot B d \<and> room s"
  shows "post (tree_step K sec c (put_file d name (mem_get X (unat sz))) tab B)
    (case copy_scan name (B d) tab [0..<entry_count] None of (found, free) \<Rightarrow>
     case claim_copy (B d) name sz found free s of (r, s) \<Rightarrow>
     case r of None \<Rightarrow> (False, s) | Some (target, blk) \<Rightarrow>
     case disk_write_lba io (block_lba s d) blk 1 s of (ok, s) \<Rightarrow> if \<not> ok then (False, s) else
     case disk_write_lba io (block_lba s target) X 1 s of (ok, s) \<Rightarrow> if \<not> ok then (False, s) else flush io s)"
proof -
  have t: "tree_ok tab B" and r: "is_dir tab 0" using a by (auto simp: tree_at_def)
  have lk: "links_ok tab (ent tab B)" and l: "length (B d) = 512" using t by (auto simp: tree_ok_def blocks_ok_def)
  note A = fs_atD [OF at]
  obtain found free where cs: "copy_scan name (B d) tab [0..<16] None = (found, free)" by (metis surj_pair)
  have "\<forall>e \<in> set [0..<16]. de_used (B d) e \<longrightarrow> de_inode (B d) e < 64"
    unfolding set_upt using tree_inodes(2) [OF t d] by simp
  then have sc: "write_scan name (B d) tab [0..<16] None = Some (found, free)"
    using copy_scan_write [of "[0..<16]" "B d" name tab None] cs by simp
  show ?thesis
    unfolding cs prod.case
  proof (cases found)
    case (Some i)
    have e: "entry_of tab B INODE_FILE d name = Some i" using write_target [OF lk d] sc Some by simp
    note E = live_block [OF at t d e, simplified]
    let ?tab = "tab[i := (tab ! i)\<lparr>isize := sz\<rparr>]"
    note W = tree_write [OF t d A(6) x e, where sz = sz]
    have at1: "fs_at K sec ?tab B (set_inode i ((tab ! i)\<lparr>isize := sz\<rparr>) s)" by (rule isize_at [OF at E(1)])
    have "B(d := B d, i := X) = B(i := X)" by simp
    then have "post (tree_step K sec c (put_file d name (mem_get X (unat sz))) tab B)
      (case disk_write_lba io (block_lba (set_inode i ((tab ! i)\<lparr>isize := sz\<rparr>) s) d) (B d) 1
          (set_inode i ((tab ! i)\<lparr>isize := sz\<rparr>) s) of (ok, s) \<Rightarrow> if \<not> ok then (False, s) else
       case disk_write_lba io (block_lba s i) X 1 s of (ok, s) \<Rightarrow> if \<not> ok then (False, s) else flush io s)"
      by (intro commit_dir_file [OF at1 _ l E(1) _ x])
        (use W E r c d e A(6) in \<open>simp_all add: put_file_def\<close>)
    then show "post (tree_step K sec c (put_file d name (mem_get X (unat sz))) tab B)
      (case claim_copy (B d) name sz found free s of (r, s) \<Rightarrow>
       case r of None \<Rightarrow> (False, s) | Some (target, blk) \<Rightarrow>
       case disk_write_lba io (block_lba s d) blk 1 s of (ok, s) \<Rightarrow> if \<not> ok then (False, s) else
       case disk_write_lba io (block_lba s target) X 1 s of (ok, s) \<Rightarrow> if \<not> ok then (False, s) else flush io s)"
      by (simp add: claim_copy_def Some A(4))
  next
    case None
    show "post (tree_step K sec c (put_file d name (mem_get X (unat sz))) tab B)
      (case claim_copy (B d) name sz found free s of (r, s) \<Rightarrow>
       case r of None \<Rightarrow> (False, s) | Some (target, blk) \<Rightarrow>
       case disk_write_lba io (block_lba s d) blk 1 s of (ok, s) \<Rightarrow> if \<not> ok then (False, s) else
       case disk_write_lba io (block_lba s target) X 1 s of (ok, s) \<Rightarrow> if \<not> ok then (False, s) else flush io s)"
    proof (cases "\<exists>slot i b. free = Some slot \<and> alloc_inode_raw s = Some i \<and> alloc_block_raw s = Some b")
      case False
      then have cf: "claim_copy (B d) name sz found free s = (None, s)"
        by (auto simp: claim_copy_def None split: option.split)
      have "\<not> c"
        using False scan_outcomes(6,7) [OF t d] sc None c by (cases free) (auto simp: room_raw [OF m])
      with cf show ?thesis using unchanged [OF a at] by simp
    next
      case True
      then obtain slot i b where fr: "free = Some slot" and fi: "alloc_inode_raw s = Some i"
        and fb: "alloc_block_raw s = Some b" by blast
      note slot = write_slot [where B = B and d = d, OF sc [unfolded None fr]]
      note i = alloc_inode_rawD [OF fi]
      define nd where "nd = (fill_inode INODE_FILE b (tab ! i))\<lparr>isize := sz\<rparr>"
      let ?s1 = "set_inode i nd (mark_block_used b s)"
      obtain Y where Y: "length Y = 512" "fs_at K sec (tab[i := nd]) (B(i := Y)) ?s1"
        using alloc_at [OF at disjI2 [OF fi] disjI2 [OF fb] _ nd_def] by auto
      have d0: "direct0 nd \<noteq> 0"
        using fill_inode_ok(1) [OF A(1) A(4) disjI2 [OF fb], where ty = INODE_FILE] i unfolding nd_def by blast
      have di: "d \<noteq> i" using d i A(4) by (auto simp: is_dir_def)
      have P: "tree_ok (tab[i := nd]) (B(i := X, d := de_put (B d) slot i name))"
        "put_file d name (mem_get X (unat sz)) tab B (tab[i := nd]) (B(i := X, d := de_put (B d) slot i name))"
        using put_file_add [OF t d slot(1,2) _ _ A(6) _ _ _ x n slot(3), of i nd] i A(4) new_inode_fields
        by (auto simp: nd_def)
      have eq: "(B(i := Y))(d := de_put (B d) slot i name, i := X) = B(i := X, d := de_put (B d) slot i name)"
        using di by (auto simp: fun_eq_iff)
      have cf: "claim_copy (B d) name sz found free s = (Some (i, de_put (B d) slot i name), ?s1)"
        by (simp add: claim_copy_def None fr fi fb A(4) nd_def)
      show ?thesis
        unfolding cf prod.case option.case
        by (rule commit_dir_file [OF Y(2)])
          (use P eq d di l i d0 x A(6) r c slot fi fb m in \<open>simp_all add: put_file_def is_dir_def has_slot_def room_raw, blast?\<close>)
    qed
  qed
qed

lemma fs_copy_path_step:
  assumes a: "tree_at K sec tab B s"
  shows "post (\<lambda>ok s'. case path_file tab B src of None \<Rightarrow> \<not> ok \<and> tree_at K sec tab B s' | Some i \<Rightarrow>
      case path_target tab B src dst of None \<Rightarrow> \<not> ok \<and> tree_at K sec tab B s' | Some (d, name) \<Rightarrow>
      tree_step K sec (g_mounted s \<and> \<not> is_empty src \<and> \<not> is_empty dst \<and> name_ok name \<and>
          (entry_of tab B INODE_FILE d name \<noteq> None \<or> has_slot B d \<and> room s))
        (put_file d name (mem_get (B i) (unat (isize (tab ! i))))) tab B ok s')
    (fs_copy_path io (Some src) (Some dst) s)" (is "post ?Q _")
proof -
  have at: "fs_at K sec tab B s" and t: "tree_ok tab B" and r: "is_dir tab 0" using a by (auto simp: tree_at_def)
  have no: "post ?Q (False, s')" if "fs_at K sec tab B s'" "path_file tab B src = None \<or> path_target tab B src dst = None \<or>
      \<not> (g_mounted s \<and> \<not> is_empty src \<and> \<not> is_empty dst)" for s'
    using that t r by (auto simp: post_def tree_step_def tree_at_def split: option.split)
  show ?thesis
  proof (cases "g_mounted s \<and> \<not> is_empty src \<and> \<not> is_empty dst")
    case False
    then show ?thesis using no [OF at] by (auto simp: fs_copy_path_def)
  next
    case True
    obtain s1 where s1: "copy_source io src s = (path_file tab B src, s1)" "reread K sec tab B s s1"
      by (rule copy_source_at [OF at t r])
    note R1 = rereadD [OF s1(2)]
    show ?thesis
    proof (cases "path_file tab B src")
      case None
      then show ?thesis using True no [OF R1(1)] by (simp add: fs_copy_path_def s1)
    next
      case (Some i)
      note i = path_file_live [OF at t r Some]
      obtain s2 where s2: "disk_read_lba io (block_lba s1 i) 1 s1 = (True, B i, s2)" "reread K sec tab B s1 s2"
        by (rule read_ok [OF R1(1) i(1)])
      note R2 = rereadD [OF s2(2)]
      obtain s3 where s3: "copy_target io src dst s2 = (path_target tab B src dst, s3)" "reread K sec tab B s2 s3"
        by (rule copy_target_at [OF R2(1) t r])
      note R3 = rereadD [OF s3(2)]
      have i': "\<not> FS_MAX_INODES \<le> i" using i by simp
      show ?thesis
      proof (cases "path_target tab B src dst")
        case None
        then show ?thesis
          using True no [OF R3(1)] i
          by (simp add: fs_copy_path_def Let_def s1 Some i' R1 s2 ensure_root_at [OF R2(1) r] s3)
      next
        case tgt: (Some dn)
        obtain d name where dn: "dn = (d, name)" by (cases dn)
        have d: "is_dir tab d" by (rule path_target_dir [OF at t r tgt [unfolded dn]])
        have d': "d < 64" "used (tab ! d) \<noteq> 0" "direct0 (tab ! d) \<noteq> 0" using d by (simp_all add: is_dir_def)
        obtain s4 where s4: "disk_read_lba io (block_lba s3 d) 1 s3 = (True, B d, s4)" "reread K sec tab B s3 s4"
          by (rule read_ok [OF R3(1) d'(1)])
        note R4 = rereadD [OF s4(2)]
        let ?sz = "isize (tab ! i)"
        let ?c = "g_mounted s \<and> \<not> is_empty src \<and> \<not> is_empty dst \<and> name_ok name \<and>
          (entry_of tab B INODE_FILE d name \<noteq> None \<or> has_slot B d \<and> room s)"
        have Q: "post ?Q x \<longleftrightarrow> post (tree_step K sec ?c (put_file d name (mem_get (B i) (unat ?sz))) tab B) x" for x
          by (simp add: post_def Some tgt dn)
        have nm: "str_len name = 0 \<or> 30 \<le> str_len name \<longleftrightarrow> \<not> name_ok name" by (auto simp: name_ok_def is_empty_len)
        have x: "length (B i) = 512" using t by (simp add: tree_ok_def blocks_ok_def)
        have m4: "g_mounted s4" using True by (simp add: R4 R3 R2 R1)
        have eq: "fs_copy_path io (Some src) (Some dst) s = (if \<not> name_ok name then (False, s3) else
          case copy_scan name (B d) tab [0..<entry_count] None of (found, free) \<Rightarrow>
          case claim_copy (B d) name ?sz found free s4 of (r, s) \<Rightarrow>
          case r of None \<Rightarrow> (False, s) | Some (target, blk) \<Rightarrow>
          case disk_write_lba io (block_lba s d) blk 1 s of (ok, s) \<Rightarrow> if \<not> ok then (False, s) else
          case disk_write_lba io (block_lba s target) (B i) 1 s of (ok, s) \<Rightarrow> if \<not> ok then (False, s) else flush io s)"
          unfolding fs_copy_path_def Let_def
          using True i d' by (simp add: s1 Some i' R1 s2 R2 ensure_root_at [OF R2(1) r] s3 tgt dn nm R3 s4 R4)
        have rm: "room s4 = room s"
          using reread_room [OF reread_trans [OF reread_trans [OF s1(2) s2(2)] reread_trans [OF s3(2) s4(2)]] at] .
        show ?thesis
          unfolding eq Q
        proof (intro post_if)
          assume "\<not> name_ok name"
          then show "post (tree_step K sec ?c (put_file d name (mem_get (B i) (unat ?sz))) tab B) (False, s3)"
            by (intro unchanged [OF a R3(1)]) simp
        next
          assume n: "\<not> \<not> name_ok name"
          show "post (tree_step K sec ?c (put_file d name (mem_get (B i) (unat ?sz))) tab B)
             (case copy_scan name (B d) tab [0..<entry_count] None of (found, free) \<Rightarrow>
              case claim_copy (B d) name ?sz found free s4 of (r, s) \<Rightarrow>
              case r of None \<Rightarrow> (False, s) | Some (target, blk) \<Rightarrow>
              case disk_write_lba io (block_lba s d) blk 1 s of (ok, s) \<Rightarrow> if \<not> ok then (False, s) else
              case disk_write_lba io (block_lba s target) (B i) 1 s of (ok, s) \<Rightarrow> if \<not> ok then (False, s) else flush io s)"
            by (rule copy_in_dir [OF a R4(1) m4 d x]) (use n True rm in \<open>auto simp: name_ok_def\<close>)
        qed
      qed
    qed
  qed
qed

end

section \<open>The property\<close>

definition file_of_path :: "('d \<Rightarrow> nat \<Rightarrow> u8 list) \<Rightarrow> 'd fs \<Rightarrow> u8 list \<Rightarrow> u8 list option" where
  "file_of_path sec s p =
     (if \<not> has_sep p then file_at sec s 0 p
      else if is_empty (path_rest p) then None
      else case subdir_at sec s 0 (path_dir p) of None \<Rightarrow> None | Some d \<Rightarrow> file_at sec s d (path_rest p))"

definition copy_place :: "('d \<Rightarrow> nat \<Rightarrow> u8 list) \<Rightarrow> 'd fs \<Rightarrow> u8 list \<Rightarrow> u8 list \<Rightarrow> (nat \<times> u8 list) option" where
  "copy_place sec s src dst =
     (if has_sep dst then
        if is_empty (path_rest dst) then None
        else map_option (\<lambda>d. (d, path_rest dst)) (subdir_at sec s 0 (path_dir dst))
      else case subdir_at sec s 0 dst of Some d \<Rightarrow> Some (d, base_name src) | None \<Rightarrow> Some (0, dst))"

lemma file_of_path_file:
  "file_of_path sec s p = map_option (\<lambda>i. mem_get (blks sec s i) (unat (isize (g_inodes s ! i)))) (path_file (g_inodes s) (blks sec s) p)"
  by (simp add: file_of_path_def path_file_def file_at_def file_view_def subdir_at_def split: option.split)

lemma copy_place_target: "copy_place sec s = path_target (g_inodes s) (blks sec s)"
  by (simp add: copy_place_def path_target_def subdir_at_def fun_eq_iff)

text \<open>C10: \<^verbatim>\<open>fs_copy_path\<close> of a path to another stores the contents of the file at the first, as it is, under
  the second: as the file of the last name in the directory of the second path, or under its own name if
  the second path is a directory of the root. It returns true exactly if the file system is mounted, the
  source file and the target directory exist, the new name has 1 to 29 characters, and the target file
  exists or a directory slot, an inode and a block are free; then every other file and every directory is
  as before and the tables are on disk; if it returns false nothing has changed.
\<close>

theorem fs_copy_path_spec:
  assumes "reliable_disk io sec ready" and "fs_consistent ready sec s"
    and "fs_copy_path io (Some src) (Some dst) s = (ok, s')"
  shows "case (file_of_path sec s src, copy_place sec s src dst) of
      (Some content, Some (d, name)) \<Rightarrow> step_effect ready sec (g_mounted s \<and> \<not> is_empty src \<and> \<not> is_empty dst \<and> name_ok name \<and>
          (file_at sec s d name \<noteq> None \<or> has_slot (blks sec s) d \<and> room s))
        (file_changed sec d name (Some content)) s ok s'
    | _ \<Rightarrow> \<not> ok \<and> fs_consistent ready sec s' \<and> fs_head s' = fs_head s \<and> tree_same sec s s'"
proof -
  note C = reliable_fs.fs_copy_path_step [OF reliable_fsI(1) [OF assms(1)] consistentD [OF assms(2)], of src dst]
  note same = consistentI [of ready "fs_head s" sec "g_inodes s" "blks sec s" s']
  show ?thesis
  proof (cases "path_file (g_inodes s) (blks sec s) src")
    case None
    then show ?thesis using C same by (simp add: assms(3) post_def file_of_path_file tree_same_def)
  next
    case (Some i)
    show ?thesis
    proof (cases "path_target (g_inodes s) (blks sec s) src dst")
      case None
      then show ?thesis using C Some same by (simp add: assms(3) post_def file_of_path_file copy_place_target tree_same_def)
    next
      case tgt: (Some dn)
      obtain d name where dn: "dn = (d, name)" by (cases dn)
      show ?thesis
        using stepD [OF _ put_effect, where r = "(ok, s')"] C Some tgt dn
        by (simp add: assms(3) post_def file_of_path_file copy_place_target file_at_def file_view_None)
    qed
  qed
qed

theorem fs_copy_path_spec_witness:
  "\<exists>s'. fs_copy_path ram_ops (Some [102]) (Some [100]) demo_fs = (True, s') \<and>
     file_at ram_sec s' 1 [102] = Some [104, 105] \<and> file_at ram_sec s' 0 [102] = Some [104, 105]"
proof -
  obtain ok s' where r: "fs_copy_path ram_ops (Some [102]) (Some [100]) demo_fs = (ok, s')" by (metis surj_pair)
  have p: "\<not> has_sep [102]" "\<not> has_sep [100]" "\<not> is_empty [102]" "\<not> is_empty [100]" by code_simp+
  have f: "file_of_path ram_sec demo_fs [102] = Some [104, 105]" "copy_place ram_sec demo_fs [102] [100] = Some (1, [102])"
    by (simp_all add: file_of_path_def copy_place_def p demo_at demo_tree base_name_def)
  note W = fs_copy_path_spec [OF ram.reliable_disk_axioms demo_consistent r, unfolded f, simplified, unfolded step_effect_def]
  have ok using W by (simp add: p demo_fs_simps demo_at demo_room(1) demo_sub demo_tree name_ok_def)
  then show ?thesis using W r by (auto simp: file_changed_def demo_fs_simps demo_tree demo_at demo_sub)
qed

end
