(* ===== verification/FsRename.thy ===== *)
theory FsRename
  imports FsCopy
begin

text \<open>
  Renaming and moving, \<^verbatim>\<open>fs_rename\<close>: what is moved and where, as lookups in the tree, the change of the
  entries, and the call as one step of the tree.
\<close>

section \<open>Source and target\<close>

definition rename_src :: "inode list \<Rightarrow> (nat \<Rightarrow> u8 list) \<Rightarrow> u8 list \<Rightarrow> (nat \<times> u8 list) option" where
  "rename_src tab B src =
     (if \<not> has_sep src then Some (0, src)
      else if path_sep src = 0 \<or> is_empty (path_rest src) then None
      else map_option (\<lambda>d. (d, path_rest src)) (entry_of tab B INODE_DIR 0 (path_dir src)))"

text \<open>The target: a directory, the new name, and whether it is an existing directory to move into.\<close>

definition rename_dst :: "inode list \<Rightarrow> (nat \<Rightarrow> u8 list) \<Rightarrow> u8 list \<Rightarrow> u8 list \<Rightarrow> (nat \<times> u8 list \<times> bool) option" where
  "rename_dst tab B name dst =
     (if has_sep dst then
        if path_sep dst = 0 then None
        else map_option (\<lambda>d. if is_empty (path_rest dst) then (d, name, True) else (d, path_rest dst, False))
               (entry_of tab B INODE_DIR 0 (path_dir dst))
      else case entry_of tab B INODE_DIR 0 dst of Some d \<Rightarrow> Some (d, name, True) | None \<Rightarrow> Some (0, dst, False))"

text \<open>What is renamed: its directory, name, type and inode; a file comes before a directory of its name.\<close>

definition rename_what :: "inode list \<Rightarrow> (nat \<Rightarrow> u8 list) \<Rightarrow> u8 list \<Rightarrow> (nat \<times> u8 list \<times> u8 \<times> nat) option" where
  "rename_what tab B src =
     (case rename_src tab B src of None \<Rightarrow> None | Some (d, name) \<Rightarrow>
      case entry_of tab B INODE_FILE d name of Some i \<Rightarrow> Some (d, name, INODE_FILE, i)
      | None \<Rightarrow> map_option (\<lambda>i. (d, name, INODE_DIR, i)) (entry_of tab B INODE_DIR d name))"

section \<open>Moving an entry\<close>

definition moved where
  "moved ty sd sn dd dn i tab B tab' B' \<longleftrightarrow> tab' = tab \<and> (\<forall>j. \<not> is_dir tab j \<longrightarrow> B' j = B j) \<and>
     (\<forall>d' ty' n. is_dir tab d' \<longrightarrow> ty' \<noteq> 0 \<longrightarrow> entry_of tab B' ty' d' n =
        (if ty' = ty \<and> d' = dd \<and> cstr n = cstr dn then Some i
         else if ty' = ty \<and> d' = sd \<and> cstr n = cstr sn then None
         else entry_of tab B ty' d' n))"

lemma moved_links:
  assumes t: "tree_ok tab B" and sd: "is_dir tab sd" and dd: "is_dir tab dd"
    and e: "ent tab B (sd, e) = Some (cstr sn, i)" and ty: "itype (tab ! i) = ty" "ty \<noteq> 0"
    and q: "dd = sd \<and> slot = e \<or> ent tab B (dd, slot) = None"
    and new: "entry_of tab B ty dd dn = None"
    and B': "blocks_ok tab B'" "ent tab B' = ((ent tab B)((sd, e) := None))((dd, slot) \<mapsto> (cstr dn, i))"
      "\<And>j. \<not> is_dir tab j \<Longrightarrow> B' j = B j"
  shows "tree_ok tab B'" and "moved ty sd sn dd dn i tab B tab B'"
proof -
  have lk: "links_ok tab (ent tab B)" using t by (simp add: tree_ok_def)
  note D = links_okD [OF lk]
  have other: "itype (tab ! j) \<noteq> ty" if "ent tab B (dd, e') = Some (cstr dn, j)" for e' j
    using new entry_of_iff [OF lk dd ty(2), of dn j] that by auto
  have lk': "links_ok tab (ent tab B')"
    unfolding B'(2) by (rule links_rename [OF lk e]) (use q other ty in auto)
  show t': "tree_ok tab B'" using B'(1) lk' by (simp add: tree_ok_def)
  have uniq: "p = (sd, e)" if "ent tab B p = Some (n, i)" for p n using D(4) [OF e that] by simp
  have at: "ent tab B' p = (if p = (dd, slot) then Some (cstr dn, i) else if p = (sd, e) then None else ent tab B p)" for p
    by (simp add: B'(2))
  have old: "ent tab B (dd, slot) = None \<or> (dd, slot) = (sd, e)" using q by auto
  have same: "(ent tab B' p = Some (n, k)) = (ent tab B p = Some (n, k))" if "k \<noteq> i" for p n k
    unfolding at using that e old by (cases "p = (dd, slot)"; cases "p = (sd, e)") auto
  have self: "(ent tab B' p = Some (n, i)) = (p = (dd, slot) \<and> n = cstr dn)" for p n
  proof (cases "p = (dd, slot) \<or> p = (sd, e)")
    case True
    then show ?thesis unfolding at by (cases "p = (dd, slot)") auto
  next
    case False
    then have "ent tab B p \<noteq> Some (n, i)" using uniq by metis
    then show ?thesis unfolding at using False by simp
  qed
  have "entry_of tab B' ty' d' n = (if ty' = ty \<and> d' = dd \<and> cstr n = cstr dn then Some i
         else if ty' = ty \<and> d' = sd \<and> cstr n = cstr sn then None else entry_of tab B ty' d' n)"
    (is "?l = ?r") if d': "is_dir tab d'" and ty': "ty' \<noteq> 0" for d' ty' n
  proof (rule option_eqI)
    fix k
    have l: "?l = Some k \<longleftrightarrow> (\<exists>e'. ent tab B' (d', e') = Some (cstr n, k) \<and> itype (tab ! k) = ty')"
      by (rule entry_of_iff [OF lk' d' ty'])
    have o: "entry_of tab B ty' d' n = Some k \<longleftrightarrow> (\<exists>e'. ent tab B (d', e') = Some (cstr n, k) \<and> itype (tab ! k) = ty')"
      by (rule entry_of_iff [OF lk d' ty'])
    show "?l = Some k \<longleftrightarrow> ?r = Some k"
    proof (cases "k = i")
      case True
      have li: "?l = Some i \<longleftrightarrow> d' = dd \<and> cstr n = cstr dn \<and> ty' = ty"
        using l [unfolded True] self ty by auto
      have oi: "entry_of tab B ty' d' n = Some i \<longleftrightarrow> d' = sd \<and> cstr n = cstr sn \<and> ty' = ty"
        using o [unfolded True] uniq [of "(d', _)" "cstr n"] e ty by auto
      show ?thesis unfolding True using li oi by auto
    next
      case False
      have "\<not> (ty' = ty \<and> d' = dd \<and> cstr n = cstr dn)" if a: "entry_of tab B ty' d' n = Some k"
      proof
        assume "ty' = ty \<and> d' = dd \<and> cstr n = cstr dn"
        with iffD1 [OF o a] obtain e' where "ent tab B (dd, e') = Some (cstr dn, k)" "itype (tab ! k) = ty" by auto
        then show False using other by blast
      qed
      moreover have "\<not> (ty' = ty \<and> d' = sd \<and> cstr n = cstr sn)" if "entry_of tab B ty' d' n = Some k"
        using that o e ty False D(5) [OF e] by (metis option.inject prod.inject)
      ultimately show ?thesis using l o same [OF False] False by auto
    qed
  qed
  then show "moved ty sd sn dd dn i tab B tab B'" using B'(3) by (simp add: moved_def)
qed

lemma move_within:
  assumes t: "tree_ok tab B" and d: "is_dir tab d" and e: "ent tab B (d, e) = Some (cstr sn, i)"
    and ty: "itype (tab ! i) = ty" "ty \<noteq> 0" and n: "str_len dn < 30" and new: "entry_of tab B ty d dn = None"
  defines "B' \<equiv> B(d := de_rename (B d) e dn)"
  shows "tree_ok tab B'" and "moved ty d sn d dn i tab B tab B'"
proof -
  have bl: "blocks_ok tab B" using t by (simp add: tree_ok_def)
  have u: "slot_used tab B d e" and i: "de_inode (B d) e = i" using e by (auto simp: ent_Some)
  note R = ent_rename [OF bl u n]
  have B': "blocks_ok tab B'" "ent tab B' = ((ent tab B)((d, e) := None))((d, e) \<mapsto> (cstr dn, i))"
    using R i by (simp_all add: B'_def)
  show "tree_ok tab B'" "moved ty d sn d dn i tab B tab B'"
    by (rule moved_links [OF t d d e ty _ new B']; use d in \<open>auto simp: B'_def\<close>)+
qed

lemma move_across:
  assumes t: "tree_ok tab B" and sd: "is_dir tab sd" and dd: "is_dir tab dd" "dd \<noteq> sd"
    and e: "ent tab B (sd, e) = Some (cstr sn, i)" and slot: "slot < 16" "\<not> de_used (B dd) slot"
    and ty: "itype (tab ! i) = ty" "ty \<noteq> 0" and n: "str_len dn < 30" and new: "entry_of tab B ty dd dn = None"
  defines "B' \<equiv> B(sd := de_clear (B sd) e, dd := de_put (B dd) slot i dn)"
  shows "tree_ok tab B'" and "moved ty sd sn dd dn i tab B tab B'"
proof -
  have bl: "blocks_ok tab B" and lk: "links_ok tab (ent tab B)" using t by (auto simp: tree_ok_def)
  have e16: "e < 16" using e by (auto simp: ent_Some slot_used_def)
  have i: "i < 256" using links_okD(2) [OF lk e] by simp
  note C = ent_clear [OF bl sd e16]
  have free: "ent tab B (dd, slot) = None" using slot by (simp add: ent_def slot_used_def)
  have "(B(sd := de_clear (B sd) e)) dd = B dd" using dd(2) by simp
  then have B': "blocks_ok tab B'" "ent tab B' = ((ent tab B)((sd, e) := None))((dd, slot) \<mapsto> (cstr dn, i))"
    using ent_put [OF C(2) dd(1) slot(1) i n] C(1) by (simp_all add: B'_def)
  show "tree_ok tab B'" "moved ty sd sn dd dn i tab B tab B'"
    by (rule moved_links [OF t sd dd(1) e ty _ new B']; use sd dd free in \<open>auto simp: B'_def\<close>)+
qed

section \<open>The call\<close>

lemma found_entry:
  assumes "tree_ok tab B" "is_dir tab d" "find_dir_entry n (B d) tab ty = Some e" "ty \<noteq> 0"
  shows "ent tab B (d, e) = Some (cstr n, de_inode (B d) e)" "itype (tab ! de_inode (B d) e) = ty"
    "entry_of tab B ty d n = Some (de_inode (B d) e)" "str_len n < 30"
proof -
  have lk: "links_ok tab (ent tab B)" using assms(1) by (simp add: tree_ok_def)
  have e: "e < 16" "entry_matches n (B d) tab ty e" using find_dir_entry_Some [OF assms(3)] by auto
  note M = match_entry_of [OF lk assms(2,4) e]
  show "ent tab B (d, e) = Some (cstr n, de_inode (B d) e)" "itype (tab ! de_inode (B d) e) = ty"
    "entry_of tab B ty d n = Some (de_inode (B d) e)" by (rule M)+
  have "entry_ok (B d) e" using assms(1) M(1) by (auto simp: tree_ok_def blocks_ok_def ent_Some)
  then show "str_len n < 30" using M(1) by (simp add: entry_ok_def ent_Some str_len_cstr)
qed

lemma find_free_slot_iff: "find_free_slot blk \<noteq> None \<longleftrightarrow> (\<exists>e < 16. \<not> de_used blk e)"
  by (auto simp: find_free_slot_def find_None_iff)

lemma find_free_slotD: "find_free_slot blk = Some e \<Longrightarrow> e < 16 \<and> \<not> de_used blk e"
  by (auto simp: find_free_slot_def find_Some_iff)

context reliable_fs
begin

lemma load_ok:
  assumes "fs_at K sec tab B s" "is_dir tab d"
  obtains s' where "load_dir_block io d s = (True, B d, s')" "reread K sec tab B s s'"
proof -
  obtain s' where "disk_read_lba io (block_lba s d) 1 s = (True, B d, s')" "reread K sec tab B s s'"
    by (rule read_ok [OF assms(1), of d]) (use assms(2) in \<open>simp_all add: is_dir_def\<close>)
  then show thesis using assms fs_atD(4) [OF assms(1)] by (intro that) (auto simp: load_dir_block_def is_dir_def)
qed

lemma write_dir_ok:
  assumes at: "fs_at K sec tab B s" and d: "is_dir tab d" and l: "length blk = 512"
  obtains s' where "write_dir_block io d blk s = (True, s')" "fs_at K sec tab (B(d := blk)) s'"
    "fs_head s' = fs_head s" "synced sec s' = synced sec s"
proof -
  note A = fs_atD [OF at]
  have d': "d < 64" "used (tab ! d) \<noteq> 0" "itype (tab ! d) = INODE_DIR" "direct0 (tab ! d) \<noteq> 0"
    using d by (simp_all add: is_dir_def)
  obtain ok d2 where w: "write_sectors io (disk s) (block_lba s d) blk 1 = (ok, d2)" by (metis surj_pair)
  have e: "disk_write_lba io (block_lba s d) blk 1 s = (ok, s\<lparr>disk := d2\<rparr>)" by (simp add: disk_write_lba_def w)
  have "\<exists>s'. (case disk_write_lba io (block_lba s d) blk 1 s of (ok, s) \<Rightarrow> (ok, s)) = (True, s') \<and>
      fs_at K sec tab (B(d := blk)) s' \<and> fs_head s' = fs_head s \<and> g_bitmap s' = g_bitmap s"
    by (rule write_at [where P = "\<lambda>r. \<exists>s'. r = (True, s') \<and> fs_at K sec tab (B(d := blk)) s' \<and> fs_head s' = fs_head s \<and>
          g_bitmap s' = g_bitmap s" and f = "\<lambda>ok s. (ok, s)", OF at refl d'(1,4) l]) simp
  then have f: "ok" "fs_at K sec tab (B(d := blk)) (s\<lparr>disk := d2\<rparr>)" by (auto simp: e)
  have k: "K (fs_head s) (disk s)" using A(1) by (simp add: fs_ok_def)
  have area: "145 \<le> unat (block_lba s d)" "unat (block_lba s d) + unat (1 :: u32) \<le> lba_limit"
    using block_lba_eq [OF A(2) d'(1)] block_lba_range [OF A(1) d'(1)] by (simp_all add: fs_area_def)
  have "\<forall>l < lba_limit. l < unat (block_lba s d) \<or> unat (block_lba s d) + unat (1 :: u32) \<le> l \<longrightarrow> sec d2 l = sec (disk s) l"
    using write_law [OF K_ready [OF k] area(2) _ w] l by simp
  then have "sec d2 l = sec (disk s) l" if "l < 145" for l using that area by auto
  then have "map (sec d2) [129..<137] = map (sec (disk s)) [129..<137]" "map (sec d2) [137..<145] = map (sec (disk s)) [137..<145]"
    by simp_all
  then have "synced sec (s\<lparr>disk := d2\<rparr>) = synced sec s" by (simp add: synced_def del: map_eq_conv)
  then show thesis
    using f d' A(4) by (intro that [of "s\<lparr>disk := d2\<rparr>"]) (simp_all add: write_dir_block_def e fs_head_def)
qed

lemma rename_dir_at:
  assumes at: "fs_at K sec tab B s" and r: "is_dir tab 0"
  obtains s' where "rename_dir io n s = (entry_of tab B INODE_DIR 0 n, s')" "reread K sec tab B s s'"
proof -
  obtain s1 where s1: "load_dir_block io 0 s = (True, B 0, s1)" "reread K sec tab B s s1" by (rule load_ok [OF at r])
  then have "rename_dir io n s = (entry_of tab B INODE_DIR 0 n, s1)"
    using rereadD(4) [OF s1(2)] by (auto simp: rename_dir_def entry_of_def split: option.split)
  then show thesis using that s1 by blast
qed

lemma rename_source_at:
  assumes at: "fs_at K sec tab B s" and r: "is_dir tab 0"
  obtains s' where "rename_source io src s = (rename_src tab B src, s')" "reread K sec tab B s s'"
proof -
  obtain s1 where s1: "rename_dir io (path_dir src) s = (entry_of tab B INODE_DIR 0 (path_dir src), s1)" "reread K sec tab B s s1"
    by (rule rename_dir_at [OF at r])
  show thesis
  proof (cases "has_sep src \<and> path_sep src \<noteq> 0 \<and> \<not> is_empty (path_rest src)")
    case True
    then show thesis
      using s1 by (intro that [of s1]) (auto simp: rename_source_def rename_src_def split: option.split)
  next
    case False
    then show thesis
      using reread_refl [OF at] by (intro that [of s]) (auto simp: rename_source_def rename_src_def)
  qed
qed

lemma rename_target_at:
  assumes at: "fs_at K sec tab B s" and r: "is_dir tab 0"
  obtains s' where "rename_target io n dst s = (rename_dst tab B n dst, s')" "reread K sec tab B s s'"
proof -
  obtain s1 where s1: "rename_dir io (path_dir dst) s = (entry_of tab B INODE_DIR 0 (path_dir dst), s1)" "reread K sec tab B s s1"
    by (rule rename_dir_at [OF at r])
  obtain s2 where s2: "load_dir_block io 0 s = (True, B 0, s2)" "reread K sec tab B s s2" by (rule load_ok [OF at r])
  consider "has_sep dst" "path_sep dst = 0" | "has_sep dst" "path_sep dst \<noteq> 0" | "\<not> has_sep dst" by blast
  then show thesis
  proof cases
    case 1
    then show thesis using reread_refl [OF at] by (intro that [of s]) (auto simp: rename_target_def rename_dst_def)
  next
    case 2
    then show thesis
      using s1 by (intro that [of s1]) (auto simp: rename_target_def rename_dst_def split: option.split)
  next
    case 3
    then show thesis
      using s2 rereadD(4) [OF s2(2)]
      by (intro that [of s2]) (auto simp: rename_target_def rename_dst_def entry_of_def split: option.split)
  qed
qed

end

text \<open>
  What the call does: nothing where there is nothing to move or it is where it should be; otherwise it
  moves the entry if the new name is good and free and the target has a slot.
\<close>

definition rename_outcome where
  "rename_outcome K sec tab B src dst ok s' \<longleftrightarrow>
     (case rename_what tab B src of None \<Rightarrow> \<not> ok \<and> tree_at K sec tab B s' | Some (sd, sn, ty, i) \<Rightarrow>
      case rename_dst tab B sn dst of None \<Rightarrow> \<not> ok \<and> tree_at K sec tab B s' | Some (dd, dn, into) \<Rightarrow>
      if into \<and> ty = INODE_DIR \<and> dd = i \<or> dd = sd \<and> cstr dn = cstr sn then ok \<and> tree_at K sec tab B s'
      else (ok \<longleftrightarrow> name_ok dn \<and> entry_of tab B ty dd dn = None \<and> (dd = sd \<or> has_slot B dd)) \<and>
        (if ok then \<exists>B'. tree_at K sec tab B' s' \<and> moved ty sd sn dd dn i tab B tab B' else tree_at K sec tab B s'))"

context reliable_fs
begin

lemma rename_src_dir:
  assumes "fs_at K sec tab B s" "tree_ok tab B" "is_dir tab 0" "rename_src tab B src = Some (d, n)" "\<not> is_empty src"
  shows "is_dir tab d" "\<not> is_empty n"
  using assms child_dir [OF assms(1-3)] by (auto simp: rename_src_def split: if_splits)

lemma rename_dst_dir:
  assumes "fs_at K sec tab B s" "tree_ok tab B" "is_dir tab 0" "rename_dst tab B n dst = Some (d, n', into)"
  shows "is_dir tab d" "into \<Longrightarrow> n' = n"
  using assms child_dir [OF assms(1-3)] by (auto simp: rename_dst_def split: if_splits option.splits)

lemma move_entry_at:
  assumes a: "tree_at K sec tab B s0" and at: "fs_at K sec tab B s" and d: "is_dir tab sd" "is_dir tab dd"
    and e: "ent tab B (sd, e) = Some (cstr sn, i)" "itype (tab ! i) = ty" "ty \<noteq> 0" and n: "str_len dn < 30"
    and new: "entry_of tab B ty dd dn = None"
    and Q: "\<And>s'. tree_at K sec tab B s' \<Longrightarrow> dd \<noteq> sd \<Longrightarrow> \<not> has_slot B dd \<Longrightarrow> synced sec s' = synced sec s \<Longrightarrow> Q False s'"
      "\<And>s' B'. tree_at K sec tab B' s' \<Longrightarrow> moved ty sd sn dd dn i tab B tab B' \<Longrightarrow> dd = sd \<or> has_slot B dd \<Longrightarrow>
         synced sec s' = synced sec s \<Longrightarrow> Q True s'"
  shows "post Q (if dd = sd then write_dir_block io sd (de_rename (B sd) e dn) s
     else case find_free_slot (B dd) of None \<Rightarrow> (False, s) | Some slot \<Rightarrow>
       case write_dir_block io sd (de_clear (B sd) e) s of (ok, s) \<Rightarrow> if \<not> ok then (False, s) else
       case write_dir_block io dd (de_put (B dd) slot i dn) s of (ok, s) \<Rightarrow> if \<not> ok then (False, s) else (True, s))"
proof -
  have t: "tree_ok tab B" and r: "is_dir tab 0" using a by (auto simp: tree_at_def)
  have l: "length (B j) = 512" for j using t by (simp add: tree_ok_def blocks_ok_def)
  show ?thesis
  proof (cases "dd = sd")
    case True
    note M = move_within [OF t d(1) e n new [unfolded True]]
    obtain s1 where s1: "write_dir_block io sd (de_rename (B sd) e dn) s = (True, s1)"
      "fs_at K sec tab (B(sd := de_rename (B sd) e dn)) s1" "synced sec s1 = synced sec s"
      by (rule write_dir_ok [OF at d(1), of "de_rename (B sd) e dn"]) (simp_all add: l)
    then show ?thesis
      using M r Q(2) [of "B(sd := de_rename (B sd) e dn)" s1] True by (simp add: post_def tree_at_def)
  next
    case False
    show ?thesis
    proof (cases "find_free_slot (B dd)")
      case None
      then have "\<not> has_slot B dd" using find_free_slot_iff [of "B dd"] by (simp add: has_slot_def)
      then show ?thesis using None False Q(1) [of s] at t r by (simp add: post_def tree_at_def)
    next
      case (Some slot)
      note sl = find_free_slotD [OF Some]
      note M = move_across [OF t d(1,2) False e(1) conjunct1 [OF sl] conjunct2 [OF sl] e(2,3) n new]
      obtain s1 where s1: "write_dir_block io sd (de_clear (B sd) e) s = (True, s1)"
        "fs_at K sec tab (B(sd := de_clear (B sd) e)) s1" "synced sec s1 = synced sec s"
        by (rule write_dir_ok [OF at d(1), of "de_clear (B sd) e"]) (simp_all add: l)
      obtain s2 where s2: "write_dir_block io dd (de_put (B dd) slot i dn) s1 = (True, s2)"
        "fs_at K sec tab (B(sd := de_clear (B sd) e, dd := de_put (B dd) slot i dn)) s2" "synced sec s2 = synced sec s1"
        by (rule write_dir_ok [OF s1(2) d(2), of "de_put (B dd) slot i dn"]) (simp_all add: l)
      have "has_slot B dd" using sl by (auto simp: has_slot_def)
      then show ?thesis
        using Some False s1 s2 M r Q(2) [of "B(sd := de_clear (B sd) e, dd := de_put (B dd) slot i dn)" s2]
        by (simp add: post_def tree_at_def)
    qed
  qed
qed

lemma fs_rename_step:
  assumes a: "tree_at K sec tab B s" and m: "g_mounted s" "\<not> is_empty src" "\<not> is_empty dst"
  shows "post (\<lambda>ok s'. rename_outcome K sec tab B src dst ok s' \<and> synced sec s' = synced sec s)
    (fs_rename io (Some src) (Some dst) s)" (is "post ?Q _")
proof -
  have at: "fs_at K sec tab B s" and t: "tree_ok tab B" and r: "is_dir tab 0" using a by (auto simp: tree_at_def)
  have tree: "tree_at K sec tab B s'" if "reread K sec tab B s s'" for s'
    using rereadD(1) [OF that] t r by (simp add: tree_at_def)
  note syn = reread_synced [OF _ at]
  obtain s1 where s1: "rename_source io src s = (rename_src tab B src, s1)" "reread K sec tab B s s1"
    by (rule rename_source_at [OF at r])
  note R1 = rereadD [OF s1(2)]
  show ?thesis
  proof (cases "rename_src tab B src")
    case None
    then show ?thesis
      using m tree [OF s1(2)] syn [OF s1(2)]
      by (simp add: fs_rename_def s1 post_def rename_outcome_def rename_what_def)
  next
    case (Some x)
    obtain sd sn where x: "x = (sd, sn)" by (cases x)
    note sd = rename_src_dir [OF at t r Some [unfolded x] m(2)]
    obtain s2 where s2: "load_dir_block io sd s1 = (True, B sd, s2)" "reread K sec tab B s1 s2"
      by (rule load_ok [OF R1(1) sd(1)])
    note R2 = rereadD [OF s2(2)]
    have r2: "reread K sec tab B s s2" by (rule reread_trans [OF s1(2) s2(2)])
    note F = found_entry [OF t sd(1)]
    show ?thesis
    proof (cases "rename_entry sn (B sd) tab")
      case None
      then have "rename_what tab B src = None"
        by (simp add: rename_what_def Some x rename_entry_def entry_of_def split: option.splits)
      then show ?thesis
        using m None tree [OF r2] syn [OF r2] tree [OF s1(2)] syn [OF s1(2)]
        by (simp add: fs_rename_def s1 Some x s2 R2 post_def rename_outcome_def)
    next
      case (Some et)
      obtain e ty where et: "et = (e, ty)" by (cases et)
      have e: "find_dir_entry sn (B sd) tab ty = Some e" "ty \<noteq> 0"
        and w: "rename_what tab B src = Some (sd, sn, ty, de_inode (B sd) e)"
        using Some \<open>rename_src tab B src = Some x\<close>
        by (auto simp: et x rename_entry_def rename_what_def entry_of_def split: option.splits)
      note F = F [OF e]
      let ?i = "de_inode (B sd) e"
      have i: "\<not> FS_MAX_INODES \<le> ?i" using find_dir_entry_range [OF e(1)] by simp
      obtain s3 where s3: "rename_target io sn dst s2 = (rename_dst tab B sn dst, s3)" "reread K sec tab B s2 s3"
        by (rule rename_target_at [OF R2(1) r])
      note R3 = rereadD [OF s3(2)]
      have r3: "reread K sec tab B s s3" by (rule reread_trans [OF r2 s3(2)])
      show ?thesis
      proof (cases "rename_dst tab B sn dst")
        case None
        then show ?thesis
          using m F(4) i tree [OF r3] syn [OF r3] \<open>rename_src tab B src = Some x\<close>
          by (simp add: fs_rename_def s1 x s2 R2 Some et s3 post_def rename_outcome_def w Let_def)
      next
        case tgt: (Some y)
        obtain dd dn into where y: "y = (dd, dn, into)" by (cases y)
        note dd = rename_dst_dir [OF at t r tgt [unfolded y]]
        obtain s4 where s4: "load_dir_block io dd s3 = (True, B dd, s4)" "reread K sec tab B s3 s4"
          by (rule load_ok [OF R3(1) dd(1)])
        note R4 = rereadD [OF s4(2)]
        have s4': "dd = sd \<Longrightarrow> load_dir_block io sd s3 = (True, B sd, s4)" using s4(1) by simp
        have r4: "reread K sec tab B s s4" by (rule reread_trans [OF r3 s4(2)])
        have eq: "fs_rename io (Some src) (Some dst) s = (if \<not> name_ok dn then (False, s3)
          else if into \<and> ty = INODE_DIR \<and> dd = ?i then (True, s3)
          else if dd = sd \<and> cstr dn = cstr sn then (True, s4)
          else if find_dir_entry dn (B dd) tab ty \<noteq> None then (False, s4)
          else if dd = sd then write_dir_block io sd (de_rename (B sd) e dn) s4
          else case find_free_slot (B dd) of None \<Rightarrow> (False, s4) | Some slot \<Rightarrow>
            case write_dir_block io sd (de_clear (B sd) e) s4 of (ok, s) \<Rightarrow> if \<not> ok then (False, s) else
            case write_dir_block io dd (de_put (B dd) slot ?i dn) s of (ok, s) \<Rightarrow> if \<not> ok then (False, s) else (True, s))"
          unfolding fs_rename_def Let_def
          using m F(4) i \<open>rename_src tab B src = Some x\<close>
          by (simp add: s1 x s2 R2 Some et s3 tgt y s4 s4' R4 str_equals_cstr name_ok_def)
        have nm: "name_ok sn" using sd(2) F(4) by (simp add: name_ok_def)
        have nm': "name_ok dn" if "into \<or> cstr dn = cstr sn"
          using nm dd(2) that by (auto simp: name_ok_def is_empty_len str_len_cstr)
        let ?no = "into \<and> ty = INODE_DIR \<and> dd = ?i \<or> dd = sd \<and> cstr dn = cstr sn"
        have Q: "rename_outcome K sec tab B src dst ok s' \<longleftrightarrow> (if ?no then ok \<and> tree_at K sec tab B s'
            else (ok \<longleftrightarrow> name_ok dn \<and> entry_of tab B ty dd dn = None \<and> (dd = sd \<or> has_slot B dd)) \<and>
            (if ok then \<exists>B'. tree_at K sec tab B' s' \<and> moved ty sd sn dd dn ?i tab B tab B' else tree_at K sec tab B s'))"
          for ok s'
          by (simp add: rename_outcome_def w tgt y)
        note same = tree [OF r3] syn [OF r3] tree [OF r4] syn [OF r4]
        have ent: "find_dir_entry dn (B dd) tab ty = None \<longleftrightarrow> entry_of tab B ty dd dn = None" by (simp add: entry_of_def)
        show ?thesis
          unfolding eq
        proof (rule post_if [OF _ post_if [OF _ post_if [OF _ post_if]]], goal_cases)
          case 5
          then have new: "entry_of tab B ty dd dn = None" and dn: "str_len dn < 30" "name_ok dn"
            and no: "?no \<longleftrightarrow> False"
            by (auto simp: ent name_ok_def)
          show ?case
            by (rule move_entry_at [OF a R4(1) sd(1) dd(1) F(1,2) e(2) dn(1) new])
              (unfold Q no if_False, use dn new same in auto)
        qed (use nm' same in \<open>auto simp: post_def Q ent\<close>)
      qed
    qed
  qed
qed

end

section \<open>The properties\<close>

text \<open>One entry has moved, its file or directory with it.\<close>

definition entry_moved :: "('d \<Rightarrow> nat \<Rightarrow> u8 list) \<Rightarrow> u8 \<Rightarrow> nat \<Rightarrow> u8 list \<Rightarrow> nat \<Rightarrow> u8 list \<Rightarrow> nat \<Rightarrow> 'd fs \<Rightarrow> 'd fs \<Rightarrow> bool" where
  "entry_moved sec ty sd sn dd dn i s s' \<longleftrightarrow> g_inodes s' = g_inodes s \<and>
     (\<forall>d n. is_dir (g_inodes s) d \<longrightarrow>
        file_at sec s' d n =
          (if ty = INODE_FILE \<and> d = dd \<and> cstr n = cstr dn then file_at sec s sd sn
           else if ty = INODE_FILE \<and> d = sd \<and> cstr n = cstr sn then None else file_at sec s d n) \<and>
        subdir_at sec s' d n =
          (if ty = INODE_DIR \<and> d = dd \<and> cstr n = cstr dn then Some i
           else if ty = INODE_DIR \<and> d = sd \<and> cstr n = cstr sn then None else subdir_at sec s d n))"

lemma rename_what_entry:
  "rename_what tab B src = Some (sd, sn, ty, i) \<Longrightarrow>
    rename_src tab B src = Some (sd, sn) \<and> (ty = INODE_FILE \<or> ty = INODE_DIR) \<and> entry_of tab B ty sd sn = Some i"
  by (auto simp: rename_what_def split: option.splits)

lemma moved_effect:
  assumes m: "moved ty sd sn dd dn i (g_inodes s) (blks sec s) (g_inodes s') (blks sec s')"
    and t: "tree_ok (g_inodes s') (blks sec s')" and w: "rename_what (g_inodes s) (blks sec s) src = Some (sd, sn, ty, i)"
  shows "entry_moved sec ty sd sn dd dn i s s'"
proof -
  let ?tab = "g_inodes s" and ?B = "blks sec s" and ?B' = "blks sec s'"
  note W = rename_what_entry [OF w]
  have tab: "g_inodes s' = ?tab" and B': "\<And>j. \<not> is_dir ?tab j \<Longrightarrow> ?B' j = ?B j"
    and E: "\<And>d ty' n. is_dir ?tab d \<Longrightarrow> ty' \<noteq> 0 \<Longrightarrow> entry_of ?tab ?B' ty' d n =
        (if ty' = ty \<and> d = dd \<and> cstr n = cstr dn then Some i
         else if ty' = ty \<and> d = sd \<and> cstr n = cstr sn then None else entry_of ?tab ?B ty' d n)"
    using m by (auto simp: moved_def)
  have "file_view ?tab ?B' d n = (if ty = INODE_FILE \<and> d = dd \<and> cstr n = cstr dn then file_view ?tab ?B sd sn
      else if ty = INODE_FILE \<and> d = sd \<and> cstr n = cstr sn then None else file_view ?tab ?B d n)" if d: "is_dir ?tab d" for d n
  proof -
    have eq: "mem_get (?B' k) (unat (isize (?tab ! k))) = mem_get (?B k) (unat (isize (?tab ! k)))"
      if "entry_of ?tab ?B' INODE_FILE d n = Some k" for k
      using entry_of_live(4) [OF t [unfolded tab] d _ that] B' [of k] by (simp add: is_dir_def)
    then show ?thesis
      using E [OF d, of INODE_FILE n] W by (auto simp: file_view_def option.map_ident split: if_splits intro!: map_option_cong)
  qed
  then show ?thesis using tab E by (simp add: entry_moved_def file_at_def subdir_at_def)
qed

text \<open>C9: \<^verbatim>\<open>fs_rename\<close> moves one entry, with the file or directory it names: the first path names a file, or
  else a directory, of the root or of a directory of the root; it goes into the directory that the second
  path names, under its own name, or under a new name where that path does not exist. Nothing moves and the
  result is true if the entry would be where it is, or a directory is moved into itself by its name;
  otherwise the result is true exactly if the new name has 1 to 29 characters, is not taken by an entry of
  the same type, and the target directory is the same or has a free slot. If it is false nothing has
  changed. The tables on disk stay valid.
\<close>

theorem fs_rename_spec:
  assumes "reliable_disk io sec ready" and "fs_consistent ready sec s"
    and "g_mounted s" and "\<not> is_empty src" and "\<not> is_empty dst"
    and "fs_rename io (Some src) (Some dst) s = (ok, s')"
  shows "fs_consistent ready sec s' \<and> fs_head s' = fs_head s \<and> synced sec s' = synced sec s \<and>
    (case rename_what (g_inodes s) (blks sec s) src of None \<Rightarrow> \<not> ok \<and> tree_same sec s s' | Some (sd, sn, ty, i) \<Rightarrow>
     case rename_dst (g_inodes s) (blks sec s) sn dst of None \<Rightarrow> \<not> ok \<and> tree_same sec s s' | Some (dd, dn, into) \<Rightarrow>
     if into \<and> ty = INODE_DIR \<and> dd = i \<or> dd = sd \<and> cstr dn = cstr sn then ok \<and> tree_same sec s s'
     else (ok \<longleftrightarrow> name_ok dn \<and> entry_of (g_inodes s) (blks sec s) ty dd dn = None \<and> (dd = sd \<or> has_slot (blks sec s) dd)) \<and>
       (if ok then entry_moved sec ty sd sn dd dn i s s' else tree_same sec s s'))"
proof -
  note C = reliable_fs.fs_rename_step [OF reliable_fsI(1) [OF assms(1)] consistentD [OF assms(2)] assms(3-5)]
  then have C: "rename_outcome (at_head ready (fs_head s)) sec (g_inodes s) (blks sec s) src dst ok s'"
    "synced sec s' = synced sec s"
    by (simp_all add: assms(6) post_def)
  have T: "fs_consistent ready sec s' \<and> fs_head s' = fs_head s \<and> tree_same sec s s'"
    if "tree_at (at_head ready (fs_head s)) sec (g_inodes s) (blks sec s) s'"
    using consistentI [OF that] by (simp add: tree_same_def)
  have M: "fs_consistent ready sec s' \<and> fs_head s' = fs_head s \<and> entry_moved sec ty sd sn dd dn i s s'"
    if "tree_at (at_head ready (fs_head s)) sec (g_inodes s) B' s'" "moved ty sd sn dd dn i (g_inodes s) (blks sec s) (g_inodes s) B'"
      "rename_what (g_inodes s) (blks sec s) src = Some (sd, sn, ty, i)" for ty sd sn dd dn i B'
    using consistentI [OF that(1)] that moved_effect [of ty sd sn dd dn i s sec s' src] by (simp add: tree_at_def)
  show ?thesis
  proof (cases "rename_what (g_inodes s) (blks sec s) src")
    case None
    then show ?thesis using C T by (simp add: rename_outcome_def)
  next
    case w: (Some x)
    obtain sd sn ty i where x: "x = (sd, sn, ty, i)" by (metis surj_pair)
    show ?thesis
    proof (cases "rename_dst (g_inodes s) (blks sec s) sn dst")
      case None
      then show ?thesis using C T w x by (simp add: rename_outcome_def)
    next
      case (Some y)
      obtain dd dn into where y: "y = (dd, dn, into)" by (metis surj_pair)
      note O = C(1) [unfolded rename_outcome_def w x Some y option.case prod.case]
      show ?thesis
      proof (cases "into \<and> ty = INODE_DIR \<and> dd = i \<or> dd = sd \<and> cstr dn = cstr sn")
        case True
        then show ?thesis using T O C(2) unfolding w x Some y option.case prod.case by argo
      next
        case False
        note O = O [unfolded if_not_P [OF False]]
        show ?thesis
        proof (cases ok)
          case True
          then obtain B' where "tree_at (at_head ready (fs_head s)) sec (g_inodes s) B' s'"
            "moved ty sd sn dd dn i (g_inodes s) (blks sec s) (g_inodes s) B'"
            using O by auto
          from M [OF this w [unfolded x]] show ?thesis
            using O C(2) True unfolding w x Some y option.case prod.case if_not_P [OF False] by argo
        next
          case notok: False
          then show ?thesis
            using T O C(2) unfolding w x Some y option.case prod.case if_not_P [OF False] by argo
        qed
      qed
    qed
  qed
qed

theorem fs_rename_spec_witness:
  "\<exists>s'. fs_rename ram_ops (Some [102]) (Some [100]) demo_fs = (True, s') \<and>
     file_at ram_sec s' 1 [102] = Some [104, 105] \<and> file_at ram_sec s' 0 [102] = None"
proof -
  obtain ok s' where r: "fs_rename ram_ops (Some [102]) (Some [100]) demo_fs = (ok, s')" by (metis surj_pair)
  have p: "\<not> has_sep [102]" "\<not> has_sep [100]" "\<not> is_empty [102]" "\<not> is_empty [100]" by code_simp+
  note W = fs_rename_spec [OF ram.reliable_disk_axioms demo_consistent demo_fs_simps(3) p(3,4) r]
  obtain i where e: "entry_of demo_tab demo_blk INODE_FILE 0 [102] = Some i"
    using demo_tree(5) by (auto simp: file_view_def)
  have n: "entry_of demo_tab demo_blk INODE_FILE (Suc 0) [102] = None"
    using demo_sub(2) file_view_None by blast
  have "ok \<and> entry_moved ram_sec INODE_FILE 0 [102] 1 [102] i demo_fs s'"
    using W demo_room(3)
    by (simp add: demo_fs_simps demo_blks rename_what_def rename_src_def rename_dst_def p e n demo_tree name_ok_def)
  then show ?thesis using r by (auto simp: entry_moved_def demo_fs_simps demo_tree demo_at demo_sub)
qed

text \<open>C23: \<^verbatim>\<open>fs_rename\<close> checks that a directory is not moved into itself only where the second path is its bare
  name. Renaming \<^verbatim>\<open>d\<close> to \<^verbatim>\<open>d/x\<close> succeeds whenever \<^verbatim>\<open>d\<close> has a free slot: the directory is then its own only
  parent, and it and all it holds are out of reach of any path, their inodes and blocks lost.
\<close>

theorem fs_rename_into_itself:
  assumes "reliable_disk io sec ready" and "fs_consistent ready sec s" and "g_mounted s"
    and "\<not> is_empty src" and "\<not> has_sep src" and "has_sep dst" and "\<not> is_empty dst" and "path_sep dst \<noteq> 0"
    and "subdir_at sec s 0 src = Some d" and "file_at sec s 0 src = None"
    and "subdir_at sec s 0 (path_dir dst) = Some d" and "subdir_at sec s d (path_rest dst) = None"
    and "name_ok (path_rest dst)" and "has_slot (blks sec s) d"
    and "fs_rename io (Some src) (Some dst) s = (ok, s')"
  shows "ok \<and> fs_consistent ready sec s' \<and> subdir_at sec s' 0 src = None \<and> is_dir (g_inodes s') d \<and>
    (\<forall>p n. is_dir (g_inodes s') p \<longrightarrow> (subdir_at sec s' p n = Some d \<longleftrightarrow> p = d \<and> cstr n = cstr (path_rest dst)))"
proof -
  let ?tab = "g_inodes s" and ?B = "blks sec s"
  have t: "tree_ok ?tab ?B" and r: "is_dir ?tab 0" and at: "fs_at (\<lambda>_. ready) sec ?tab ?B s"
    using assms(2) by (auto simp: fs_consistent_def tree_at_def)
  have e: "entry_of ?tab ?B INODE_DIR 0 src = Some d" "entry_of ?tab ?B INODE_FILE 0 src = None"
    "entry_of ?tab ?B INODE_DIR 0 (path_dir dst) = Some d" "entry_of ?tab ?B INODE_DIR d (path_rest dst) = None"
    using assms(9-12) by (simp_all add: subdir_at_def file_at_def file_view_None)
  have d: "is_dir ?tab d" "0 < d"
    using reliable_fs.child_dir [OF reliable_fsI(1) [OF assms(1)] _ t r e(1), of "fs_head s" s] consistentD [OF assms(2)]
      entry_of_live(1) [OF t r _ e(1)] by (auto simp: tree_at_def)
  have w: "rename_what ?tab ?B src = Some (0, src, INODE_DIR, d)"
    "rename_dst ?tab ?B src dst = Some (d, path_rest dst, False)"
    using assms(5,6,8,13) e by (simp_all add: rename_what_def rename_src_def rename_dst_def name_ok_def)
  have R: "ok \<and> fs_consistent ready sec s' \<and> entry_moved sec INODE_DIR 0 src d (path_rest dst) d s s'"
    using fs_rename_spec [OF assms(1-4,7,15)] d(2) assms(13,14) e(4) by (simp add: w)
  have o: "p = 0 \<and> cstr n = cstr src" if p: "is_dir ?tab p" "subdir_at sec s p n = Some d" for p n
  proof -
    have lk: "links_ok ?tab (ent ?tab ?B)" using t by (simp add: tree_ok_def)
    obtain e1 e2 where "ent ?tab ?B (0, e1) = Some (cstr src, d)" "ent ?tab ?B (p, e2) = Some (cstr n, d)"
      using entry_of_iff [OF lk r, of INODE_DIR src d] e(1) entry_of_iff [OF lk p(1), of INODE_DIR n d] p(2)
      by (auto simp: subdir_at_def)
    then show ?thesis using links_okD(4) [OF lk] by fastforce
  qed
  then show ?thesis using R d r by (auto simp: entry_moved_def)
qed

theorem fs_rename_into_itself_witness:
  "\<exists>s'. fs_rename ram_ops (Some [100]) (Some [100, 47, 120]) demo_fs = (True, s') \<and>
     subdir_at ram_sec s' 0 [100] = None \<and> subdir_at ram_sec s' 1 [120] = Some 1"
proof -
  obtain ok s' where r: "fs_rename ram_ops (Some [100]) (Some [100, 47, 120]) demo_fs = (ok, s')" by (metis surj_pair)
  have p: "\<not> is_empty [100]" "\<not> has_sep [100]" "has_sep [100, 47, 120]" "\<not> is_empty [100, 47, 120]" "path_sep [100, 47, 120] \<noteq> 0"
    "path_dir [100, 47, 120] = [100]" "path_rest [100, 47, 120] = [120]" "name_ok [120]" by code_simp+
  have e: "subdir_at ram_sec demo_fs 0 [100] = Some 1" "file_at ram_sec demo_fs 0 [100] = None" "subdir_at ram_sec demo_fs 1 [120] = None"
    by (simp_all add: demo_at demo_tree demo_tree(9-11) [unfolded One_nat_def])
  show ?thesis
    using fs_rename_into_itself [OF ram.reliable_disk_axioms demo_consistent demo_fs_simps(3) p(1-5) e(1,2) _ _ _ demo_room(3) r] p e r
    by (auto simp: demo_fs_simps demo_tree)
qed

end
