(* ===== verification/FsRecursive.thy ===== *)
theory FsRecursive
  imports FsCopy
begin

text \<open>
  Recursive removal, \<^verbatim>\<open>fs_remove_path_recursive\<close>: the subtree below an entry, that the recursion ends
  within the depth \<open>64\<close> although a disk may hold directories that contain themselves, and that the call
  removes the subtree and nothing else.
\<close>

section \<open>The subtree below an inode\<close>

definition child :: "inode list \<Rightarrow> (nat \<Rightarrow> u8 list) \<Rightarrow> (nat \<times> nat) set" where
  "child tab B = {(d, i). \<exists>e n. ent tab B (d, e) = Some (n, i)}"

definition below :: "inode list \<Rightarrow> (nat \<Rightarrow> u8 list) \<Rightarrow> nat \<Rightarrow> nat set" where
  "below tab B d = (child tab B)\<^sup>+ `` {d}"

definition subtree :: "inode list \<Rightarrow> (nat \<Rightarrow> u8 list) \<Rightarrow> nat \<Rightarrow> nat set" where
  "subtree tab B d = insert d (below tab B d)"

lemma childI: "ent tab B (d, e) = Some (n, i) \<Longrightarrow> (d, i) \<in> child tab B"
  by (auto simp: child_def)

lemma belowI: "(d, i) \<in> child tab B \<Longrightarrow> j \<in> subtree tab B i \<Longrightarrow> j \<in> below tab B d"
  by (auto simp: subtree_def below_def intro: trancl_trans)

lemma below_cases:
  assumes "j \<in> below tab B d"
  obtains i where "(d, i) \<in> child tab B" "j \<in> subtree tab B i"
  using assms tranclD [of d j "child tab B"] by (auto simp: below_def subtree_def rtrancl_eq_or_trancl)

lemma below_parent:
  assumes "j \<in> below tab B d"
  obtains p where "(p, j) \<in> child tab B" "p \<in> subtree tab B d"
  using assms tranclD2 [of d j "child tab B"] by (auto simp: below_def subtree_def rtrancl_eq_or_trancl)

lemma subtree_child: "p \<in> subtree tab B d \<Longrightarrow> (p, i) \<in> child tab B \<Longrightarrow> i \<in> below tab B d"
  by (auto simp: subtree_def below_def intro: trancl_into_trancl)

lemma below_file: "\<not> is_dir tab i \<Longrightarrow> below tab B i = {}"
  by (auto simp: child_def ent_Some slot_used_def elim!: below_cases)

lemma child_range:
  assumes "links_ok tab (ent tab B)" "(d, i) \<in> child tab B"
  shows "0 < i" "i < 64" "used (tab ! i) \<noteq> 0" "is_dir tab d"
  using assms(2) links_okD(1-3) [OF assms(1)] by (auto simp: child_def ent_Some slot_used_def)

lemma below_range: "links_ok tab (ent tab B) \<Longrightarrow> below tab B d \<subseteq> {0<..<64}"
  by (auto elim!: below_parent dest: child_range(1,2))

lemma below_finite: "links_ok tab (ent tab B) \<Longrightarrow> finite (below tab B d)"
  by (rule finite_subset [OF below_range]) simp_all

lemma below_small: "links_ok tab (ent tab B) \<Longrightarrow> card (below tab B d) < 64"
  using card_mono [OF _ below_range [of tab B d]] by simp

lemma one_parent: "links_ok tab (ent tab B) \<Longrightarrow> (p, i) \<in> child tab B \<Longrightarrow> (q, i) \<in> child tab B \<Longrightarrow> p = q"
  using links_okD(4) by (fastforce simp: child_def)

text \<open>Where a directory does not contain itself, nor does what it contains, and its parts are disjoint.\<close>

lemma child_acyclic:
  assumes lk: "links_ok tab (ent tab B)" and d: "d \<notin> below tab B d" and c: "(d, c) \<in> child tab B"
  shows "c \<notin> below tab B c" "d \<notin> subtree tab B c"
proof -
  show "c \<notin> below tab B c"
  proof
    assume "c \<in> below tab B c"
    then obtain p where "(p, c) \<in> child tab B" "p \<in> subtree tab B c" by (rule below_parent)
    then have "d \<in> subtree tab B c" using one_parent [OF lk c] by auto
    with d belowI [OF c] show False by auto
  qed
  show "d \<notin> subtree tab B c" using d belowI [OF c] by auto
qed

lemma siblings_disjoint:
  assumes lk: "links_ok tab (ent tab B)" and d: "d \<notin> below tab B d"
    and c: "(d, c1) \<in> child tab B" "(d, c2) \<in> child tab B" "c1 \<noteq> c2"
  shows "subtree tab B c1 \<inter> subtree tab B c2 = {}"
proof -
  let ?R = "child tab B"
  have no: "(c, c') \<notin> ?R\<^sup>+" if "(d, c) \<in> ?R" "(d, c') \<in> ?R" for c c'
  proof
    assume "(c, c') \<in> ?R\<^sup>+"
    then obtain p where p: "(p, c') \<in> ?R" "p \<in> subtree tab B c"
      using below_parent [of c' tab B c] by (auto simp: below_def)
    then have "p = d" using one_parent [OF lk that(2)] by simp
    then show False using p child_acyclic(2) [OF lk d that(1)] by simp
  qed
  have sv: "single_valued (?R\<inverse>)" using one_parent [OF lk] by (auto simp: single_valued_def)
  have False if "x \<in> subtree tab B c1" "x \<in> subtree tab B c2" for x
  proof -
    have "(x, c1) \<in> (?R\<inverse>)\<^sup>*" "(x, c2) \<in> (?R\<inverse>)\<^sup>*"
      using that by (auto simp: subtree_def below_def rtrancl_converse intro: trancl_into_rtrancl)
    then have "(c1, c2) \<in> (?R\<inverse>)\<^sup>* \<or> (c2, c1) \<in> (?R\<inverse>)\<^sup>*" by (rule single_valued_confluent [OF sv])
    then have "(c2, c1) \<in> ?R\<^sup>* \<or> (c1, c2) \<in> ?R\<^sup>*" by (simp add: rtrancl_converse)
    then show False using no c by (auto simp: rtrancl_eq_or_trancl)
  qed
  then show ?thesis by blast
qed

lemma child_smaller:
  assumes "links_ok tab (ent tab B)" "d \<notin> below tab B d" "(d, c) \<in> child tab B"
  shows "card (below tab B c) < card (below tab B d)"
proof (rule psubset_card_mono [OF below_finite [OF assms(1)]])
  show "below tab B c \<subset> below tab B d"
    using child_acyclic(1) [OF assms] belowI [OF assms(3)] by (auto simp: subtree_def)
qed

section \<open>What the recursion does\<close>

text \<open>The inodes of \<open>S\<close> are dropped; blocks of inodes in \<open>W\<close> may have changed.\<close>

definition dropped :: "nat set \<Rightarrow> nat set \<Rightarrow> inode list \<Rightarrow> (nat \<Rightarrow> u8 list) \<Rightarrow> inode list \<Rightarrow> (nat \<Rightarrow> u8 list) \<Rightarrow> bool" where
  "dropped S W tab B tab' B' \<longleftrightarrow>
     (\<forall>j < 64. tab' ! j = (if j \<in> S then zero_inode else tab ! j)) \<and> (\<forall>j. j \<notin> W \<longrightarrow> B' j = B j)"

text \<open>On \<open>S\<close> the tree is as it was.\<close>

definition agrees :: "nat set \<Rightarrow> inode list \<Rightarrow> (nat \<Rightarrow> u8 list) \<Rightarrow> inode list \<Rightarrow> (nat \<Rightarrow> u8 list) \<Rightarrow> bool" where
  "agrees S tab B tab' B' \<longleftrightarrow> (\<forall>j \<in> S. j < 64 \<longrightarrow> tab' ! j = tab ! j \<and> B' j = B j)"

lemma dropped_trans:
  "dropped S W tab B tab1 B1 \<Longrightarrow> dropped S' W' tab1 B1 tab2 B2 \<Longrightarrow> dropped (S \<union> S') (W \<union> W') tab B tab2 B2"
  by (auto simp: dropped_def)

lemma dropped_agrees:
  "dropped S W tab1 B1 tab2 B2 \<Longrightarrow> agrees T tab B tab1 B1 \<Longrightarrow> T \<inter> S = {} \<Longrightarrow> T \<inter> W = {} \<Longrightarrow> agrees T tab B tab2 B2"
  by (auto simp: dropped_def agrees_def)

lemma agrees_mono: "agrees S tab B tab1 B1 \<Longrightarrow> T \<subseteq> S \<Longrightarrow> agrees T tab B tab1 B1"
  by (auto simp: agrees_def)

text \<open>The subtrees of some entries of a directory.\<close>

definition under :: "inode list \<Rightarrow> (nat \<Rightarrow> u8 list) \<Rightarrow> nat \<Rightarrow> nat set \<Rightarrow> nat set" where
  "under tab B d E = (\<Union>e \<in> E. case ent tab B (d, e) of None \<Rightarrow> {} | Some (n, c) \<Rightarrow> subtree tab B c)"

lemma under_all: "under tab B d {..<16} = below tab B d"
proof
  show "under tab B d {..<16} \<subseteq> below tab B d"
    by (auto simp: under_def split: option.splits intro: belowI [OF childI])
  show "below tab B d \<subseteq> under tab B d {..<16}"
  proof
    fix j assume "j \<in> below tab B d"
    then obtain i where i: "(d, i) \<in> child tab B" "j \<in> subtree tab B i" by (rule below_cases)
    then obtain e n where "ent tab B (d, e) = Some (n, i)" by (auto simp: child_def)
    then have "e < 16" "ent tab B (d, e) = Some (n, i)" by (simp_all add: ent_Some slot_used_def)
    then show "j \<in> under tab B d {..<16}"
      using i(2) unfolding under_def by (intro UN_I [of e]) simp_all
  qed
qed

lemma under_insert: "under tab B d (insert e E) =
    (case ent tab B (d, e) of None \<Rightarrow> {} | Some (n, c) \<Rightarrow> subtree tab B c) \<union> under tab B d E"
  by (simp add: under_def)

lemma under_disjoint:
  assumes lk: "links_ok tab (ent tab B)" and d: "d \<notin> below tab B d"
    and e: "ent tab B (d, e) = Some (n, c)" "e \<notin> E"
  shows "under tab B d E \<inter> subtree tab B c = {}"
proof -
  have "subtree tab B c' \<inter> subtree tab B c = {}" if "ent tab B (d, e') = Some (n', c')" "e' \<in> E" for e' n' c'
  proof (rule siblings_disjoint [OF lk d childI [OF that(1)] childI [OF e(1)]])
    show "c' \<noteq> c" using links_okD(4) [OF lk e(1), of "(d, e')" n'] that e(2) by auto
  qed
  then show ?thesis by (fastforce simp: under_def split: option.splits)
qed

text \<open>That the function removes what is below a directory, by the depth left.\<close>

definition removes_contents where
  "removes_contents K sec io tab B fuel \<longleftrightarrow>
     (\<forall>d tab1 B1 s. is_dir tab d \<longrightarrow> 0 < d \<longrightarrow> d \<notin> below tab B d \<longrightarrow> card (below tab B d) < fuel \<longrightarrow>
        agrees (subtree tab B d) tab B tab1 B1 \<longrightarrow> fs_at K sec tab1 B1 s \<longrightarrow>
        (\<exists>s' tab2 B2. remove_dir_contents fuel io d s = Some (True, s') \<and> fs_at K sec tab2 B2 s' \<and>
           fs_head s' = fs_head s \<and> dropped (below tab B d) (subtree tab B d) tab1 B1 tab2 B2))"

context reliable_fs
begin

lemma live_fields:
  assumes "fs_at K sec tab B s" "0 < i" "i < 64" "used (tab ! i) \<noteq> 0"
  shows "direct0 (tab ! i) \<noteq> 0" "itype (tab ! i) = INODE_FILE \<or> itype (tab ! i) = INODE_DIR"
proof -
  have "itype (tab ! i) \<in> {INODE_FILE, INODE_DIR} \<and> (direct0 (tab ! i) = 0 \<longrightarrow> i = 0)"
    using fs_atD(2,3) [OF assms(1)] assms(3,4) by (simp add: mem_inv_def tab_inv_def)
  then show "direct0 (tab ! i) \<noteq> 0" "itype (tab ! i) = INODE_FILE \<or> itype (tab ! i) = INODE_DIR"
    using assms(2) by auto
qed

lemma release_ok:
  assumes at: "fs_at K sec tab B s" and i: "0 < i" "i < 64" "direct0 (tab ! i) \<noteq> 0"
  obtains s' X where "release_block io i s = (True, s')"
    "fs_at K sec (tab[i := zero_inode]) (B(i := X)) (set_inode i zero_inode s')" "length X = 512"
    "fs_head s' = fs_head s"
proof -
  have "\<exists>s' X. (case release_block io i s of (ok, s) \<Rightarrow> (ok, s)) = (True, s') \<and>
      fs_at K sec (tab[i := zero_inode]) (B(i := X)) (set_inode i zero_inode s') \<and> length X = 512 \<and> fs_head s' = fs_head s"
    by (rule release_at [where P = "\<lambda>r. \<exists>s' X. r = (True, s') \<and>
          fs_at K sec (tab[i := zero_inode]) (B(i := X)) (set_inode i zero_inode s') \<and> length X = 512 \<and> fs_head s' = fs_head s"
          and f = "\<lambda>ok s. (ok, s)", OF at i]) auto
  then show thesis using that by auto
qed

lemma write_ok:
  assumes at: "fs_at K sec tab B s" and i: "i < 64" "direct0 (tab ! i) \<noteq> 0" "length blk = 512"
  obtains s' where "disk_write_lba io (block_lba s i) blk 1 s = (True, s')" "fs_at K sec tab (B(i := blk)) s'"
    "fs_head s' = fs_head s"
proof -
  have "\<exists>s'. (case disk_write_lba io (block_lba s i) blk 1 s of (ok, s) \<Rightarrow> (ok, s)) = (True, s') \<and>
      fs_at K sec tab (B(i := blk)) s' \<and> fs_head s' = fs_head s"
    by (rule write_at [where P = "\<lambda>r. \<exists>s'. r = (True, s') \<and> fs_at K sec tab (B(i := blk)) s' \<and> fs_head s' = fs_head s"
          and f = "\<lambda>ok s. (ok, s)", OF at refl i]) simp
  then show thesis using that by auto
qed

text \<open>One entry of the directory: what it holds is removed, and the inode it names dropped.\<close>

lemma remove_one:
  assumes ih: "removes_contents K sec io tab B fuel" and t: "tree_ok tab B" and at: "fs_at K sec tab1 B1 s"
    and c: "0 < c" "c < 64" "used (tab ! c) \<noteq> 0" "c \<notin> below tab B c" "card (below tab B c) < fuel"
    and ag: "agrees (subtree tab B c) tab B tab1 B1"
  obtains s1 s2 tab2 B2 where
    "(if itype (inode_at s c) = INODE_DIR then remove_dir_contents fuel io c s
      else if itype (inode_at s c) \<noteq> INODE_FILE then Some (False, s) else Some (True, s)) = Some (True, s1)"
    "release_block io c s1 = (True, s2)" "fs_at K sec tab2 B2 (set_inode c zero_inode s2)"
    "fs_head s2 = fs_head s" "dropped (subtree tab B c) (subtree tab B c) tab1 B1 tab2 B2"
proof -
  have tc: "tab1 ! c = tab ! c" using ag c(2) by (simp add: agrees_def subtree_def)
  note L = live_fields [OF at c(1,2)]
  have iat: "inode_at s c = tab ! c" using fs_atD(4) [OF at] tc by simp
  have "\<exists>s1 tab' B'. (if itype (inode_at s c) = INODE_DIR then remove_dir_contents fuel io c s
      else if itype (inode_at s c) \<noteq> INODE_FILE then Some (False, s) else Some (True, s)) = Some (True, s1) \<and>
      fs_at K sec tab' B' s1 \<and> fs_head s1 = fs_head s \<and> dropped (below tab B c) (subtree tab B c) tab1 B1 tab' B'"
  proof (cases "itype (tab ! c) = INODE_DIR")
    case True
    then have "is_dir tab c" using L c tc by (simp add: is_dir_def)
    then show ?thesis
      using ih [unfolded removes_contents_def, rule_format, OF _ c(1) c(4) c(5) ag at] True iat by simp
  next
    case False
    then have "below tab B c = {}" by (intro below_file) (simp add: is_dir_def)
    then have "dropped (below tab B c) (subtree tab B c) tab1 B1 tab1 B1" by (simp add: dropped_def)
    then show ?thesis using False L c(3) tc at iat by auto
  qed
  then obtain s1 tab' B' where s1: "(if itype (inode_at s c) = INODE_DIR then remove_dir_contents fuel io c s
      else if itype (inode_at s c) \<noteq> INODE_FILE then Some (False, s) else Some (True, s)) = Some (True, s1)"
    "fs_at K sec tab' B' s1" "fs_head s1 = fs_head s" "dropped (below tab B c) (subtree tab B c) tab1 B1 tab' B'" by blast
  have tc': "tab' ! c = tab ! c" using s1(4) c(2,4) tc by (simp add: dropped_def)
  have d0: "direct0 (tab' ! c) \<noteq> 0" using L(1) tc tc' c(3) by simp
  obtain s2 X where s2: "release_block io c s1 = (True, s2)"
    "fs_at K sec (tab'[c := zero_inode]) (B'(c := X)) (set_inode c zero_inode s2)" "fs_head s2 = fs_head s1"
    by (rule release_ok [OF s1(2) c(1,2) d0])
  have "dropped (subtree tab B c) (subtree tab B c) tab1 B1 (tab'[c := zero_inode]) (B'(c := X))"
    using s1(4) fs_atD(6) [OF s1(2)] c(2) by (auto simp: dropped_def subtree_def nth_list_update)
  then show thesis using s1(3) s2(3) by (intro that [OF s1(1) s2(1,2)]) simp_all
qed

lemma remove_entries_all:
  assumes ih: "removes_contents K sec io tab B fuel" and t: "tree_ok tab B" and d: "is_dir tab d" "d \<notin> below tab B d"
    and fuel: "card (below tab B d) \<le> fuel"
    and "is": "distinct is" "set is \<subseteq> {..<16}" "\<forall>e \<in> set is. same_entry (B d) blk e" "length blk = 512"
    and ag: "agrees (under tab B d (set is)) tab B tab1 B1" and at: "fs_at K sec tab1 B1 s"
  shows "\<exists>blk' s' tab2 B2. remove_entries fuel io is blk s = Some (Some blk', s') \<and> length blk' = 512 \<and>
    fs_at K sec tab2 B2 s' \<and> fs_head s' = fs_head s \<and>
    dropped (under tab B d (set is)) (under tab B d (set is)) tab1 B1 tab2 B2"
  using "is" ag at
proof (induction "is" arbitrary: blk tab1 B1 s)
  case Nil
  then show ?case by (auto simp: under_def dropped_def)
next
  case (Cons e "is")
  have lk: "links_ok tab (ent tab B)" using t by (simp add: tree_ok_def)
  have e: "de_used blk e = de_used (B d) e" "de_inode blk e = de_inode (B d) e" "e < 16"
    using Cons.prems(2,3) same_entryD [of "B d" blk e] by auto
  have "is": "distinct is" "set is \<subseteq> {..<16}" "e \<notin> set is" using Cons.prems(1,2) by auto
  show ?case
  proof (cases "de_used (B d) e")
    case False
    then have "under tab B d (set (e # is)) = under tab B d (set is)" by (simp add: under_insert ent_def slot_used_def)
    then show ?thesis using Cons.IH [OF "is"(1,2) _ Cons.prems(4)] Cons.prems(3,5,6) e False by simp
  next
    case True
    let ?c = "de_inode (B d) e"
    obtain n where n: "ent tab B (d, e) = Some (n, ?c)" using d e(3) True by (simp add: ent_def slot_used_def)
    note C = childI [OF n]
    note R = child_range [OF lk C]
    have u: "under tab B d (set (e # is)) = subtree tab B ?c \<union> under tab B d (set is)" by (simp add: under_insert n)
    have dj: "under tab B d (set is) \<inter> subtree tab B ?c = {}" by (rule under_disjoint [OF lk d(2) n "is"(3)])
    have ag: "agrees (subtree tab B ?c) tab B tab1 B1" "agrees (under tab B d (set is)) tab B tab1 B1"
      by (rule agrees_mono [OF Cons.prems(5)], simp add: u del: set_simps)+
    obtain s1 s2 tab2 B2 where s:
      "(if itype (inode_at s ?c) = INODE_DIR then remove_dir_contents fuel io ?c s
        else if itype (inode_at s ?c) \<noteq> INODE_FILE then Some (False, s) else Some (True, s)) = Some (True, s1)"
      "release_block io ?c s1 = (True, s2)" "fs_at K sec tab2 B2 (set_inode ?c zero_inode s2)"
      "fs_head s2 = fs_head s" "dropped (subtree tab B ?c) (subtree tab B ?c) tab1 B1 tab2 B2"
      by (rule remove_one [OF ih t Cons.prems(6) R(1-3) child_acyclic(1) [OF lk d(2) C] _ ag(1)])
        (use child_smaller [OF lk d(2) C] fuel in auto)
    have ag2: "agrees (under tab B d (set is)) tab B tab2 B2" by (rule dropped_agrees [OF s(5) ag(2) dj dj])
    have same: "same_entry (B d) (de_clear blk e) e'" if "e' \<in> set is" for e'
      using Cons.prems(3) that "is"(3) same_entry_clear [of e' e blk] by (auto simp: same_entry_def)
    obtain blk' s' tab3 B3 where r: "remove_entries fuel io is (de_clear blk e) (set_inode ?c zero_inode s2) = Some (Some blk', s')"
      "length blk' = 512" "fs_at K sec tab3 B3 s'" "fs_head s' = fs_head (set_inode ?c zero_inode s2)"
      "dropped (under tab B d (set is)) (under tab B d (set is)) tab2 B2 tab3 B3"
      using Cons.IH [OF "is"(1,2) _ _ ag2 s(3), of "de_clear blk e"] same Cons.prems(4) by auto
    have "remove_entries fuel io (e # is) blk s = Some (Some blk', s')"
      unfolding remove_entries.simps Let_def e using True R(1,2) s(1,2) r(1) by simp
    moreover have "fs_head s' = fs_head s" using r(4) s(4) by (simp add: fs_head_def set_inode_def)
    ultimately show ?thesis using r(2,3) dropped_trans [OF s(5) r(5)] unfolding u by blast
  qed
qed

lemma remove_contents:
  assumes t: "tree_ok tab B"
  shows "removes_contents K sec io tab B fuel"
proof (induction fuel)
  case 0
  then show ?case by (simp add: removes_contents_def)
next
  case (Suc fuel)
  show ?case
    unfolding removes_contents_def
  proof (intro allI impI)
    fix d tab1 B1 s
    assume d: "is_dir tab d" "0 < d" "d \<notin> below tab B d" and f: "card (below tab B d) < Suc fuel"
      and ag: "agrees (subtree tab B d) tab B tab1 B1" and at: "fs_at K sec tab1 B1 s"
    have d64: "d < 64" using d(1) by (simp add: is_dir_def)
    have td: "tab1 ! d = tab ! d" "B1 d = B d" using ag d64 by (simp_all add: agrees_def subtree_def)
    have d': "\<not> (d = 0 \<or> FS_MAX_INODES \<le> d)" "\<not> (used (inode_at s d) = 0 \<or> itype (inode_at s d) \<noteq> INODE_DIR \<or> direct0 (inode_at s d) = 0)"
      using d fs_atD(4) [OF at] td by (auto simp: is_dir_def)
    obtain s1 where s1: "disk_read_lba io (block_lba s d) 1 s = (True, B d, s1)" "reread K sec tab1 B1 s s1"
      using read_ok [OF at d64] td(2) by metis
    note R1 = rereadD [OF s1(2)]
    have l: "length (B d) = 512" using t by (simp add: tree_ok_def blocks_ok_def)
    have i16: "set [0..<16] = {..<16::nat}" by (simp only: set_upt atLeast0LessThan)
    have u: "under tab B d (set [0..<16]) = below tab B d" unfolding i16 by (rule under_all)
    have ag': "agrees (under tab B d (set [0..<16])) tab B tab1 B1"
      unfolding u using ag by (rule agrees_mono) (auto simp: subtree_def)
    obtain blk s2 tab2 B2 where r: "remove_entries fuel io [0..<16] (B d) s1 = Some (Some blk, s2)" "length blk = 512"
      "fs_at K sec tab2 B2 s2" "fs_head s2 = fs_head s1" "dropped (below tab B d) (below tab B d) tab1 B1 tab2 B2"
      using remove_entries_all [OF Suc.IH t d(1,3) _ _ _ _ l ag' R1(1), unfolded u] f i16 by (auto simp: same_entry_def)
    have td2: "tab2 ! d = tab ! d" using r(5) d(3) d64 td by (simp add: dropped_def)
    have d0: "direct0 (tab2 ! d) \<noteq> 0" using d(1) td2 by (simp add: is_dir_def)
    obtain s3 where s3: "disk_write_lba io (block_lba s2 d) blk 1 s2 = (True, s3)" "fs_at K sec tab2 (B2(d := blk)) s3"
      "fs_head s3 = fs_head s2"
      by (rule write_ok [OF r(3) d64 d0 r(2)])
    have "remove_dir_contents (Suc fuel) io d s = Some (True, s3)"
      unfolding remove_dir_contents.simps Let_def if_not_P [OF d'(1)] if_not_P [OF d'(2)] s1(1)
      using r(1) s3(1) by simp
    moreover have "dropped (below tab B d) (subtree tab B d) tab1 B1 tab2 (B2(d := blk))"
      using r(5) by (auto simp: dropped_def subtree_def)
    ultimately show "\<exists>s' tab2 B2. remove_dir_contents (Suc fuel) io d s = Some (True, s') \<and> fs_at K sec tab2 B2 s' \<and>
        fs_head s' = fs_head s \<and> dropped (below tab B d) (subtree tab B d) tab1 B1 tab2 B2"
      using s3 r(4) R1(2) by metis
  qed
qed

end

section \<open>Cutting a subtree off\<close>

text \<open>The entry of a name and the subtree of its inode are gone, the inodes free; all else is as before.\<close>

definition cut_off where
  "cut_off S ty d name tab B tab' B' \<longleftrightarrow>
     (\<forall>j \<in> S. used (tab' ! j) = 0) \<and> (\<forall>d'. is_dir tab' d' \<longleftrightarrow> is_dir tab d' \<and> d' \<notin> S) \<and>
     (\<forall>d' n. is_dir tab' d' \<longrightarrow>
        file_view tab' B' d' n =
          (if ty = INODE_FILE \<and> d' = d \<and> cstr n = cstr name then None else file_view tab B d' n) \<and>
        entry_of tab' B' INODE_DIR d' n =
          (if ty = INODE_DIR \<and> d' = d \<and> cstr n = cstr name then None else entry_of tab B INODE_DIR d' n))"

lemma subtree_target:
  assumes lk: "links_ok tab (ent tab B)" and e: "ent tab B (d, e) = Some (n, c)"
    and p: "ent tab B (d', e') = Some (n', j)" "d' \<notin> subtree tab B c" "(d', e') \<noteq> (d, e)"
  shows "j \<notin> subtree tab B c"
proof
  assume "j \<in> subtree tab B c"
  then consider "j = c" | "j \<in> below tab B c" by (auto simp: subtree_def)
  then show False
  proof cases
    case 1
    then show ?thesis using links_okD(4) [OF lk e, of "(d', e')" n'] p by auto
  next
    case 2
    then obtain q where "(q, j) \<in> child tab B" "q \<in> subtree tab B c" by (rule below_parent)
    then show ?thesis using one_parent [OF lk childI [OF p(1)]] p(2) by auto
  qed
qed

lemma cut_entries:
  assumes t: "tree_ok tab B" and d: "is_dir tab d" "d \<notin> subtree tab B c" and e: "ent tab B (d, e) = Some (n, c)"
    and dr: "dropped (subtree tab B c) (subtree tab B c) tab B tab' B2" and l: "\<And>j. length (B2 j) = 512"
  defines "B' \<equiv> B2(d := de_clear (B d) e)"
  shows "ent tab' B' (d', e') = (if d' \<in> subtree tab B c \<or> (d', e') = (d, e) then None else ent tab B (d', e'))"
    and "tree_ok tab' B'" and "is_dir tab' d' \<longleftrightarrow> is_dir tab d' \<and> d' \<notin> subtree tab B c"
proof -
  let ?S = "subtree tab B c"
  have bl: "blocks_ok tab B" and lk: "links_ok tab (ent tab B)" using t by (auto simp: tree_ok_def)
  note D = links_okD [OF lk]
  have e16: "e < 16" using e by (simp add: ent_Some slot_used_def)
  note C = ent_clear [OF bl d(1) e16]
  have nth: "tab' ! j = tab ! j" if "j < 64" "j \<notin> ?S" for j using dr that by (simp add: dropped_def)
  have blk: "B' j = (B(d := de_clear (B d) e)) j" if "j \<notin> ?S" for j
    using dr that by (simp add: dropped_def B'_def)
  have dir: "is_dir tab' d' \<longleftrightarrow> is_dir tab d' \<and> d' \<notin> ?S" for d'
    using dr by (auto simp: is_dir_def dropped_def split: if_splits)
  have su: "slot_used tab' B' d' e' \<longleftrightarrow> d' \<notin> ?S \<and> slot_used tab (B(d := de_clear (B d) e)) d' e'" for d' e'
    using dir blk by (auto simp: slot_used_def)
  have ent': "ent tab' B' (d', e') = (if d' \<in> ?S \<or> (d', e') = (d, e) then None else ent tab B (d', e'))" for d' e'
  proof (cases "d' \<in> ?S")
    case True
    then show ?thesis using su by (simp add: ent_def)
  next
    case False
    then have "ent tab' B' (d', e') = ent tab (B(d := de_clear (B d) e)) (d', e')"
      using su blk by (simp only: ent_def prod.case) simp
    then show ?thesis using False by (simp add: C(1))
  qed
  have target: "j \<notin> ?S" if "ent tab' B' (d', e') = Some (m, j)" for d' e' m j
    using subtree_target [OF lk e, of d' e' m j] that ent' [of d' e'] by (auto split: if_splits)
  have old: "ent tab B p = Some v" if "ent tab' B' p = Some v" for p v
    using that ent' [of "fst p" "snd p"] by (simp split: if_splits)
  have lk': "links_ok tab' (ent tab' B')"
    unfolding links_ok_def
  proof (intro conjI allI impI)
    fix p m i assume a: "ent tab' B' p = Some (m, i)"
    show "0 < i" "i < 64" using D(1,2) [OF old [OF a]] by auto
    then show "used (tab' ! i) \<noteq> 0" using nth [of i] target [of "fst p" "snd p" m i] D(3) [OF old [OF a]] a by simp
    fix q m' assume "ent tab' B' q = Some (m', i)"
    then show "p = q" using D(4) [OF old [OF a] old] by blast
  next
    fix d' e1 e2 m i i'
    assume a: "ent tab' B' (d', e1) = Some (m, i)" "ent tab' B' (d', e2) = Some (m, i')"
      and ty: "itype (tab' ! i) = itype (tab' ! i')"
    have "tab' ! i = tab ! i" "tab' ! i' = tab ! i'"
      using nth target [OF a(1)] target [OF a(2)] D(2) [OF old [OF a(1)]] D(2) [OF old [OF a(2)]] by auto
    then show "e1 = e2" using D(5) [OF old [OF a(1)] old [OF a(2)]] ty by simp
  qed
  have "blocks_ok tab' B'"
    unfolding blocks_ok_def
  proof (intro conjI allI impI)
    show "length (B' j) = 512" for j using l bl by (simp add: B'_def blocks_ok_def)
    fix d' e' assume "slot_used tab' B' d' e'"
    then show "entry_ok (B' d') e'" using su [of d' e'] C(2) blk [of d'] by (simp add: blocks_ok_def)
  qed
  with lk' show "tree_ok tab' B'" by (simp add: tree_ok_def)
  show "ent tab' B' (d', e') = (if d' \<in> ?S \<or> (d', e') = (d, e) then None else ent tab B (d', e'))" by (rule ent')
  show "is_dir tab' d' \<longleftrightarrow> is_dir tab d' \<and> d' \<notin> ?S" by (rule dir)
qed

lemma cut_tree:
  assumes t: "tree_ok tab B" and d: "is_dir tab d" "d \<notin> subtree tab B c"
    and e: "ent tab B (d, e) = Some (cstr name, c)" "itype (tab ! c) = ty" "ty \<noteq> 0"
    and dr: "dropped (subtree tab B c) (subtree tab B c) tab B tab' B2" and l: "\<And>j. length (B2 j) = 512"
  defines "B' \<equiv> B2(d := de_clear (B d) e)"
  shows "cut_off (subtree tab B c) ty d name tab B tab' B'"
proof -
  let ?S = "subtree tab B c"
  have lk: "links_ok tab (ent tab B)" using t by (auto simp: tree_ok_def)
  note D = links_okD [OF lk]
  note C = cut_entries [OF t d e(1) dr l, folded B'_def]
  have lk': "links_ok tab' (ent tab' B')" using C(2) by (simp add: tree_ok_def)
  have ent: "ent tab' B' (d', e') = Some (m, k) \<longleftrightarrow> d' \<notin> ?S \<and> (d', e') \<noteq> (d, e) \<and> ent tab B (d', e') = Some (m, k)" for d' e' m k
    using C(1) [of d' e'] by auto
  have nth: "tab' ! k = tab ! k \<and> k \<notin> ?S" if "ent tab' B' (d', e') = Some (m, k)" for d' e' m k
    using that subtree_target [OF lk e(1), of d' e' m k] ent D(2) dr by (auto simp: dropped_def)
  have eo: "entry_of tab' B' ty' d' n = (if ty' = ty \<and> d' = d \<and> cstr n = cstr name then None else entry_of tab B ty' d' n)"
    if d': "is_dir tab' d'" and ty': "ty' \<noteq> 0" for d' ty' n
  proof (rule option_eqI)
    fix k
    have dd: "is_dir tab d'" "d' \<notin> ?S" using d' C(3) by auto
    have l: "entry_of tab' B' ty' d' n = Some k \<longleftrightarrow> (\<exists>e'. ent tab' B' (d', e') = Some (cstr n, k) \<and> itype (tab ! k) = ty')"
      using entry_of_iff [OF lk' d' ty', of n k] nth by metis
    have o: "entry_of tab B ty' d' n = Some k \<longleftrightarrow> (\<exists>e'. ent tab B (d', e') = Some (cstr n, k) \<and> itype (tab ! k) = ty')"
      by (rule entry_of_iff [OF lk dd(1) ty'])
    have gone: "ent tab B (d, e') = Some (cstr name, k) \<Longrightarrow> itype (tab ! k) = ty \<Longrightarrow> e' = e" for e'
      using D(5) [OF e(1), of e' k] e(2) by simp
    show "entry_of tab' B' ty' d' n = Some k \<longleftrightarrow>
        (if ty' = ty \<and> d' = d \<and> cstr n = cstr name then None else entry_of tab B ty' d' n) = Some k"
    proof (cases "ty' = ty \<and> d' = d \<and> cstr n = cstr name")
      case True
      then show ?thesis using l gone ent by auto
    next
      case False
      have "(d', e') \<noteq> (d, e)" if "ent tab B (d', e') = Some (cstr n, k)" "itype (tab ! k) = ty'" for e'
        using that e(1,2) False by auto
      then show ?thesis using l o ent dd(2) False by (simp only: if_False) blast
    qed
  qed
  have "file_view tab' B' d' n = (if ty = INODE_FILE \<and> d' = d \<and> cstr n = cstr name then None else file_view tab B d' n)"
    if d': "is_dir tab' d'" for d' n
  proof -
    have "tab' ! k = tab ! k \<and> B' k = B k" if a: "entry_of tab' B' INODE_FILE d' n = Some k" for k
    proof -
      obtain e' where e': "ent tab' B' (d', e') = Some (cstr n, k)" "itype (tab' ! k) = INODE_FILE"
        using entry_of_iff [OF lk' d', of INODE_FILE n k] a by auto
      note N = nth [OF e'(1)]
      then have "k \<noteq> d" using e'(2) d(1) by (auto simp: is_dir_def)
      then show ?thesis using N dr by (simp add: dropped_def B'_def)
    qed
    then have v: "file_view tab' B' d' n = map_option (\<lambda>k. mem_get (B k) (unat (isize (tab ! k)))) (entry_of tab' B' INODE_FILE d' n)"
      by (cases "entry_of tab' B' INODE_FILE d' n") (simp_all add: file_view_def)
    show ?thesis unfolding v eo [OF d' one_neq_zero] by (simp add: file_view_def)
  qed
  moreover have "used (tab' ! j) = 0" if "j \<in> ?S" for j
    using that dr child_range(2) [OF lk childI [OF e(1)]] below_range [OF lk, of c]
    by (auto simp: dropped_def subtree_def)
  ultimately show ?thesis using eo C(3) by (simp add: cut_off_def)
qed

section \<open>The call\<close>

text \<open>What a name stands for: a directory before a file.\<close>

definition victim :: "inode list \<Rightarrow> (nat \<Rightarrow> u8 list) \<Rightarrow> nat \<Rightarrow> u8 list \<Rightarrow> (u8 \<times> nat) option" where
  "victim tab B d name =
     (case entry_of tab B INODE_DIR d name of Some i \<Rightarrow> Some (INODE_DIR, i)
      | None \<Rightarrow> map_option (Pair INODE_FILE) (entry_of tab B INODE_FILE d name))"

lemma remove_scan_tree:
  assumes t: "tree_ok tab B" and d: "is_dir tab d" and ty: "ty \<noteq> 0"
  obtains "remove_scan name (B d) tab ty [0..<16] = Some None" "entry_of tab B ty d name = None"
  | e where "remove_scan name (B d) tab ty [0..<16] = Some (Some e)" "itype (tab ! de_inode (B d) e) = ty"
      "ent tab B (d, e) = Some (cstr name, de_inode (B d) e)" "entry_of tab B ty d name = Some (de_inode (B d) e)"
proof -
  have lk: "links_ok tab (ent tab B)" using t by (simp add: tree_ok_def)
  consider "remove_scan name (B d) tab ty [0..<16] = None" | "remove_scan name (B d) tab ty [0..<16] = Some None"
    | e where "remove_scan name (B d) tab ty [0..<16] = Some (Some e)"
    by (metis not_None_eq)
  then show thesis
  proof cases
    case 1
    obtain e where "e \<in> set [0..<16]" "de_used (B d) e" "de_inode (B d) e = 0 \<or> 64 \<le> de_inode (B d) e"
      using remove_scan_None [OF 1] by blast
    then show ?thesis using tree_inodes [OF t d, of e] by (simp only: set_upt atLeastLessThan_iff) auto
  next
    case 2
    have "entry_of tab B ty d name = None"
      unfolding entry_of_None using remove_scan_Nomatch [OF 2] ty by blast
    with 2 show ?thesis by (rule that(1))
  next
    case (3 e)
    have "e \<in> set [0..<16] \<and> entry_matches name (B d) tab ty e" by (rule remove_scan_match [OF 3 ty])
    then have e: "e < 16" "entry_matches name (B d) tab ty e" by (simp_all only: set_upt atLeastLessThan_iff)
    show ?thesis by (rule that(2) [OF 3]) (rule match_entry_of [OF lk d ty e])+
  qed
qed

definition cut_step where
  "cut_step K sec d name tab B ok s' \<longleftrightarrow>
     (case victim tab B d name of None \<Rightarrow> \<not> ok \<and> tree_at K sec tab B s'
      | Some (ty, c) \<Rightarrow> ok \<and> synced sec s' \<and>
          (\<exists>tab' B'. tree_at K sec tab' B' s' \<and> cut_off (subtree tab B c) ty d name tab B tab' B'))"

context reliable_fs
begin

lemma flush_ok:
  assumes "fs_at K sec tab B s"
  obtains s' where "flush io s = (True, s')" "fs_at K sec tab B s'" "synced sec s'"
proof -
  have "post (\<lambda>ok s'. ok \<and> fs_at K sec tab B s' \<and> synced sec s') (flush io s)"
    by (rule flush_at [OF assms]) simp
  then show thesis using that by (cases "flush io s") (auto simp: post_def)
qed

lemma remove_recursive_step:
  assumes a: "tree_at K sec tab B s0" and at: "fs_at K sec tab B s" and d: "is_dir tab d" "d \<notin> below tab B d"
  shows "\<exists>ok s'. remove_entry_from_dir_recursive 64 io d name s = Some (ok, s') \<and> cut_step K sec d name tab B ok s'"
proof -
  have t: "tree_ok tab B" and r: "is_dir tab 0" using a by (auto simp: tree_at_def)
  have lk: "links_ok tab (ent tab B)" and l: "length (B j) = 512" for j using t by (auto simp: tree_ok_def blocks_ok_def)
  have d': "d < 64" "\<not> direct0 (inode_at s d) = 0" using d(1) fs_atD(4) [OF at] by (simp_all add: is_dir_def)
  obtain s1 where s1: "disk_read_lba io (block_lba s d) 1 s = (True, B d, s1)" "reread K sec tab B s s1"
    by (rule read_ok [OF at d'(1)])
  note R1 = rereadD [OF s1(2)]
  let ?pick = "case remove_scan name (B d) tab INODE_DIR [0..<16] of None \<Rightarrow> None | Some t \<Rightarrow>
      (case t of Some e \<Rightarrow> Some (Some e) | None \<Rightarrow> remove_scan name (B d) tab INODE_FILE [0..<16])"
  have pick: "(?pick = Some None \<and> victim tab B d name = None) \<or>
      (\<exists>e ty. ?pick = Some (Some e) \<and> itype (tab ! de_inode (B d) e) = ty \<and> ty \<noteq> 0 \<and>
         ent tab B (d, e) = Some (cstr name, de_inode (B d) e) \<and> victim tab B d name = Some (ty, de_inode (B d) e))"
    by (rule remove_scan_tree [OF t d(1), of INODE_DIR name]; simp;
        rule remove_scan_tree [OF t d(1), of INODE_FILE name]; simp add: victim_def)
  let ?rest = "\<lambda>e s. case (if itype (inode_at s (de_inode (B d) e)) = INODE_DIR then remove_dir_contents 64 io (de_inode (B d) e) s
            else if itype (inode_at s (de_inode (B d) e)) \<noteq> INODE_FILE then Some (False, s) else Some (True, s)) of
        None \<Rightarrow> None
      | Some (ok, s) \<Rightarrow>
          if \<not> ok then Some (False, s) else
          case release_block io (de_inode (B d) e) s of (ok, s) \<Rightarrow> if \<not> ok then Some (False, s) else
          case disk_write_lba io (block_lba (set_inode (de_inode (B d) e) zero_inode s) d) (de_clear (B d) e) 1
             (set_inode (de_inode (B d) e) zero_inode s) of (ok, s) \<Rightarrow> if \<not> ok then Some (False, s) else Some (flush io s)"
  have eq: "remove_entry_from_dir_recursive 64 io d name s = (case ?pick of None \<Rightarrow> Some (False, s1)
      | Some None \<Rightarrow> Some (False, s1) | Some (Some e) \<Rightarrow>
        if de_inode (B d) e = 0 \<or> FS_MAX_INODES \<le> de_inode (B d) e then Some (False, s1) else ?rest e s1)"
    unfolding remove_entry_from_dir_recursive_def Let_def
    using d'(2) by (simp add: s1(1) R1(4) split: option.split)
  from pick show ?thesis
  proof (elim disjE exE conjE)
    assume p: "?pick = Some None" "victim tab B d name = None"
    then show ?thesis unfolding eq p option.case using R1(1) t r by (simp add: cut_step_def tree_at_def p(2) ex_bool_eq)
  next
    fix e ty assume p: "?pick = Some (Some e)" and ty: "itype (tab ! de_inode (B d) e) = ty" "ty \<noteq> 0"
      and e: "ent tab B (d, e) = Some (cstr name, de_inode (B d) e)" and v: "victim tab B d name = Some (ty, de_inode (B d) e)"
    let ?c = "de_inode (B d) e" and ?S = "subtree tab B (de_inode (B d) e)"
    note C = childI [OF e]
    note Rg = child_range [OF lk C]
    have dS: "d \<notin> ?S" by (rule child_acyclic(2) [OF lk d(2) C])
    obtain s2 s3 tab2 B2 where s:
      "(if itype (inode_at s1 ?c) = INODE_DIR then remove_dir_contents 64 io ?c s1
        else if itype (inode_at s1 ?c) \<noteq> INODE_FILE then Some (False, s1) else Some (True, s1)) = Some (True, s2)"
      "release_block io ?c s2 = (True, s3)" "fs_at K sec tab2 B2 (set_inode ?c zero_inode s3)"
      "fs_head s3 = fs_head s1" "dropped ?S ?S tab B tab2 B2"
      by (rule remove_one [OF remove_contents [OF t, of 64] t R1(1) Rg(1-3) child_acyclic(1) [OF lk d(2) C] below_small [OF lk]])
        (simp add: agrees_def)
    have td: "tab2 ! d = tab ! d" using s(5) d'(1) dS by (simp add: dropped_def)
    have d0: "direct0 (tab2 ! d) \<noteq> 0" using d(1) td by (simp add: is_dir_def)
    obtain s4 where s4: "disk_write_lba io (block_lba (set_inode ?c zero_inode s3) d) (de_clear (B d) e) 1 (set_inode ?c zero_inode s3) = (True, s4)"
      "fs_at K sec tab2 (B2(d := de_clear (B d) e)) s4"
      by (rule write_ok [OF s(3) d'(1) d0, of "de_clear (B d) e"]) (simp_all add: l)
    obtain s5 where s5: "flush io s4 = (True, s5)" "fs_at K sec tab2 (B2(d := de_clear (B d) e)) s5" "synced sec s5"
      by (rule flush_ok [OF s4(2)])
    have l2: "length (B2 j) = 512" for j using blks_length [of "set_inode ?c zero_inode s3" j] s(3) by (simp add: fs_at_def)
    note T = cut_entries(2,3) [OF t d(1) dS e s(5) l2]
    note O = cut_tree [OF t d(1) dS e ty s(5) l2]
    have no: "\<not> (?c = 0 \<or> FS_MAX_INODES \<le> ?c)" using Rg by simp
    have "0 \<notin> ?S" using Rg(1) below_range [OF lk, of ?c] by (auto simp: subtree_def)
    then have "tree_at K sec tab2 (B2(d := de_clear (B d) e)) s5" using s5(2) T r by (simp add: tree_at_def)
    moreover have "remove_entry_from_dir_recursive 64 io d name s = Some (True, s5)"
      unfolding eq p option.case if_not_P [OF no] s(1) prod.case s(2) s4(1) s5(1) by simp
    ultimately show ?thesis using O s5(3) v by (auto simp: cut_step_def)
  qed
qed

text \<open>The directory and the name that a path stands for.\<close>

end

definition path_place :: "inode list \<Rightarrow> (nat \<Rightarrow> u8 list) \<Rightarrow> u8 list \<Rightarrow> (nat \<times> u8 list) option" where
  "path_place tab B p =
     (if \<not> has_sep p then Some (0, p)
      else if is_empty (path_rest p) then None
      else map_option (\<lambda>d. (d, path_rest p)) (entry_of tab B INODE_DIR 0 (path_dir p)))"

context reliable_fs
begin

lemma fs_remove_recursive_step:
  assumes a: "tree_at K sec tab B s" and m: "g_mounted s" "\<not> is_empty path"
  shows "\<exists>ok s'. fs_remove_path_recursive 64 io (Some path) s = Some (ok, s') \<and>
    (case path_place tab B path of None \<Rightarrow> \<not> ok \<and> tree_at K sec tab B s' | Some (d, name) \<Rightarrow> cut_step K sec d name tab B ok s')"
proof -
  have at: "fs_at K sec tab B s" and t: "tree_ok tab B" and r: "is_dir tab 0" using a by (auto simp: tree_at_def)
  have lk: "links_ok tab (ent tab B)" using t by (simp add: tree_ok_def)
  have root: "0 \<notin> below tab B 0" using below_range [OF lk, of 0] by auto
  have un: "\<not> (used (inode_at s 0) = 0 \<or> direct0 (inode_at s 0) = 0)" using r fs_atD(4) [OF at] by (simp add: is_dir_def)
  show ?thesis
  proof (cases "has_sep path")
    case False
    then show ?thesis
      using m un remove_recursive_step [OF a at r root, of path]
      by (simp add: fs_remove_path_recursive_def path_place_def)
  next
    case True
    show ?thesis
    proof (cases "is_empty (path_rest path)")
      case True
      then show ?thesis using m \<open>has_sep path\<close> a by (simp add: fs_remove_path_recursive_def path_place_def ex_bool_eq)
    next
      case False
      have "post (\<lambda>r s'. r = entry_of tab B INODE_DIR 0 (path_dir path) \<and> fs_at K sec tab B s')
          (case find_subdir io (path_dir path) s of (r, s) \<Rightarrow> (r, s))"
        by (rule find_subdir_at [OF at r]) (simp add: post_def)
      then obtain s1 where s1: "find_subdir io (path_dir path) s = (entry_of tab B INODE_DIR 0 (path_dir path), s1)"
        "fs_at K sec tab B s1"
        by (cases "find_subdir io (path_dir path) s") (auto simp: post_def)
      show ?thesis
      proof (cases "entry_of tab B INODE_DIR 0 (path_dir path)")
        case None
        then show ?thesis
          using m True False s1 t r by (simp add: fs_remove_path_recursive_def path_place_def tree_at_def ex_bool_eq)
      next
        case (Some d)
        obtain e where "ent tab B (0, e) = Some (cstr (path_dir path), d)"
          using entry_of_iff [OF lk r, of INODE_DIR "path_dir path" d] Some by auto
        then have "d \<notin> below tab B d" by (intro child_acyclic(1) [OF lk root] childI)
        then show ?thesis
          using m True False s1 Some remove_recursive_step [OF a s1(2) child_dir [OF at t r Some], of "path_rest path"]
          by (simp add: fs_remove_path_recursive_def path_place_def)
      qed
    qed
  qed
qed

end

section \<open>The property\<close>

definition subtree_removed :: "('d \<Rightarrow> nat \<Rightarrow> u8 list) \<Rightarrow> u8 \<Rightarrow> nat \<Rightarrow> nat \<Rightarrow> u8 list \<Rightarrow> 'd fs \<Rightarrow> 'd fs \<Rightarrow> bool" where
  "subtree_removed sec ty c d name s s' \<longleftrightarrow>
     (let S = subtree (g_inodes s) (blks sec s) c in
       (\<forall>j \<in> S. used (inode_at s' j) = 0) \<and>
       (\<forall>d'. is_dir (g_inodes s') d' \<longleftrightarrow> is_dir (g_inodes s) d' \<and> d' \<notin> S) \<and>
       (\<forall>d' n. is_dir (g_inodes s') d' \<longrightarrow>
          file_at sec s' d' n =
            (if ty = INODE_FILE \<and> d' = d \<and> cstr n = cstr name then None else file_at sec s d' n) \<and>
          subdir_at sec s' d' n =
            (if ty = INODE_DIR \<and> d' = d \<and> cstr n = cstr name then None else subdir_at sec s d' n)))"

text \<open>C8: \<^verbatim>\<open>fs_remove_path_recursive\<close> ends, within a depth of 64 calls, on every consistent file system, even if
  the disk holds directories that contain themselves. It returns true exactly if the path names a directory,
  or else a file, of the root or of a directory of the root. Then the entry is gone, with all inodes of the
  subtree below it; every directory outside the subtree holds what it held, and the tables are on disk. If
  it returns false nothing has changed.
\<close>

theorem fs_remove_recursive_spec:
  assumes "reliable_disk io sec ready" and "fs_consistent ready sec s" and "g_mounted s" and "\<not> is_empty path"
  shows "\<exists>ok s'. fs_remove_path_recursive 64 io (Some path) s = Some (ok, s') \<and>
    fs_consistent ready sec s' \<and> fs_head s' = fs_head s \<and>
    (case path_place (g_inodes s) (blks sec s) path of None \<Rightarrow> \<not> ok \<and> tree_same sec s s' | Some (d, name) \<Rightarrow>
     case victim (g_inodes s) (blks sec s) d name of None \<Rightarrow> \<not> ok \<and> tree_same sec s s' | Some (ty, c) \<Rightarrow>
     ok \<and> synced sec s' \<and> subtree_removed sec ty c d name s s')"
proof -
  obtain ok s' where r: "fs_remove_path_recursive 64 io (Some path) s = Some (ok, s')"
    and C: "case path_place (g_inodes s) (blks sec s) path of
       None \<Rightarrow> \<not> ok \<and> tree_at (at_head ready (fs_head s)) sec (g_inodes s) (blks sec s) s'
     | Some (d, name) \<Rightarrow> cut_step (at_head ready (fs_head s)) sec d name (g_inodes s) (blks sec s) ok s'"
    using reliable_fs.fs_remove_recursive_step [OF reliable_fsI(1) [OF assms(1)] consistentD [OF assms(2)] assms(3,4)] by blast
  have T: "fs_consistent ready sec s' \<and> fs_head s' = fs_head s \<and> tree_same sec s s'"
    if "tree_at (at_head ready (fs_head s)) sec (g_inodes s) (blks sec s) s'"
    using consistentI [OF that] by (simp add: tree_same_def)
  have M: "fs_consistent ready sec s' \<and> fs_head s' = fs_head s \<and> subtree_removed sec ty c d name s s'"
    if "tree_at (at_head ready (fs_head s)) sec tab' B' s'"
      "cut_off (subtree (g_inodes s) (blks sec s) c) ty d name (g_inodes s) (blks sec s) tab' B'" for ty c d name tab' B'
    using consistentI [OF that(1)] that(2)
    by (simp add: subtree_removed_def cut_off_def Let_def file_at_def subdir_at_def inode_at_def)
  show ?thesis
  proof (cases "path_place (g_inodes s) (blks sec s) path")
    case None
    then show ?thesis using C T r by (simp add: ex_bool_eq)
  next
    case (Some x)
    obtain d name where x: "x = (d, name)" by (cases x)
    show ?thesis
    proof (cases "victim (g_inodes s) (blks sec s) d name")
      case None
      then show ?thesis using C T r Some x by (simp add: cut_step_def ex_bool_eq)
    next
      case v: (Some y)
      obtain ty c where y: "y = (ty, c)" by (cases y)
      obtain tab' B' where "tree_at (at_head ready (fs_head s)) sec tab' B' s'"
        "cut_off (subtree (g_inodes s) (blks sec s) c) ty d name (g_inodes s) (blks sec s) tab' B'"
        and "ok" "synced sec s'"
        using C Some x v y by (auto simp: cut_step_def)
      with M [OF this(1,2)] r show ?thesis by (simp add: Some x v y ex_bool_eq)
    qed
  qed
qed

theorem fs_remove_recursive_spec_witness:
  "\<exists>s'. fs_remove_path_recursive 64 ram_ops (Some [100]) demo_fs = Some (True, s') \<and>
     subdir_at ram_sec s' 0 [100] = None \<and> used (inode_at s' 1) = 0 \<and> file_at ram_sec s' 0 [102] = Some [104, 105]"
proof -
  have p: "\<not> is_empty [100]" "\<not> has_sep [100]" by code_simp+
  have v: "victim demo_tab demo_blk 0 [100] = Some (INODE_DIR, 1)" by (simp add: victim_def demo_tree)
  obtain ok s' where r: "fs_remove_path_recursive 64 ram_ops (Some [100]) demo_fs = Some (ok, s')"
    and W: "ok" "subtree_removed ram_sec INODE_DIR 1 0 [100] demo_fs s'" "fs_consistent (\<lambda>_. True) ram_sec s'"
    using fs_remove_recursive_spec [OF ram.reliable_disk_axioms demo_consistent demo_fs_simps(3) p(1)]
    by (auto simp: demo_fs_simps demo_blks path_place_def p v)
  have "is_dir (g_inodes s') 0" using W(3) by (simp add: fs_consistent_def tree_at_def)
  then show ?thesis
    using r W(1,2) by (auto simp: subtree_removed_def Let_def subtree_def demo_at demo_tree)
qed

end
