(* ===== verification/FsLimits.thy ===== *)
theory FsLimits
  imports FsRecursive
begin

text \<open>
  What the limits of the file system come to: the figures of \<^verbatim>\<open>fs_get_usage\<close>, and the one length that
  \<^verbatim>\<open>fs_write_path\<close> does not check.
\<close>

section \<open>Usage\<close>

lemma block_limit_range: "0 < block_limit s" "block_limit s \<le> 32768"
  by (simp_all add: block_limit_def Let_def)

lemma unat_blocks: "n \<le> 32768 \<Longrightarrow> unat (of_nat n * 512 :: u64) = 512 * n"
proof -
  assume n: "n \<le> 32768"
  have "unat (of_nat (n * 512) :: u64) = n * 512 mod 2 ^ 64" by (simp only: unat_of_nat take_bit_eq_mod) simp
  then show ?thesis using n by simp
qed

text \<open>C25: \<^verbatim>\<open>fs_get_usage\<close> reports, in bytes, the blocks of the file system, those the bitmap marks, and the
  difference; nothing wraps around. Block 0, which is never given out, counts as free: what can still be
  allocated is one block less than the figure says, and a full disk shows 512 bytes free.
\<close>

theorem fs_get_usage_spec:
  assumes "g_mounted s"
  shows "\<exists>total used free. fs_get_usage s = Some (total, used, free) \<and>
    unat total = 512 * block_limit s \<and> unat total \<le> 2 ^ 24 \<and>
    unat used = 512 * card {i. 0 < i \<and> i < block_limit s \<and> bm_used (g_bitmap s) i} \<and>
    unat free = 512 * (1 + card {i. 0 < i \<and> i < block_limit s \<and> \<not> bm_used (g_bitmap s) i}) \<and>
    unat used + unat free = unat total"
proof -
  let ?n = "block_limit s" and ?P = "bm_used (g_bitmap s)"
  let ?U = "{i. 0 < i \<and> i < ?n \<and> ?P i}" and ?F = "{i. 0 < i \<and> i < ?n \<and> \<not> ?P i}"
  let ?k = "length (filter ?P [1..<?n])"
  have n: "0 < ?n" "?n \<le> 32768" by (rule block_limit_range)+
  have U: "?k = card ?U"
  proof -
    have "?k = card (set (filter ?P [1..<?n]))" by (rule distinct_card [symmetric]) simp
    also have "set (filter ?P [1..<?n]) = ?U" by auto
    finally show ?thesis .
  qed
  have "card ?U + card ?F = card (?U \<union> ?F)" by (rule card_Un_disjoint [symmetric]) auto
  also have "?U \<union> ?F = {0<..<?n}" by auto
  finally have sum: "card ?U + card ?F = ?n - 1" by simp
  then have k: "?k < ?n" using U n by simp
  define t u where "t = (of_nat ?n * 512 :: u64)" and "u = (of_nat ?k * 512 :: u64)"
  have tu: "unat t = 512 * ?n" "unat u = 512 * ?k" unfolding t_def u_def using n k by (simp_all only: unat_blocks)
  then have lt: "u < t" using k by (simp add: word_less_nat_alt)
  have f: "unat (t - u) = 512 * ?n - 512 * ?k" using unat_sub [OF order_less_imp_le [OF lt]] tu by simp
  have "fs_get_usage s = Some (t, u, t - u)" using assms lt by (simp add: fs_get_usage_def Let_def t_def u_def)
  moreover have "unat t \<le> 2 ^ 24" using tu n by simp
  ultimately show ?thesis using tu f U sum n by (intro exI [of _ t] exI [of _ u] exI [of _ "t - u"]) simp
qed

theorem fs_get_usage_spec_witness:
  "\<exists>total used free. fs_get_usage demo_fs = Some (total, used, free) \<and> unat total = 51200 \<and> unat used + unat free = 51200"
proof -
  have "block_limit demo_fs = 100" by (simp add: block_limit_def demo_fs_def)
  then show ?thesis using fs_get_usage_spec [OF demo_fs_simps(3)] by auto
qed

section \<open>Names that are too long\<close>

lemma str_len_byte: "k < str_len name \<Longrightarrow> byte_at name k \<noteq> 0"
proof -
  assume k: "k < str_len name"
  then have t: "k < length (takeWhile (\<lambda>c. c \<noteq> 0) name)" by (simp add: str_len_cstr cstr_def)
  then have "k < length name" using length_takeWhile_le le_trans not_le by metis
  then show ?thesis using set_takeWhileD [OF nth_mem [OF t]] takeWhile_nth [OF t] by (simp add: byte_at_def)
qed

lemma de_put_spills:
  assumes "length blk = 512" and "slot < 15" and "31 \<le> str_len name"
  shows "byte_at (de_put blk slot ino name) (32 * (slot + 1)) = byte_at name 30"
    and "32 \<le> str_len name \<Longrightarrow> byte_at (de_put blk slot ino name) (32 * (slot + 1) + 1) = byte_at name 31"
  using assms by (simp_all add: de_put_def byte_at_mem_copy)

lemma write_scan_first:
  "write_scan name blk tab is sl = Some (None, r) \<Longrightarrow>
    r = (case sl of None \<Rightarrow> List.find (\<lambda>i. \<not> de_used blk i) is | Some _ \<Rightarrow> sl)"
proof (induction "is" arbitrary: sl)
  case (Cons i "is")
  then show ?case by (cases sl) (auto split: if_split_asm dest!: Cons.IH)
qed (simp split: option.split)

context reliable_fs
begin

lemma write_path_new:
  assumes a: "tree_at K sec tab B s" and m: "g_mounted s" and p: "has_sep path" "\<not> is_empty path" "\<not> is_empty (path_rest path)"
    and d: "entry_of tab B INODE_DIR 0 (path_dir path) = Some d" and new: "entry_of tab B INODE_FILE d (path_rest path) = None"
    and c: "find_free_slot (B d) = Some slot" "room s"
  obtains i s' where "fs_write_path io (Some path) data s = (True, s')"
    "blks sec s' d = de_put (B d) slot i (path_rest path)"
proof -
  have at: "fs_at K sec tab B s" and t: "tree_ok tab B" and r: "is_dir tab 0" using a by (auto simp: tree_at_def)
  have lk: "links_ok tab (ent tab B)" using t by (simp add: tree_ok_def)
  have dir: "is_dir tab d" by (rule child_dir [OF at t r d])
  have d': "d < 64" "direct0 (tab ! d) \<noteq> 0" using dir by (simp_all add: is_dir_def)
  have l: "length (B d) = 512" using t by (simp add: tree_ok_def blocks_ok_def)
  have "post (\<lambda>r s'. r = Some d \<and> fs_at K sec tab B s' \<and> fs_head s' = fs_head s \<and> g_bitmap s' = g_bitmap s)
      (case find_subdir io (path_dir path) s of (r, s) \<Rightarrow> (r, s))"
    by (rule find_subdir_at [OF at r]) (simp add: post_def d)
  then obtain s1 where s1: "find_subdir io (path_dir path) s = (Some d, s1)" "fs_at K sec tab B s1"
    "fs_head s1 = fs_head s" "g_bitmap s1 = g_bitmap s"
    by (cases "find_subdir io (path_dir path) s") (auto simp: post_def)
  obtain s2 where s2: "disk_read_lba io (block_lba s1 d) 1 s1 = (True, B d, s2)" "reread K sec tab B s1 s2"
    by (rule read_ok [OF s1(2) d'(1)])
  note R = rereadD [OF s2(2)]
  obtain found free where sc: "write_scan (path_rest path) (B d) tab [0..<16] None = Some (found, free)"
    using scan_outcomes(5) [OF t dir] by fastforce
  have "found = None" using write_target [OF lk dir] sc new by (cases found) auto
  moreover have "free = Some slot"
    using write_scan_first [OF sc [unfolded \<open>found = None\<close>]] c(1) by (simp add: find_free_slot_def)
  ultimately have sc: "write_scan (path_rest path) (B d) tab [0..<16] None = Some (None, Some slot)" using sc by simp
  have "room s2 = room s" using R s1 fs_atD(3) [OF at] by (intro room_cong) simp_all
  then obtain i b where ib: "find_free_inode s2 = Some i" "find_free_block s2 = Some b" using c(2) by (auto simp: room_def)
  have i: "0 < i" "i < 64" "used (inode_at s2 i) = 0" using find_free_inodeD [OF ib(1)] by auto
  have di: "d \<noteq> i" using dir i R(5) by (auto simp: is_dir_def inode_at_def)
  define nd where "nd = fill_inode INODE_FILE b (tab ! i)"
  let ?n = "of_nat (data_len data) :: u32" and ?blk = "de_put (B d) slot i (path_rest path)"
    and ?content = "mem_copy zero_block 0 (case data of None \<Rightarrow> [] | Some d \<Rightarrow> d) (data_len data)"
  have nd': "nd = (fill_inode INODE_FILE b (tab ! i))\<lparr>isize := isize (tab ! i)\<rparr>" by (simp add: nd_def fill_inode_def)
  have d0: "direct0 nd \<noteq> 0"
    using fill_inode_ok(1) [OF fs_atD(1) [OF R(1)] R(5) disjI1 [OF ib(2)], where ty = INODE_FILE] i unfolding nd' by blast
  let ?s3 = "set_inode i nd (mark_block_used b s2)"
  obtain Y where Y: "fs_at K sec (tab[i := nd]) (B(i := Y)) ?s3"
    using alloc_at [OF R(1) disjI1 [OF ib(1)] disjI1 [OF ib(2)] _ nd'] by auto
  have len: "length tab = 64" by (rule fs_atD(6) [OF at])
  let ?tab = "tab[i := nd\<lparr>isize := ?n\<rparr>]"
  have s4: "fs_at K sec ?tab (B(i := Y)) (set_inode i (nd\<lparr>isize := ?n\<rparr>) ?s3)"
    using isize_at [OF Y i(2), of ?n] i(2) len by simp
  obtain s5 where s5: "disk_write_lba io (block_lba (set_inode i (nd\<lparr>isize := ?n\<rparr>) ?s3) d) ?blk 1 (set_inode i (nd\<lparr>isize := ?n\<rparr>) ?s3) = (True, s5)"
    "fs_at K sec ?tab (B(i := Y, d := ?blk)) s5"
    by (rule write_ok [OF s4 d'(1), of ?blk]) (use d'(2) di l in simp_all)
  obtain s6 where s6: "disk_write_lba io (block_lba s5 i) ?content 1 s5 = (True, s6)" "fs_at K sec ?tab (B(i := Y, d := ?blk, i := ?content)) s6"
    by (rule write_ok [OF s5(2) i(2), of ?content]) (use d0 i len in simp_all)
  obtain s7 where s7: "flush io s6 = (True, s7)" "fs_at K sec ?tab (B(i := Y, d := ?blk, i := ?content)) s7"
    by (rule flush_ok [OF s6(2)])
  have cf: "claim_file (B d) (path_rest path) None (Some slot) s2 = (Some (i, ?blk), ?s3)"
    by (simp add: claim_file_def ib R(5) nd_def)
  have i3: "inode_at ?s3 i = nd" using fs_atD(4) [OF Y, of i] i(2) len by simp
  have "write_file io d ?blk i data ?s3 = (True, s7)" by (simp add: write_file_def Let_def i3 s5 s6 s7)
  then have "fs_write_path io (Some path) data s = (True, s7)"
    using m p d'(2) fs_atD(4) [OF s1(2)] by (simp add: fs_write_path_def s1 s2 R sc cf)
  moreover have "blks sec s7 d = ?blk" using fs_atD(5) [OF s7(2)] di by simp
  ultimately show thesis by (rule that)
qed

end

text \<open>C24: \<^verbatim>\<open>fs_write_path\<close> checks the length of a file name only for files of the root. A new file of a
  directory whose name has more than 30 characters is accepted, and the rest of the name lands in the next
  entry: its used flag becomes the 31st character, its inode number the 32nd, whatever entry was there.
\<close>

theorem fs_write_path_spills:
  assumes "reliable_disk io sec ready" and "fs_consistent ready sec s" and "g_mounted s"
    and "has_sep path" and "\<not> is_empty path" and "31 \<le> str_len (path_rest path)"
    and "subdir_at sec s 0 (path_dir path) = Some d" and "file_at sec s d (path_rest path) = None"
    and "find_free_slot (blks sec s d) = Some slot" and "slot < 15" and "room s"
  shows "\<exists>s'. fs_write_path io (Some path) data s = (True, s') \<and>
    de_used (blks sec s' d) (slot + 1) \<and> byte_at (blks sec s' d) (32 * (slot + 1)) = byte_at (path_rest path) 30 \<and>
    (32 \<le> str_len (path_rest path) \<longrightarrow> de_inode (blks sec s' d) (slot + 1) = unat (byte_at (path_rest path) 31))"
proof -
  have e: "entry_of (g_inodes s) (blks sec s) INODE_DIR 0 (path_dir path) = Some d"
    "entry_of (g_inodes s) (blks sec s) INODE_FILE d (path_rest path) = None"
    using assms(7,8) by (simp_all add: subdir_at_def file_at_def file_view_None)
  have ne: "\<not> is_empty (path_rest path)" using assms(6) by (simp add: is_empty_len)
  obtain i s' where s': "fs_write_path io (Some path) data s = (True, s')"
    "blks sec s' d = de_put (blks sec s d) slot i (path_rest path)"
    by (rule reliable_fs.write_path_new [OF reliable_fsI(1) [OF assms(1)] consistentD [OF assms(2)] assms(3-5) ne e assms(9,11)])
  have l: "length (blks sec s d) = 512" using assms(2) by (simp add: fs_consistent_def tree_at_def tree_ok_def blocks_ok_def)
  note S = de_put_spills [OF l assms(10,6), of i, folded s'(2)]
  have "byte_at (path_rest path) 30 \<noteq> 0" using assms(6) by (intro str_len_byte) simp
  then show ?thesis using s'(1) S by (intro exI [of _ s']) (simp add: de_used_def de_inode_def)
qed

text \<open>\<^verbatim>\<open>d/\<close> and 32 letters.\<close>

definition demo_long :: "u8 list" where
  "demo_long = [100, 47] @ replicate 32 65"

lemma demo_long:
  "has_sep demo_long" "\<not> is_empty demo_long" "path_dir demo_long = [100]" "str_len (path_rest demo_long) = 32"
  "byte_at (path_rest demo_long) 31 = 65" "cstr (path_rest demo_long) \<noteq> [102]"
  by code_simp+

theorem fs_write_path_spills_witness:
  "\<exists>s'. fs_write_path ram_ops (Some demo_long) (Some [120]) demo_fs = (True, s') \<and>
     de_used (blks ram_sec s' 1) 1 \<and> de_inode (blks ram_sec s' 1) 1 = 65"
proof -
  have f: "find_free_slot (blks ram_sec demo_fs 1) = Some 0"
    by (simp add: demo_blks demo_blk_simps find_free_slot_def upt_conv_Cons zero_block_free)
  show ?thesis
    using fs_write_path_spills [OF ram.reliable_disk_axioms demo_consistent demo_fs_simps(3) demo_long(1,2) _ _ _ f _ demo_room(1), of "Some [120]"]
    by (auto simp: demo_long demo_at demo_tree demo_sub)
qed

end
