(* ===== verification/FsSysSpec.thy ===== *)
theory FsSysSpec
  imports FsPaths
begin

text \<open>
  What \<^verbatim>\<open>write_sys_file\<close> and \<^verbatim>\<open>read_sys_file\<close> do to the tree: the files of the directory \<^verbatim>\<open>sys\<close>, made on
  the first write. A fresh file system is filled from the low numbers up, which \<open>frontier\<close> counts, so
  that formatting can be shown to have room for all it creates.
\<close>

section \<open>Allocation below a frontier\<close>

text \<open>
  All inodes from \<open>k\<close> on and all blocks above \<open>k\<close> are free; allocation takes an inode up to \<open>k\<close> and
  a block up to \<open>k + 1\<close>.
\<close>

definition frontier :: "nat \<Rightarrow> 'd fs \<Rightarrow> bool" where
  "frontier k s \<longleftrightarrow> 0 < k \<and> (\<forall>i. k \<le> i \<and> i < 64 \<longrightarrow> used (inode_at s i) = 0) \<and>
     (\<forall>b. k < b \<longrightarrow> \<not> bm_used (g_bitmap s) b)"

lemma find_upto: "List.find P [a..<n] = Some i \<Longrightarrow> P k \<Longrightarrow> a \<le> k \<Longrightarrow> k < n \<Longrightarrow> i \<le> k"
proof (induction "n - a" arbitrary: a)
  case (Suc m)
  then show ?case
    using Suc.hyps(1) [of "Suc a"] by (cases "P a"; cases "a = k") (auto simp: upt_conv_Cons)
qed simp

lemma alloc_frontier:
  assumes "frontier k s" and "mem_inv s"
  shows "k < inode_limit s \<Longrightarrow> \<exists>i \<le> k. alloc_inode_raw s = Some i"
    and "Suc k < unat (block_count (g_sb s)) \<Longrightarrow> \<exists>b \<le> Suc k. alloc_block_raw s = Some b"
proof -
  assume k: "k < inode_limit s"
  then have "used (inode_at s k) = 0" "1 \<le> k"
    using assms inode_limit_le [of s] by (auto simp: frontier_def)
  then show "\<exists>i \<le> k. alloc_inode_raw s = Some i"
    using find_exists [of k "[1..<inode_limit s]"] k find_upto [of _ 1 "inode_limit s" _ k]
    unfolding alloc_inode_raw_def by fastforce
next
  assume k: "Suc k < unat (block_count (g_sb s))"
  then have "\<not> bm_used (g_bitmap s) (Suc k)" "1 \<le> k" "Suc k < block_limit s"
    using assms by (auto simp: frontier_def block_limit_eq)
  then show "\<exists>b \<le> Suc k. alloc_block_raw s = Some b"
    using find_exists [of "Suc k" "[1..<block_limit s]"] k find_upto [of _ 1 "block_limit s" _ "Suc k"]
    unfolding alloc_block_raw_def by fastforce
qed

text \<open>How many inodes and blocks there are.\<close>

definition capacity :: "'d fs \<Rightarrow> nat" where
  "capacity s = min (inode_limit s) (unat (block_count (g_sb s)) - 1)"

lemma capacity_cong: "fs_head s' = fs_head s \<Longrightarrow> capacity s' = capacity s"
  by (simp add: capacity_def inode_limit_def fs_head_def)

lemma frontier_alloc:
  assumes "frontier k s" and "mem_inv s" and "i \<le> k" "b \<le> Suc k" "b < unat (block_count (g_sb s))"
  shows "frontier (Suc k) (set_inode i nd (mark_block_used b s))"
  using assms by (auto simp: frontier_def set_inode_def mark_block_used_def inode_at_def mem_inv_def sb_inv_def bm_used_mark)

lemma frontier_cong: "g_inodes s' = g_inodes s \<Longrightarrow> g_bitmap s' = g_bitmap s \<Longrightarrow> frontier k s' = frontier k s"
  by (simp add: frontier_def inode_at_def)

lemma find_free_slot_has: "has_slot B d \<Longrightarrow> \<exists>e. find_free_slot (B d) = Some e \<and> e < 16 \<and> \<not> de_used (B d) e"
proof -
  assume "has_slot B d"
  then obtain e where "find_free_slot (B d) = Some e"
    using find_exists [of _ "[0..<16]" "\<lambda>e. \<not> de_used (B d) e"] unfolding has_slot_def find_free_slot_def set_upt by force
  then show ?thesis unfolding find_free_slot_def by (auto dest: find_eq_Some)
qed

section \<open>System files\<close>

lemma mem_get_copy: "n \<le> 512 \<Longrightarrow> mem_get (mem_copy zero_block 0 data n) n = mem_get data n"
  by (rule nth_equalityI) (simp_all add: mem_get_def byte_at_mem_copy)

text \<open>What writing a system file did to the state; the table of the state it started from is \<open>tab\<close>.\<close>

definition sys_done where
  "sys_done K sec s R tab B ok s' \<longleftrightarrow> ok \<and> synced sec s' \<and> fs_head s' = fs_head s \<and>
     (\<forall>k. frontier k s \<and> k < capacity s \<longrightarrow> frontier (Suc k) s') \<and> (\<exists>tab' B'. tree_at K sec tab' B' s' \<and> R tab B tab' B')"

lemma put_dirD:
  assumes "put_dir d name tab B tab' B'" and "is_dir tab d"
  shows "is_dir tab' d \<and> (\<exists>j. \<not> is_dir tab j \<and> is_dir tab' j \<and> entry_of tab' B' INODE_DIR d name = Some j)"
proof -
  obtain j where j: "\<not> is_dir tab j" "is_dir tab' j"
    "is_dir tab' d \<and> (\<forall>n. file_view tab' B' d n = file_view tab B d n) \<and>
     (\<forall>n. entry_of tab' B' INODE_DIR d n = (if d = d \<and> cstr n = cstr name then Some j else entry_of tab B INODE_DIR d n))"
    using assms unfolding put_dir_def by metis
  then show ?thesis by (intro conjI exI [of _ j]) simp_all
qed

lemma frontier_Suc: "frontier k s \<Longrightarrow> frontier (Suc k) s"
  by (simp add: frontier_def)

context reliable_fs
begin

text \<open>The second half of \<^verbatim>\<open>write_sys_file\<close>, after the entry has been found or made.\<close>

lemma sys_commit:
  fixes data :: "u8 list"
  assumes at: "fs_at K sec tab' B1 s1" and d: "is_dir tab' d" and l: "length blk = 512" and i: "i < 64" "direct0 (tab' ! i) \<noteq> 0"
    and n: "n \<le> 512"
    and h: "fs_head s1 = fs_head s" and fr: "\<And>k. frontier k s \<Longrightarrow> k < capacity s \<Longrightarrow> frontier (Suc k) s1"
  defines "content \<equiv> mem_copy zero_block 0 data n"
  assumes fin: "tree_ok tab' (B1(d := blk, i := content))" "is_dir tab' 0" "R tab B tab' (B1(d := blk, i := content))"
  shows "post (sys_done K sec s R tab B)
    (case disk_write_lba io (block_lba s1 d) blk 1 s1 of (ok, s) \<Rightarrow> if \<not> ok then (False, s) else
     case disk_write_lba io (block_lba s i) content 1 s of (ok, s) \<Rightarrow> if \<not> ok then (False, s) else flush io s)"
proof (rule post_write_at [OF at refl])
  fix s2 assume s2: "fs_at K sec tab' (B1(d := blk)) s2" "fs_head s2 = fs_head s1" "g_bitmap s2 = g_bitmap s1"
  show "post (sys_done K sec s R tab B) (if \<not> True then (False, s2) else
      case disk_write_lba io (block_lba s2 i) content 1 s2 of (ok, s) \<Rightarrow> if \<not> ok then (False, s) else flush io s)"
    unfolding not_True_eq_False if_False
  proof (rule post_write_at [OF s2(1) refl])
    fix s3 assume s3: "fs_at K sec tab' (B1(d := blk, i := content)) s3" "fs_head s3 = fs_head s2" "g_bitmap s3 = g_bitmap s2"
    have "frontier k s' = frontier k s1" if "fs_at K sec tab' (B1(d := blk, i := content)) s'" "g_bitmap s' = g_bitmap s3" for s' k
      using that s2(3) s3(3) fs_atD(3) [OF at] fs_atD(3) [OF that(1)] by (intro frontier_cong) simp_all
    then show "post (sys_done K sec s R tab B) (if \<not> True then (False, s3) else flush io s3)"
      unfolding not_True_eq_False if_False
      by (intro flush_at [OF s3(1)]) (use fin fr h s2 s3 in \<open>auto simp: sys_done_def tree_at_def\<close>)
  qed (use i in \<open>simp_all add: content_def\<close>)
qed (use d l in \<open>auto simp: is_dir_def\<close>)

lemma sys_file_step:
  assumes a: "tree_at K sec tab B s0" and at: "fs_at K sec tab B s" and d: "is_dir tab d"
    and n: "str_len name < 30" "unat len \<le> 512"
    and c: "entry_of tab B INODE_FILE d name \<noteq> None \<or> has_slot B d \<and> alloc_inode_raw s \<noteq> None \<and> alloc_block_raw s \<noteq> None"
  shows "post (sys_done K sec s (put_file d name (mem_get data (unat len))) tab B)
    (case sys_file_for_write name len (B d) s of (r, s) \<Rightarrow>
      case r of None \<Rightarrow> (False, s) | Some (file_inode, sys_blk) \<Rightarrow>
      case disk_write_lba io (block_lba s d) sys_blk 1 s of (ok, s) \<Rightarrow> if \<not> ok then (False, s) else
      case disk_write_lba io (block_lba s file_inode) (mem_copy zero_block 0 data (unat len)) 1 s of
        (ok, s) \<Rightarrow> if \<not> ok then (False, s) else flush io s)"
proof -
  have t: "tree_ok tab B" and r: "is_dir tab 0" using a by (auto simp: tree_at_def)
  have l: "length (B d) = 512" using t by (auto simp: tree_ok_def blocks_ok_def)
  note A = fs_atD [OF at]
  let ?c = "mem_copy zero_block 0 data (unat len)" and ?R = "put_file d name (mem_get data (unat len))"
  have cont: "mem_get ?c (unat len) = mem_get data (unat len)" by (rule mem_get_copy [OF n(2)])
  show ?thesis
  proof (cases "find_dir_entry name (B d) tab INODE_FILE")
    case (Some e)
    let ?i = "de_inode (B d) e"
    let ?nd = "(tab ! ?i)\<lparr>isize := len\<rparr>"
    have e: "entry_of tab B INODE_FILE d name = Some ?i" by (simp add: entry_of_def Some)
    note live = live_block [OF at t d e, simplified]
    note W = tree_write [OF t d A(6) _ e, where X = ?c and sz = len]
    have at1: "fs_at K sec (tab[?i := ?nd]) B (set_inode ?i ?nd s)" by (rule isize_at [OF at live(1)])
    have fr1: "frontier (Suc k) (set_inode ?i ?nd s)" if "frontier k s" for k
      using that entry_of_live(3) [OF t d _ e] A(3,4,6) live(1) unfolding frontier_def set_inode_def inode_at_def
      by (auto simp: nth_list_update)
    have "tree_ok (tab[?i := ?nd]) (B(d := B d, ?i := ?c))" "?R tab B (tab[?i := ?nd]) (B(d := B d, ?i := ?c))"
      "is_dir (tab[?i := ?nd]) d" "is_dir (tab[?i := ?nd]) 0" "direct0 (tab[?i := ?nd] ! ?i) \<noteq> 0"
      using W d r live A(6) by (simp_all add: put_file_def cont)
    then have "post (sys_done K sec s ?R tab B)
      (case disk_write_lba io (block_lba (set_inode ?i ?nd s) d) (B d) 1 (set_inode ?i ?nd s) of
        (ok, s) \<Rightarrow> if \<not> ok then (False, s) else
       case disk_write_lba io (block_lba s ?i) ?c 1 s of (ok, s) \<Rightarrow> if \<not> ok then (False, s) else flush io s)"
      by (intro sys_commit [OF at1 _ l live(1) _ n(2) _ fr1]) (simp_all add: fs_head_def set_inode_def)
    then show ?thesis
      using live(1) A(4) by (simp add: sys_file_for_write_def A(3) Some Let_def)
  next
    case None
    then have e: "entry_of tab B INODE_FILE d name = None" by (simp add: entry_of_def)
    with c obtain slot i b where sl: "find_free_slot (B d) = Some slot" "slot < 16" "\<not> de_used (B d) slot"
      and fi: "alloc_inode_raw s = Some i" and fb: "alloc_block_raw s = Some b"
      using find_free_slot_has [of B d] by auto
    note i = alloc_inode_rawD [OF fi]
    let ?nd = "(fill_inode INODE_FILE b (inode_at (mark_block_used b s) i))\<lparr>isize := len\<rparr>"
    let ?s1 = "set_inode i ?nd (mark_block_used b s)"
    have nd: "?nd = (fill_inode INODE_FILE b (tab ! i))\<lparr>isize := len\<rparr>" by (simp add: A(4))
    note d0 = fill_inode_ok(1) [OF A(1) A(4) disjI2 [OF fb], of i, where ty = INODE_FILE and n = len, folded nd]
    obtain X where X: "length X = 512" "fs_at K sec (tab[i := ?nd]) (B(i := X)) ?s1"
      using alloc_at [OF at disjI2 [OF fi] disjI2 [OF fb] _ nd] by auto
    have di: "d \<noteq> i" using d i A(4) by (auto simp: is_dir_def)
    have P: "tree_ok (tab[i := ?nd]) (B(i := ?c, d := de_put (B d) slot i name))"
      "?R tab B (tab[i := ?nd]) (B(i := ?c, d := de_put (B d) slot i name))"
      using put_file_add [OF t d sl(2,3) _ _ A(6) _ _ _ _ n(1) e, of i ?nd ?c] i A(4) new_inode_fields
      by (auto simp: cont)
    have eq: "(B(i := X))(d := de_put (B d) slot i name, i := ?c) = B(i := ?c, d := de_put (B d) slot i name)"
      using di by (auto simp: fun_eq_iff)
    have fr1: "frontier (Suc k) ?s1" if "frontier k s" "k < capacity s" for k
      using frontier_alloc [OF that(1) A(2)] alloc_frontier [OF that(1) A(2)] that(2) fi fb alloc_block_rawD [OF fb A(2)]
      by (auto simp: capacity_def)
    have "post (sys_done K sec s ?R tab B)
      (case disk_write_lba io (block_lba ?s1 d) (de_put (B d) slot i name) 1 ?s1 of (ok, s) \<Rightarrow> if \<not> ok then (False, s) else
       case disk_write_lba io (block_lba s i) ?c 1 s of (ok, s) \<Rightarrow> if \<not> ok then (False, s) else flush io s)"
    proof (rule sys_commit [OF X(2) _ _ _ _ n(2) _ fr1])
      show "tree_ok (tab[i := ?nd]) ((B(i := X))(d := de_put (B d) slot i name, i := ?c))"
        "?R tab B (tab[i := ?nd]) ((B(i := X))(d := de_put (B d) slot i name, i := ?c))"
        unfolding eq by (rule P)+
      show "is_dir (tab[i := ?nd]) d" "is_dir (tab[i := ?nd]) 0" using P(2) d r by (simp_all add: put_file_def)
    qed (use l i d0 A(6) in \<open>simp_all add: fs_head_def set_inode_def mark_block_used_def\<close>)
    then show ?thesis
      by (simp add: sys_file_for_write_def A(3) None fi fb sl)
  qed
qed

text \<open>The first half of \<^verbatim>\<open>write_sys_file\<close>: the directory \<^verbatim>\<open>sys\<close> is there or is made.\<close>

lemma sys_dir_step:
  assumes a: "tree_at K sec tab B s" and at: "fs_at K sec tab B s'"
    and h: "fs_head s' = fs_head s" "g_bitmap s' = g_bitmap s"
    and c: "entry_of tab B INODE_DIR 0 sys_name \<noteq> None \<or>
      has_slot B 0 \<and> alloc_inode_raw s \<noteq> None \<and> alloc_block_raw s \<noteq> None"
    and f: "\<And>s1 tab' B' d. tree_at K sec tab' B' s1 \<Longrightarrow> fs_head s1 = fs_head s \<Longrightarrow>
      entry_of tab' B' INODE_DIR 0 sys_name = Some d \<Longrightarrow>
      tab' = tab \<and> B' = B \<and> g_bitmap s1 = g_bitmap s \<or>
      entry_of tab B INODE_DIR 0 sys_name = None \<and> put_dir 0 sys_name tab B tab' B' \<and> has_slot B' d \<and>
        (\<forall>k. frontier k s \<and> k < capacity s \<longrightarrow> frontier (Suc k) s1) \<Longrightarrow> post Q (f d s1)"
  shows "post Q (case sys_dir_for_write io (B 0) s' of (r, s) \<Rightarrow>
      case r of None \<Rightarrow> (False, s) | Some (d, blk) \<Rightarrow>
      case disk_write_lba io (block_lba s 0) blk 1 s of (ok, s) \<Rightarrow> if \<not> ok then (False, s) else f d s)"
proof -
  have t: "tree_ok tab B" and r: "is_dir tab 0" using a by (auto simp: tree_at_def)
  have l: "length (B 0) = 512" using t by (auto simp: tree_ok_def blocks_ok_def)
  have r0: "direct0 (tab ! 0) \<noteq> 0" using r by (simp add: is_dir_def)
  have n: "str_len sys_name < 30" by (simp add: sys_name_def)
  have ng: "g_inodes s' = g_inodes s"
    using a fs_atD(3) [OF at] by (simp add: tree_at_def fs_at_def)
  note A = fs_atD [OF at]
  show ?thesis
  proof (cases "find_dir_entry sys_name (B 0) tab INODE_DIR")
    case (Some e)
    let ?d = "de_inode (B 0) e"
    have e: "entry_of tab B INODE_DIR 0 sys_name = Some ?d" by (simp add: entry_of_def Some)
    have d: "is_dir tab ?d" by (rule subdir_at [OF a e])
    have "sys_dir_for_write io (B 0) s' = (Some (?d, B 0), s')"
      using d A(3,4) by (simp add: sys_dir_for_write_def Some Let_def is_dir_def)
    moreover have "post Q (case disk_write_lba io (block_lba s' 0) (B 0) 1 s' of (ok, s) \<Rightarrow> if \<not> ok then (False, s) else f ?d s)"
    proof (rule post_write_at [OF at refl])
      fix s1 assume "fs_at K sec tab (B(0 := B 0)) s1" "fs_head s1 = fs_head s'" "g_bitmap s1 = g_bitmap s'"
      then show "post Q (if \<not> True then (False, s1) else f ?d s1)"
        using f [of tab B s1 ?d] t r e h by (simp add: tree_at_def)
    qed (use l r0 in simp_all)
    ultimately show ?thesis by simp
  next
    case None
    then have e: "entry_of tab B INODE_DIR 0 sys_name = None" by (simp add: entry_of_def)
    with c obtain slot i b where sl: "find_free_slot (B 0) = Some slot" "slot < 16" "\<not> de_used (B 0) slot"
      and fi0: "alloc_inode_raw s = Some i" and fb0: "alloc_block_raw s = Some b"
      using find_free_slot_has [of B 0] by auto
    have fi: "alloc_inode_raw s' = Some i" and fb: "alloc_block_raw s' = Some b"
      using fi0 fb0 find_free_cong(2,4) [OF h(1)] ng h(2) by simp_all
    note i = alloc_inode_rawD [OF fi]
    let ?nd = "(fill_inode INODE_DIR b (inode_at (mark_block_used b s') i))\<lparr>isize := 0\<rparr>"
    let ?s1 = "set_inode i ?nd (mark_block_used b s')"
    let ?tab = "tab[i := ?nd]" and ?B = "B(i := zero_block, 0 := de_put (B 0) slot i sys_name)"
    have nd: "?nd = (fill_inode INODE_DIR b (tab ! i))\<lparr>isize := 0\<rparr>" by (simp add: A(4))
    note d0 = fill_inode_ok(1) [OF A(1) A(4) disjI2 [OF fb], of i, where ty = INODE_DIR and n = 0, folded nd]
    obtain X where X: "length X = 512" "fs_at K sec ?tab (B(i := X)) ?s1"
      using alloc_at [OF at disjI2 [OF fi] disjI2 [OF fb] _ nd] by auto
    have P: "tree_ok ?tab ?B" "put_dir 0 sys_name tab B ?tab ?B"
      using put_dir_add [OF t r sl(2,3) i [THEN conjunct1] i [THEN conjunct2, THEN conjunct1] A(6) _ _ _ d0 n e] i A(4)
        new_inode_fields by (auto simp: nd)
    obtain j where j: "\<not> is_dir tab j" "is_dir ?tab j" "entry_of ?tab ?B INODE_DIR 0 sys_name = Some j"
      and r': "is_dir ?tab 0"
      using put_dirD [OF P(2) r] by blast
    have ji: "j = i" using j(1,2) by (cases "j = i") (auto simp: is_dir_def)
    have sd: "sys_dir_for_write io (B 0) s' = (case disk_write_lba io (block_lba ?s1 i) zero_block 1 ?s1 of (ok, s) \<Rightarrow>
        if \<not> ok then (None, s) else (Some (i, de_put (B 0) slot i sys_name), s))"
      by (simp add: sys_dir_for_write_def A(3) None fi fb sl Let_def)
    have fr: "frontier (Suc k) s2" if "frontier k s" "k < capacity s" "fs_at K sec ?tab B2 s2" "g_bitmap s2 = g_bitmap ?s1" for k s2 B2
    proof -
      have "frontier k s'" using that(1) frontier_cong [OF ng h(2)] by simp
      moreover have "i \<le> k" "b \<le> Suc k" "b < unat (block_count (g_sb s'))"
        using alloc_frontier [OF calculation A(2)] that(2) fi fb alloc_block_rawD [OF fb A(2)] capacity_cong [OF h(1)]
        by (auto simp: capacity_def)
      ultimately have "frontier (Suc k) ?s1" using frontier_alloc [OF _ A(2)] by blast
      then show ?thesis
        using frontier_cong [of s2 ?s1 "Suc k"] fs_atD(3) [OF that(3)] fs_atD(3) [OF X(2)] that(4) by simp
    qed
    show ?thesis
      unfolding sd
    proof (rule write_at [OF X(2) refl, where P = "\<lambda>x. post Q (case x of (r, s) \<Rightarrow>
        case r of None \<Rightarrow> (False, s) | Some (d, blk) \<Rightarrow>
        case disk_write_lba io (block_lba s 0) blk 1 s of (ok, s) \<Rightarrow> if \<not> ok then (False, s) else f d s)"])
      fix s2 assume s2: "fs_at K sec ?tab ((B(i := X))(i := zero_block)) s2" "fs_head s2 = fs_head ?s1" "g_bitmap s2 = g_bitmap ?s1"
      then have s2': "fs_at K sec ?tab (B(i := zero_block)) s2" by simp
      have "post Q (case disk_write_lba io (block_lba s2 0) (de_put (B 0) slot i sys_name) 1 s2 of (ok, s) \<Rightarrow>
          if \<not> ok then (False, s) else f i s)"
      proof (rule post_write_at [OF s2' refl])
        fix s3 assume s3: "fs_at K sec ?tab ?B s3" "fs_head s3 = fs_head s2" "g_bitmap s3 = g_bitmap s2"
        have "i \<noteq> 0" using i by simp
        then have "has_slot ?B i" by (auto simp: has_slot_def zero_block_free intro!: exI [of _ 0])
        then show "post Q (if \<not> True then (False, s3) else f i s3)"
          using f [of ?tab ?B s3 i] s2(2,3) s3 P r' j(3) ji e h fr [OF _ _ s3(1)]
          by (simp add: tree_at_def fs_head_def set_inode_def mark_block_used_def)
      qed (use l r' in \<open>simp_all add: is_dir_def\<close>)
      then show "post Q (case if \<not> True then (None, s2) else (Some (i, de_put (B 0) slot i sys_name), s2) of (r, s) \<Rightarrow>
        case r of None \<Rightarrow> (False, s) | Some (d, blk) \<Rightarrow>
        case disk_write_lba io (block_lba s 0) blk 1 s of (ok, s) \<Rightarrow> if \<not> ok then (False, s) else f d s)"
        by simp
    qed (use i d0 A(6) in simp_all)
  qed
qed

end

text \<open>A directory with at most one file and no directory has a free slot.\<close>

lemma few_files_slot:
  assumes at: "fs_at K sec tab B s" and t: "tree_ok tab B" and d: "is_dir tab d"
    and dirs: "\<And>n. entry_of tab B INODE_DIR d n = None"
    and files: "\<And>n. entry_of tab B INODE_FILE d n \<noteq> None \<Longrightarrow> cstr n = c"
  shows "has_slot B d"
proof (rule ccontr)
  assume "\<not> has_slot B d"
  then have u: "slot_used tab B d 0" "slot_used tab B d 1" using d by (auto simp: has_slot_def slot_used_def)
  have lk: "links_ok tab (ent tab B)" using t by (simp add: tree_ok_def)
  have E: "ent tab B (d, e) = Some (c, de_inode (B d) e) \<and> itype (tab ! de_inode (B d) e) = INODE_FILE"
    if "slot_used tab B d e" for e
  proof -
    let ?n = "cstr (de_name (B d) e)" and ?i = "de_inode (B d) e"
    have m: "ent tab B (d, e) = Some (?n, ?i)" using that by (simp add: ent_Some)
    note live = links_okD(2,3) [OF lk m]
    then have "itype (tab ! ?i) \<in> {INODE_FILE, INODE_DIR}"
      using fs_atD(2,3) [OF at] unfolding mem_inv_def tab_inv_def by simp
    moreover have "entry_of tab B ty d ?n = Some ?i" if "itype (tab ! ?i) = ty" "ty \<noteq> 0" for ty
      using m that entry_of_iff [OF lk d that(2), of ?n ?i] by auto
    ultimately show ?thesis using m dirs [of ?n] files [of ?n] by auto
  qed
  show False using links_okD(5) [OF lk E [OF u(1), THEN conjunct1] E [OF u(2), THEN conjunct1]] E [OF u(1)] E [OF u(2)] by simp
qed

context reliable_fs
begin

lemma write_sys_split:
  assumes a: "tree_at K sec tab B s" and n: "unat len \<le> 512"
    and c: "entry_of tab B INODE_DIR 0 sys_name \<noteq> None \<or>
      has_slot B 0 \<and> alloc_inode_raw s \<noteq> None \<and> alloc_block_raw s \<noteq> None"
    and f: "\<And>s1 tab' B' d s2. tree_at K sec tab' B' s1 \<Longrightarrow> fs_at K sec tab' B' s2 \<Longrightarrow>
      fs_head s1 = fs_head s \<Longrightarrow> fs_head s2 = fs_head s1 \<Longrightarrow> g_bitmap s2 = g_bitmap s1 \<Longrightarrow>
      entry_of tab' B' INODE_DIR 0 sys_name = Some d \<Longrightarrow> is_dir tab' d \<Longrightarrow>
      tab' = tab \<and> B' = B \<and> g_bitmap s1 = g_bitmap s \<or>
      entry_of tab B INODE_DIR 0 sys_name = None \<and> put_dir 0 sys_name tab B tab' B' \<and> has_slot B' d \<and>
        (\<forall>k. frontier k s \<and> k < capacity s \<longrightarrow> frontier (Suc k) s1) \<Longrightarrow>
      post Q (case sys_file_for_write name len (B' d) s2 of (r, s) \<Rightarrow>
      case r of None \<Rightarrow> (False, s) | Some (file_inode, sys_blk) \<Rightarrow>
      case disk_write_lba io (block_lba s d) sys_blk 1 s of (ok, s) \<Rightarrow> if \<not> ok then (False, s) else
      case disk_write_lba io (block_lba s file_inode) (mem_copy zero_block 0 data (unat len)) 1 s of
        (ok, s) \<Rightarrow> if \<not> ok then (False, s) else flush io s)"
  shows "post Q (write_sys_file io name data len s)"
proof -
  have at: "fs_at K sec tab B s" and r: "is_dir tab 0" using a by (auto simp: tree_at_def)
  have rd: "read_root_dir_block io s = disk_read_lba io (block_lba s 0) 1 s"
    using r fs_atD(4) [OF at] by (simp add: read_root_dir_block_def is_dir_def)
  have wl: "(if unat len < 512 then unat len else 512) = unat len" using n by auto
  show ?thesis
    unfolding write_sys_file_def Let_def ensure_root_at [OF at r] prod.case not_True_eq_False if_False rd wl
  proof (rule post_read_at [OF at refl])
    fix s0 assume s0: "fs_at K sec tab B s0" "fs_head s0 = fs_head s" "g_bitmap s0 = g_bitmap s"
    show "post Q (if \<not> True then (False, s0) else case sys_dir_for_write io (B 0) s0 of (r, s) \<Rightarrow>
      case r of None \<Rightarrow> (False, s) | Some (sys_inode, root_blk) \<Rightarrow>
      case disk_write_lba io (block_lba s 0) root_blk 1 s of (ok, s) \<Rightarrow> if \<not> ok then (False, s) else
      case disk_read_lba io (block_lba s sys_inode) 1 s of (ok, sys_blk, s) \<Rightarrow> if \<not> ok then (False, s) else
      case sys_file_for_write name len sys_blk s of (r, s) \<Rightarrow>
      case r of None \<Rightarrow> (False, s) | Some (file_inode, sys_blk) \<Rightarrow>
      case disk_write_lba io (block_lba s sys_inode) sys_blk 1 s of (ok, s) \<Rightarrow> if \<not> ok then (False, s) else
      case disk_write_lba io (block_lba s file_inode) (mem_copy zero_block 0 data (unat len)) 1 s of
        (ok, s) \<Rightarrow> if \<not> ok then (False, s) else flush io s)"
      unfolding not_True_eq_False if_False
    proof (rule sys_dir_step [OF a s0 c])
      fix s1 tab' B' d
      assume s1: "tree_at K sec tab' B' s1" "fs_head s1 = fs_head s" "entry_of tab' B' INODE_DIR 0 sys_name = Some d"
        and q: "tab' = tab \<and> B' = B \<and> g_bitmap s1 = g_bitmap s \<or>
          entry_of tab B INODE_DIR 0 sys_name = None \<and> put_dir 0 sys_name tab B tab' B' \<and> has_slot B' d \<and>
          (\<forall>k. frontier k s \<and> k < capacity s \<longrightarrow> frontier (Suc k) s1)"
      have d: "is_dir tab' d" by (rule subdir_at [OF s1(1,3)])
      have at1: "fs_at K sec tab' B' s1" using s1(1) by (simp add: tree_at_def)
      show "post Q (case disk_read_lba io (block_lba s1 d) 1 s1 of (ok, sys_blk, s) \<Rightarrow> if \<not> ok then (False, s) else
        case sys_file_for_write name len sys_blk s of (r, s) \<Rightarrow>
        case r of None \<Rightarrow> (False, s) | Some (file_inode, sys_blk) \<Rightarrow>
        case disk_write_lba io (block_lba s d) sys_blk 1 s of (ok, s) \<Rightarrow> if \<not> ok then (False, s) else
        case disk_write_lba io (block_lba s file_inode) (mem_copy zero_block 0 data (unat len)) 1 s of
          (ok, s) \<Rightarrow> if \<not> ok then (False, s) else flush io s)"
        by (rule post_read_at [OF at1 refl], use d in \<open>simp add: is_dir_def\<close>, unfold not_True_eq_False if_False,
          rule f [OF s1(1) _ s1(2) _ _ s1(3) d q])
    qed
  qed simp
qed

text \<open>Writing a file of the system directory.\<close>

lemma write_sys_existing:
  assumes a: "tree_at K sec tab B s" and e: "entry_of tab B INODE_DIR 0 sys_name = Some d"
    and n: "str_len name < 30" "unat len \<le> 512"
    and c: "entry_of tab B INODE_FILE d name \<noteq> None \<or> has_slot B d \<and> alloc_inode_raw s \<noteq> None \<and> alloc_block_raw s \<noteq> None"
  shows "post (sys_done K sec s (put_file d name (mem_get data (unat len))) tab B) (write_sys_file io name data len s)"
proof (rule write_sys_split [OF a n(2)])
  fix s1 tab' B' d' s2
  assume s1: "tree_at K sec tab' B' s1" and s2: "fs_at K sec tab' B' s2" "fs_head s1 = fs_head s" "fs_head s2 = fs_head s1"
    "g_bitmap s2 = g_bitmap s1"
    and d': "entry_of tab' B' INODE_DIR 0 sys_name = Some d'" "is_dir tab' d'"
    and q: "tab' = tab \<and> B' = B \<and> g_bitmap s1 = g_bitmap s \<or>
      entry_of tab B INODE_DIR 0 sys_name = None \<and> put_dir 0 sys_name tab B tab' B' \<and> has_slot B' d' \<and>
        (\<forall>k. frontier k s \<and> k < capacity s \<longrightarrow> frontier (Suc k) s1)"
  have eq: "tab' = tab" "B' = B" "g_bitmap s1 = g_bitmap s" using q e by auto
  have dd: "d' = d" using e d'(1) eq by simp
  have g: "g_inodes s2 = g_inodes s" using fs_atD(3) [OF s2(1)] a eq by (simp add: tree_at_def fs_at_def)
  have al: "alloc_inode_raw s2 = alloc_inode_raw s" "alloc_block_raw s2 = alloc_block_raw s"
    using find_free_cong(2,4) [of s2 s] s2 g eq by simp_all
  have P: "sys_done K sec s2 R tab B = sys_done K sec s R tab B" for R
    using s2(2,3) eq s2(4) frontier_cong [OF g] capacity_cong [of s2 s] by (simp add: sys_done_def fun_eq_iff)
  show "post (sys_done K sec s (put_file d name (mem_get data (unat len))) tab B)
    (case sys_file_for_write name len (B' d') s2 of (r, s) \<Rightarrow>
      case r of None \<Rightarrow> (False, s) | Some (file_inode, sys_blk) \<Rightarrow>
      case disk_write_lba io (block_lba s d') sys_blk 1 s of (ok, s) \<Rightarrow> if \<not> ok then (False, s) else
      case disk_write_lba io (block_lba s file_inode) (mem_copy zero_block 0 data (unat len)) 1 s of
        (ok, s) \<Rightarrow> if \<not> ok then (False, s) else flush io s)"
    using sys_file_step [OF a s2(1) [unfolded eq] _ n, of d data] d'(2) c al unfolding eq dd P [symmetric] by simp
qed (use e in simp)

text \<open>The first write to it, below the frontier.\<close>

lemma write_sys_fresh:
  assumes a: "tree_at K sec tab B s" and e: "entry_of tab B INODE_DIR 0 sys_name = None"
    and n: "str_len name < 30" "unat len \<le> 512" and r: "has_slot B 0"
    and fr: "frontier k s" "Suc k < capacity s"
  shows "post (\<lambda>ok s'. ok \<and> synced sec s' \<and> fs_head s' = fs_head s \<and> frontier (Suc (Suc k)) s' \<and>
      (\<exists>tab1 B1 d tab2 B2. put_dir 0 sys_name tab B tab1 B1 \<and> entry_of tab1 B1 INODE_DIR 0 sys_name = Some d \<and>
         is_dir tab1 d \<and> put_file d name (mem_get data (unat len)) tab1 B1 tab2 B2 \<and> tree_at K sec tab2 B2 s'))
    (write_sys_file io name data len s)" (is "post ?Q _")
proof (rule write_sys_split [OF a n(2)])
  have m: "mem_inv s" using a fs_atD(2) by (auto simp: tree_at_def)
  moreover have "k < inode_limit s" "Suc k < unat (block_count (g_sb s))" using fr(2) unfolding capacity_def by linarith+
  ultimately show "entry_of tab B INODE_DIR 0 sys_name \<noteq> None \<or> has_slot B 0 \<and> alloc_inode_raw s \<noteq> None \<and> alloc_block_raw s \<noteq> None"
    using alloc_frontier [OF fr(1) m] r by auto
  fix s1 tab' B' d' s2
  assume s1: "tree_at K sec tab' B' s1" and s2: "fs_at K sec tab' B' s2" "fs_head s1 = fs_head s" "fs_head s2 = fs_head s1"
    "g_bitmap s2 = g_bitmap s1"
    and d': "entry_of tab' B' INODE_DIR 0 sys_name = Some d'" "is_dir tab' d'"
    and q: "tab' = tab \<and> B' = B \<and> g_bitmap s1 = g_bitmap s \<or>
      entry_of tab B INODE_DIR 0 sys_name = None \<and> put_dir 0 sys_name tab B tab' B' \<and> has_slot B' d' \<and>
        (\<forall>k. frontier k s \<and> k < capacity s \<longrightarrow> frontier (Suc k) s1)"
  have q': "put_dir 0 sys_name tab B tab' B'" "has_slot B' d'" "frontier (Suc k) s1" using q e d'(1) fr by auto
  have g: "g_inodes s2 = g_inodes s1" using fs_atD(3) [OF s2(1)] s1 by (simp add: tree_at_def fs_at_def)
  have fr2: "frontier (Suc k) s2" using q'(3) frontier_cong [OF g s2(4)] by simp
  have cap: "capacity s2 = capacity s" using capacity_cong [of s2 s] s2 by simp
  have al: "alloc_inode_raw s2 \<noteq> None" "alloc_block_raw s2 \<noteq> None"
    using alloc_frontier [OF fr2 fs_atD(2) [OF s2(1)]] fr(2) cap by (fastforce simp: capacity_def)+
  note S = sys_file_step [OF s1 s2(1) d'(2) n, of data]
  have "post (sys_done K sec s2 (put_file d' name (mem_get data (unat len))) tab' B')
    (case sys_file_for_write name len (B' d') s2 of (r, s) \<Rightarrow>
      case r of None \<Rightarrow> (False, s) | Some (file_inode, sys_blk) \<Rightarrow>
      case disk_write_lba io (block_lba s d') sys_blk 1 s of (ok, s) \<Rightarrow> if \<not> ok then (False, s) else
      case disk_write_lba io (block_lba s file_inode) (mem_copy zero_block 0 data (unat len)) 1 s of
        (ok, s) \<Rightarrow> if \<not> ok then (False, s) else flush io s)"
    using S al q'(2) by blast
  then show "post ?Q
    (case sys_file_for_write name len (B' d') s2 of (r, s) \<Rightarrow>
      case r of None \<Rightarrow> (False, s) | Some (file_inode, sys_blk) \<Rightarrow>
      case disk_write_lba io (block_lba s d') sys_blk 1 s of (ok, s) \<Rightarrow> if \<not> ok then (False, s) else
      case disk_write_lba io (block_lba s file_inode) (mem_copy zero_block 0 data (unat len)) 1 s of
        (ok, s) \<Rightarrow> if \<not> ok then (False, s) else flush io s)"
    by (rule post_mono) (use q' d' s2 fr2 fr(2) cap in \<open>auto simp: sys_done_def intro!: exI\<close>)
qed

end

end
