(* ===== verification/FsFormat.thy ===== *)
theory FsFormat
  imports FsSysSpec
begin

text \<open>
  Formatting a reliable disk, step by step: an empty root, the superblock and the tables, then the
  directory \<^verbatim>\<open>sys\<close> with the status flag and the hash of the default password.
\<close>

sublocale reliable_disk \<subseteq> rsuper: reliable_fs io sec ready "super_synced ready sec"
  by unfold_locales (auto simp: super_synced_def)

section \<open>The tree after formatting\<close>

definition fresh_tab :: "inode list" where
  "fresh_tab = (replicate 64 zero_inode)[0 := zero_inode\<lparr>used := 1, itype := INODE_DIR, links := 1\<rparr>]"

lemma fresh_tab_nth:
  "i < 64 \<Longrightarrow> fresh_tab ! i = (if i = 0 then zero_inode\<lparr>used := 1, itype := INODE_DIR, links := 1\<rparr> else zero_inode)"
  using nth_list_update [of 0 "replicate 64 zero_inode" _ i] by (simp add: fresh_tab_def)

lemma length_fresh_tab [simp]: "length fresh_tab = 64"
  by (simp add: fresh_tab_def)

text \<open>A tree that consists of its empty root.\<close>

definition only_root :: "inode list \<Rightarrow> (nat \<Rightarrow> u8 list) \<Rightarrow> bool" where
  "only_root tab B \<longleftrightarrow> (\<forall>d. is_dir tab d \<longleftrightarrow> d = 0) \<and> B 0 = zero_block"

lemma only_root_tree:
  assumes "only_root tab B" "\<And>i. length (B i) = 512"
  shows "tree_ok tab B"
proof -
  have no: "\<not> slot_used tab B d e" for d e
    using assms(1) zero_block_free by (auto simp: slot_used_def only_root_def)
  then have "ent tab B = (\<lambda>_. None)" by (auto simp: ent_def fun_eq_iff)
  with no assms(2) show ?thesis by (simp add: tree_ok_def blocks_ok_def links_ok_def)
qed

context reliable_disk
begin

lemma ensure_fresh_root:
  assumes ok: "fs_ok (\<lambda>_. ready) s" and tab: "g_inodes s = fresh_tab" and bm: "\<And>b. \<not> bm_used (g_bitmap s) b"
    and c: "1 < unat (block_count (g_sb s))"
    and f: "\<And>s' tab B. tree_at (\<lambda>_. ready) sec tab B s' \<Longrightarrow> fs_head s' = fs_head s \<Longrightarrow> frontier 1 s' \<Longrightarrow>
      only_root tab B \<Longrightarrow> post Q (f True s')"
  shows "post Q (case ensure_root_dir_block io s of (ok, s) \<Rightarrow> f ok s)"
proof -
  have m: "mem_inv s" using ok by simp
  have r: "inode_at s 0 = zero_inode\<lparr>used := 1, itype := INODE_DIR, links := 1\<rparr>"
    by (simp add: inode_at_def tab fresh_tab_nth)
  have d0: "direct0 (inode_at s 0) = 0" by (simp add: r direct0_def zero_inode_def)
  have find: "List.find (\<lambda>i. \<not> bm_used (g_bitmap s) i) [1..<block_limit s] = Some 1"
    using c bm by (simp add: block_limit_eq [OF m] upt_conv_Cons)
  let ?nd = "(inode_at (mark_block_used 1 s) 0)\<lparr>direct := (direct (inode_at (mark_block_used 1 s) 0))[0 := of_nat 1]\<rparr>"
  let ?s = "set_inode 0 ?nd (mark_block_used 1 s)"
  let ?tab = "fresh_tab[0 := ?nd]"
  have m': "mem_inv ?s"
    by (rule mem_inv_claim [OF m]) (use c bm r in \<open>simp_all add: direct0_def inode_shape_def zero_inode_def\<close>)
  then have "fs_ok (\<lambda>_. ready) ?s" using ok by (simp add: fs_ok_def)
  then have at: "fs_at (\<lambda>_. ready) sec ?tab (blks sec ?s) ?s"
    by (simp add: fs_at_def set_inode_def mark_block_used_def tab)
  have nth: "?tab ! i = (if i = 0 then ?nd else zero_inode)" if "i < 64" for i
    using that by (simp add: nth_list_update fresh_tab_nth)
  have nd: "used ?nd = 1" "itype ?nd = INODE_DIR" "direct0 ?nd = 1"
    by (simp_all add: r direct0_def zero_inode_def)
  have dirs: "is_dir ?tab d \<longleftrightarrow> d = 0" for d
    using nth [of d] nd by (cases "d < 64") (auto simp: is_dir_def)
  have "post Q (case (case disk_write_lba io (block_lba ?s 0) zero_block 1 ?s of (ok, s) \<Rightarrow>
      if \<not> ok then (False, s) else flush io s) of (ok, s) \<Rightarrow> f ok s)"
  proof (rule post_call [where R = "\<lambda>ok s'. ok \<and> fs_at (\<lambda>_. ready) sec ?tab ((blks sec ?s)(0 := zero_block)) s' \<and>
      fs_head s' = fs_head ?s \<and> g_bitmap s' = g_bitmap ?s"], rule rplain.post_write_at [OF at refl])
    fix s1 assume s1: "fs_at (\<lambda>_. ready) sec ?tab ((blks sec ?s)(0 := zero_block)) s1" "fs_head s1 = fs_head ?s"
      "g_bitmap s1 = g_bitmap ?s"
    show "post (\<lambda>ok s'. ok \<and> fs_at (\<lambda>_. ready) sec ?tab ((blks sec ?s)(0 := zero_block)) s' \<and>
      fs_head s' = fs_head ?s \<and> g_bitmap s' = g_bitmap ?s) (if \<not> True then (False, s1) else flush io s1)"
      unfolding not_True_eq_False if_False by (rule rplain.flush_at [OF s1(1)]) (use s1 in auto)
  next
    fix ok s1 assume s1: "ok \<and> fs_at (\<lambda>_. ready) sec ?tab ((blks sec ?s)(0 := zero_block)) s1 \<and>
      fs_head s1 = fs_head ?s \<and> g_bitmap s1 = g_bitmap ?s"
    let ?B = "(blks sec ?s)(0 := zero_block)"
    have ro: "only_root ?tab ?B" using dirs by (simp add: only_root_def)
    have len: "length (?B i) = 512" for i using plain.blks_length [of ?s i] at by (simp add: fs_at_def)
    have tr: "tree_ok ?tab ?B" by (rule only_root_tree [OF ro]) (rule len)
    have "inode_at s1 i = ?tab ! i" for i using s1 fs_atD(4) by blast
    then have "used (inode_at s1 i) = 0" if "1 \<le> i" "i < 64" for i using that nth [of i] by simp
    moreover have "g_bitmap s1 = bm_mark (g_bitmap s) 1" using s1 by (simp add: mark_block_used_def set_inode_def)
    then have "\<not> bm_used (g_bitmap s1) b" if "1 < b" for b using that m bm by (simp add: mem_inv_def bm_used_mark)
    ultimately have "frontier 1 s1" by (simp add: frontier_def)
    moreover have "tree_at (\<lambda>_. ready) sec ?tab ?B s1"
      using s1 tr dirs by (simp add: tree_at_def)
    ultimately show "post Q (f ok s1)"
      using f [OF _ _ _ ro] s1 by (simp add: fs_head_def set_inode_def mark_block_used_def)
  qed (use nth nd in simp_all)
  then show ?thesis
    by (simp only: ensure_root_dir_block_def d0 find option.case Let_def simp_thms if_False)
qed

text \<open>The superblock goes to a sector of its own; from then on it is what the memory holds.\<close>

lemma write_super_tree:
  assumes a: "tree_at (\<lambda>_. ready) sec tab B s"
    and h: "magic (g_sb s) = FS_MAGIC" "block_size (g_sb s) = FS_BLOCK_SIZE"
    and f: "\<And>s'. tree_at (super_synced ready sec) sec tab B s' \<Longrightarrow> fs_head s' = fs_head s \<Longrightarrow> g_bitmap s' = g_bitmap s \<Longrightarrow>
      post Q (f True s')"
  shows "post Q (case disk_write_lba io FS_SUPER_LBA (sb_bytes (g_sb s) @ g_sb_pad s) 1 s of (ok, s) \<Rightarrow> f ok s)"
proof -
  let ?buf = "sb_bytes (g_sb s) @ g_sb_pad s"
  have at: "fs_at (\<lambda>_. ready) sec tab B s" using a by (simp add: tree_at_def)
  note A = fs_atD [OF at]
  have len: "length ?buf = 512" using A(2) by (simp add: mem_inv_def)
  have r: "ready (disk s)" using A(1) by (simp add: fs_ok_def)
  obtain ok d where w: "write_sectors io (disk s) FS_SUPER_LBA ?buf 1 = (ok, d)" by (metis surj_pair)
  have ok using write_total [OF r, of FS_SUPER_LBA 1 ?buf] w len by simp
  have "ready d \<and> (ok \<longrightarrow> (\<forall>i < unat (1 :: u32). sec d (unat FS_SUPER_LBA + i) = chunk ?buf i)) \<and>
      (\<forall>l < lba_limit. l < unat FS_SUPER_LBA \<or> unat FS_SUPER_LBA + unat (1 :: u32) \<le> l \<longrightarrow> sec d l = sec (disk s) l)"
    by (rule write_law [OF r _ _ w]) (use len in simp_all)
  then have law: "ready d" "sec d 128 = ?buf" "\<And>l. l < lba_limit \<Longrightarrow> 129 \<le> l \<Longrightarrow> sec d l = sec (disk s) l"
    using \<open>ok\<close> chunk_0 [OF len] by auto
  have "blks sec (s\<lparr>disk := d\<rparr>) = B" using blks_frame [OF A(2), of "s\<lparr>disk := d\<rparr>" sec] law(3) A(5) by simp
  moreover have "super_synced ready sec (fs_head s) d" using law h by (simp add: super_synced_def fs_head_def)
  ultimately have "tree_at (super_synced ready sec) sec tab B (s\<lparr>disk := d\<rparr>)"
    using a A by (simp add: tree_at_def fs_at_def fs_ok_def)
  then show ?thesis using f [of "s\<lparr>disk := d\<rparr>"] w \<open>ok\<close> by (simp add: disk_write_lba_def)
qed

lemma flush_both:
  assumes a: "tree_at (super_synced ready sec) sec tab B s"
    and f: "\<And>s'. tree_at (super_synced ready sec) sec tab B s' \<Longrightarrow> fs_head s' = fs_head s \<Longrightarrow> g_bitmap s' = g_bitmap s \<Longrightarrow>
      post Q (f s')"
  shows "post Q (case flush_bitmap io s of (ok, s) \<Rightarrow> if \<not> ok then (False, s) else
    case flush_inodes io s of (ok, s) \<Rightarrow> if \<not> ok then (False, s) else f s)"
proof -
  have at: "fs_at (super_synced ready sec) sec tab B s" using a by (simp add: tree_at_def)
  have "post Q (case flush io s of (ok, s) \<Rightarrow> if \<not> ok then (False, s) else f s)"
    by (rule post_call [where R = "\<lambda>ok s'. ok \<and> tree_at (super_synced ready sec) sec tab B s' \<and> fs_head s' = fs_head s \<and>
      g_bitmap s' = g_bitmap s"], rule rsuper.flush_at [OF at])
      (use a f in \<open>auto simp: tree_at_def\<close>)
  moreover have "(case flush io s of (ok, s) \<Rightarrow> if \<not> ok then (False, s) else f s) =
    (case flush_bitmap io s of (ok, s) \<Rightarrow> if \<not> ok then (False, s) else
    case flush_inodes io s of (ok, s) \<Rightarrow> if \<not> ok then (False, s) else f s)"
    by (simp add: flush_def split: prod.split)
  ultimately show ?thesis by simp
qed

end

section \<open>Formatting\<close>

definition default_hash :: u32 where
  "default_hash = fnv1a_32 default_password"

text \<open>The tree \<^verbatim>\<open>fs_format\<close> makes: the root with the directory \<^verbatim>\<open>sys\<close>, which holds two files.\<close>

definition formatted_tree :: "inode list \<Rightarrow> (nat \<Rightarrow> u8 list) \<Rightarrow> bool" where
  "formatted_tree tab B \<longleftrightarrow>
     (\<exists>d. is_dir tab d \<and>
       (\<forall>n. file_view tab B 0 n = None) \<and>
       (\<forall>n. entry_of tab B INODE_DIR 0 n = (if cstr n = sys_name then Some d else None)) \<and>
       (\<forall>n. entry_of tab B INODE_DIR d n = None) \<and>
       (\<forall>n. file_view tab B d n =
          (if cstr n = status_name then Some [0xFF]
           else if cstr n = passwd_name then Some (hash_buf default_hash) else None)))"

lemma names:
  "cstr sys_name = sys_name" "cstr status_name = status_name" "cstr passwd_name = passwd_name"
  "str_len status_name < 30" "str_len passwd_name < 30" "status_name \<noteq> passwd_name"
  by (simp_all add: sys_name_def status_name_def passwd_name_def)

lemma length_hash_buf [simp]: "length (hash_buf h) = 4"
  by (simp add: hash_buf_def)

lemma only_root_empty: "only_root tab B \<Longrightarrow> entry_of tab B ty 0 n = None"
  by (rule entry_of_empty) (simp add: only_root_def zero_block_free)

text \<open>The tree after the first of the two files.\<close>

definition status_tree :: "nat \<Rightarrow> inode list \<Rightarrow> (nat \<Rightarrow> u8 list) \<Rightarrow> bool" where
  "status_tree d tab B \<longleftrightarrow> d \<noteq> 0 \<and> is_dir tab d \<and> (\<forall>n. file_view tab B 0 n = None) \<and>
     (\<forall>n. entry_of tab B INODE_DIR 0 n = (if cstr n = sys_name then Some d else None)) \<and>
     (\<forall>n. entry_of tab B INODE_DIR d n = None) \<and>
     (\<forall>n. file_view tab B d n = (if cstr n = status_name then Some [0xFF] else None))"

lemma status_treeI:
  assumes o: "only_root tab B" and p: "put_dir 0 sys_name tab B tab1 B1"
    and e: "entry_of tab1 B1 INODE_DIR 0 sys_name = Some d"
    and w: "put_file d status_name [0xFF] tab1 B1 tab2 B2"
  shows "status_tree d tab2 B2"
proof -
  have r: "is_dir tab 0" using o by (simp add: only_root_def)
  obtain i where i: "\<not> is_dir tab i" "is_dir tab1 i"
      "\<And>n. file_view tab1 B1 i n = None \<and> entry_of tab1 B1 INODE_DIR i n = None"
      "\<And>d'. is_dir tab d' \<Longrightarrow> is_dir tab1 d' \<and> (\<forall>n. file_view tab1 B1 d' n = file_view tab B d' n) \<and>
        (\<forall>n. entry_of tab1 B1 INODE_DIR d' n =
           (if d' = 0 \<and> cstr n = cstr sys_name then Some i else entry_of tab B INODE_DIR d' n))"
    using p unfolding put_dir_def by metis
  have r1: "is_dir tab1 0" "\<And>n. file_view tab1 B1 0 n = None"
    "\<And>n. entry_of tab1 B1 INODE_DIR 0 n = (if cstr n = sys_name then Some i else None)"
    using i(4) [OF r] only_root_empty [OF o] by (simp_all add: names file_view_def)
  have d: "d = i" using e r1(3) [of sys_name] by (simp add: names)
  have "d \<noteq> 0" using i(1) r d by metis
  moreover have "is_dir tab2 d \<and>
      (\<forall>n. file_view tab2 B2 d n = (if d = d \<and> cstr n = cstr status_name then Some [0xFF] else file_view tab1 B1 d n)) \<and>
      (\<forall>n. entry_of tab2 B2 INODE_DIR d n = entry_of tab1 B1 INODE_DIR d n)"
    using w i(2) d unfolding put_file_def by metis
  moreover have "is_dir tab2 0 \<and>
      (\<forall>n. file_view tab2 B2 0 n = (if 0 = d \<and> cstr n = cstr status_name then Some [0xFF] else file_view tab1 B1 0 n)) \<and>
      (\<forall>n. entry_of tab2 B2 INODE_DIR 0 n = entry_of tab1 B1 INODE_DIR 0 n)"
    using w r1(1) unfolding put_file_def by metis
  ultimately show ?thesis using i(3) d r1 by (simp add: status_tree_def names)
qed

lemma formatted_treeI:
  assumes s: "status_tree d tab B" and r: "is_dir tab 0"
    and w: "put_file d passwd_name (hash_buf default_hash) tab B tab' B'"
  shows "formatted_tree tab' B'"
proof -
  have d: "is_dir tab d" "d \<noteq> 0" using s by (simp_all add: status_tree_def)
  have "is_dir tab' d \<and>
      (\<forall>n. file_view tab' B' d n = (if d = d \<and> cstr n = cstr passwd_name then Some (hash_buf default_hash) else file_view tab B d n)) \<and>
      (\<forall>n. entry_of tab' B' INODE_DIR d n = entry_of tab B INODE_DIR d n)"
    using w d unfolding put_file_def by metis
  moreover have "is_dir tab' 0 \<and>
      (\<forall>n. file_view tab' B' 0 n = (if 0 = d \<and> cstr n = cstr passwd_name then Some (hash_buf default_hash) else file_view tab B 0 n)) \<and>
      (\<forall>n. entry_of tab' B' INODE_DIR 0 n = entry_of tab B INODE_DIR 0 n)"
    using w r unfolding put_file_def by metis
  ultimately show ?thesis
    using s d(2) names(3,6) unfolding formatted_tree_def status_tree_def by (intro exI [of _ d]) auto
qed

context reliable_disk
begin

lemma write_status_tree:
  assumes a: "tree_at (super_synced ready sec) sec tab B s" and o: "only_root tab B"
    and fr: "frontier 1 s" "3 < capacity s"
  shows "post (\<lambda>ok s'. ok \<and> fs_head s' = fs_head s \<and> frontier 3 s' \<and>
      (\<exists>tab' B' d. status_tree d tab' B' \<and> tree_at (super_synced ready sec) sec tab' B' s'))
    (write_status_flag io 0xFF s)"
proof -
  have e: "entry_of tab B INODE_DIR 0 sys_name = None" by (rule only_root_empty [OF o])
  have "\<not> de_used (B 0) 0" using o by (simp add: only_root_def zero_block_free)
  then have sl: "has_slot B 0" unfolding has_slot_def by (intro exI [of _ 0]) simp
  have c: "mem_get [0xFF] (unat (1 :: u32)) = [0xFF]" by (simp add: mem_get_def)
  show ?thesis
    unfolding write_status_flag_def
    by (rule post_mono [OF rsuper.write_sys_fresh [OF a e names(4) _ sl fr(1), of 1 "[0xFF]"]])
      (use fr(2) status_treeI [OF o] c in \<open>auto simp: eval_nat_numeral, blast\<close>)
qed

lemma write_passwd_tree:
  assumes a: "tree_at (super_synced ready sec) sec tab B s" and o: "status_tree d tab B"
    and fr: "frontier 3 s" "3 < capacity s"
  shows "post (\<lambda>ok s'. ok \<and> fs_head s' = fs_head s \<and> synced sec s' \<and>
      (\<exists>tab' B'. formatted_tree tab' B' \<and> tree_at (super_synced ready sec) sec tab' B' s'))
    (write_sys_file io passwd_name (hash_buf default_hash) 4 s)"
proof -
  have at: "fs_at (super_synced ready sec) sec tab B s" and t: "tree_ok tab B" and r: "is_dir tab 0"
    using a by (auto simp: tree_at_def)
  have d: "is_dir tab d" "entry_of tab B INODE_DIR 0 sys_name = Some d"
    using o by (simp_all add: status_tree_def names)
  have "has_slot B d"
    by (rule few_files_slot [OF at t d(1), of status_name])
      (use o in \<open>auto simp: status_tree_def file_view_None [symmetric] split: if_splits\<close>)
  moreover have "3 < inode_limit s" "Suc 3 < unat (block_count (g_sb s))"
    using fr(2) unfolding capacity_def by linarith+
  ultimately have c: "has_slot B d \<and> alloc_inode_raw s \<noteq> None \<and> alloc_block_raw s \<noteq> None"
    using alloc_frontier [OF fr(1) fs_atD(2) [OF at]] by auto
  have l: "mem_get (hash_buf default_hash) (unat (4 :: u32)) = hash_buf default_hash"
    using mem_get_take [of 4 "hash_buf default_hash"] by simp
  show ?thesis
    by (rule post_mono [OF rsuper.write_sys_existing [OF a d(2) names(5) _ disjI2 [OF c], of 4 "hash_buf default_hash"]])
      (use formatted_treeI [OF o r] l in \<open>auto simp: sys_done_def\<close>)
qed

lemma format_rest:
  assumes a: "tree_at (\<lambda>_. ready) sec tab B s" and fr: "frontier 1 s" and o: "only_root tab B"
    and h: "magic (g_sb s) = FS_MAGIC" "block_size (g_sb s) = FS_BLOCK_SIZE" and cap: "3 < capacity s"
  shows "post (\<lambda>ok s'. ok \<and> g_mounted s' \<and> synced sec s' \<and>
      (\<exists>tab B. formatted_tree tab B \<and> tree_at (super_synced ready sec) sec tab B s'))
    (case disk_write_lba io FS_SUPER_LBA (sb_bytes (g_sb s) @ g_sb_pad s) 1 s of (ok, s) \<Rightarrow> if \<not> ok then (False, s) else
     case flush_bitmap io s of (ok, s) \<Rightarrow> if \<not> ok then (False, s) else
     case flush_inodes io s of (ok, s) \<Rightarrow> if \<not> ok then (False, s) else
     case write_status_flag io 0xFF s of (ok, s) \<Rightarrow> if \<not> ok then (False, s) else
     case write_sys_file io passwd_name (hash_buf (fnv1a_32 default_password)) 4 s of (ok, s) \<Rightarrow>
       if \<not> ok then (False, s) else (True, s\<lparr>g_last_error := FS_ERR_NONE, g_mounted := True\<rparr>))"
    (is "post ?Q _")
proof (rule write_super_tree [OF a h], unfold not_True_eq_False if_False, rule flush_both, assumption)
  fix s1 s2
  assume s1: "fs_head s1 = fs_head s" "g_bitmap s1 = g_bitmap s"
    and t2: "tree_at (super_synced ready sec) sec tab B s2" and s2: "fs_head s2 = fs_head s1" "g_bitmap s2 = g_bitmap s1"
  have "g_inodes s2 = g_inodes s" using a t2 by (simp add: tree_at_def fs_at_def)
  then have fr2: "frontier 1 s2" using fr frontier_cong [of s2 s] s1 s2 by simp
  have cap2: "3 < capacity s2" using cap capacity_cong [of s2 s] s1 s2 by simp
  show "post ?Q (case write_status_flag io 0xFF s2 of (ok, s) \<Rightarrow> if \<not> ok then (False, s) else
     case write_sys_file io passwd_name (hash_buf (fnv1a_32 default_password)) 4 s of (ok, s) \<Rightarrow>
       if \<not> ok then (False, s) else (True, s\<lparr>g_last_error := FS_ERR_NONE, g_mounted := True\<rparr>))"
  proof (rule post_call [OF write_status_tree [OF t2 o fr2 cap2]])
    fix ok s3
    assume "ok \<and> fs_head s3 = fs_head s2 \<and> frontier 3 s3 \<and>
      (\<exists>tab' B' d. status_tree d tab' B' \<and> tree_at (super_synced ready sec) sec tab' B' s3)"
    then obtain tab3 B3 d where ok and s3: "fs_head s3 = fs_head s2" "frontier 3 s3" "status_tree d tab3 B3"
      "tree_at (super_synced ready sec) sec tab3 B3 s3" by blast
    have cap3: "3 < capacity s3" using cap2 capacity_cong [OF s3(1)] by simp
    have fin: "?Q True (s'\<lparr>g_last_error := FS_ERR_NONE, g_mounted := True\<rparr>)"
      if "synced sec s'" "formatted_tree tab' B'" "tree_at (super_synced ready sec) sec tab' B' s'" for s' tab' B'
    proof -
      have "blks sec (s'\<lparr>g_last_error := FS_ERR_NONE, g_mounted := True\<rparr>) = blks sec s'"
        by (simp add: fun_eq_iff blks_def block_lba_def inode_at_def)
      then have "tree_at (super_synced ready sec) sec tab' B' (s'\<lparr>g_last_error := FS_ERR_NONE, g_mounted := True\<rparr>)"
        using that(3) by (auto simp: tree_at_def fs_at_def fs_ok_def mem_inv_def super_synced_def fs_head_def)
      then show ?thesis using that by (auto simp: synced_def)
    qed
    have "post ?Q (case write_sys_file io passwd_name (hash_buf default_hash) 4 s3 of (ok, s) \<Rightarrow>
       if \<not> ok then (False, s) else (True, s\<lparr>g_last_error := FS_ERR_NONE, g_mounted := True\<rparr>))"
      by (rule post_call [OF write_passwd_tree [OF s3(4,3,2) cap3]]) (use fin in \<open>auto simp: post_def\<close>)
    then show "post ?Q (if \<not> ok then (False, s3) else
       case write_sys_file io passwd_name (hash_buf (fnv1a_32 default_password)) 4 s3 of (ok, s) \<Rightarrow>
       if \<not> ok then (False, s) else (True, s\<lparr>g_last_error := FS_ERR_NONE, g_mounted := True\<rparr>))"
      using \<open>ok\<close> by (simp add: default_hash_def)
  qed
qed

lemma fs_format_tree:
  assumes "ready (disk s)" and "length (g_sb_pad s) = 480" and "length (g_bitmap s) = 4096"
    and c: "5 \<le> unat (fst (format_blocks io n s))" and m: "m = 0 \<or> 4 \<le> m"
  shows "post (\<lambda>ok s'. ok \<and> g_mounted s' \<and> synced sec s' \<and>
      (\<exists>tab B. formatted_tree tab B \<and> tree_at (super_synced ready sec) sec tab B s'))
    (fs_format io n m s)"
proof -
  obtain c s1 where fb: "format_blocks io n s = (c, s1)" by (metis surj_pair)
  obtain d where s1: "s1 = s\<lparr>disk := d\<rparr>" "ready d" "unat c \<le> max_blocks"
    using format_blocks_range [OF assms(1), of n] fb by auto
  have c5: "5 \<le> unat c" using c fb by simp
  let ?m = "if of_nat FS_MAX_INODES < m then of_nat FS_MAX_INODES else m"
  let ?sb = "\<lparr>magic = FS_MAGIC, version = FS_VERSION, block_size = FS_BLOCK_SIZE,
                  inode_count = ?m, block_count = c,
                  inode_table_lba = FS_INODE_TABLE_LBA, bitmap_lba = FS_BITMAP_LBA,
                  data_lba = FS_DATA_LBA\<rparr>"
  let ?s = "set_inode 0 (zero_inode\<lparr>used := 1, itype := INODE_DIR, links := 1\<rparr>)
    (s\<lparr>disk := d, g_sb := ?sb, g_bitmap := mem_set (g_bitmap s) 0 0 4096, g_inodes := replicate 64 zero_inode\<rparr>)"
  have tab: "g_inodes ?s = fresh_tab" by (simp add: set_inode_def fresh_tab_def)
  have bm: "\<not> bm_used (g_bitmap ?s) b" for b
    using mem_set_all [OF assms(3), of 0] by (simp add: set_inode_def bm_used_replicate)
  have ok: "fs_ok (\<lambda>_. ready) ?s"
    using s1 c5 assms tab_inv_fresh by (simp add: fs_ok_def mem_inv_def set_inode_def sb_inv_def)
  have cap: "3 < capacity ?s"
  proof -
    have "4 \<le> inode_limit ?s"
      using m by (auto simp: inode_limit_def set_inode_def Let_def word_le_nat_alt)
    then show ?thesis using c5 by (simp add: capacity_def set_inode_def)
  qed
  show ?thesis
    unfolding fs_format_def Let_def fb prod.case s1(1)
  proof (rule ensure_fresh_root)
    show "fs_ok (\<lambda>_. ready) (set_inode 0 (zero_inode\<lparr>used := 1, itype := INODE_DIR, links := 1\<rparr>)
      (s\<lparr>disk := d, g_sb := ?sb,
         g_bitmap := mem_set (g_bitmap (s\<lparr>disk := d, g_sb := ?sb\<rparr>)) 0 0 (512 * 8), g_inodes := replicate 64 zero_inode\<rparr>))"
      using ok by simp
  next
    fix s' tab B
    assume s': "tree_at (\<lambda>_. ready) sec tab B s'" "fs_head s' = fs_head (set_inode 0 (zero_inode\<lparr>used := 1, itype := INODE_DIR, links := 1\<rparr>)
      (s\<lparr>disk := d, g_sb := ?sb,
         g_bitmap := mem_set (g_bitmap (s\<lparr>disk := d, g_sb := ?sb\<rparr>)) 0 0 (512 * 8), g_inodes := replicate 64 zero_inode\<rparr>))"
      "frontier 1 s'" "only_root tab B"
    have h: "fs_head s' = fs_head ?s" using s'(2) by (simp add: fs_head_def set_inode_def)
    then have "magic (g_sb s') = FS_MAGIC" "block_size (g_sb s') = FS_BLOCK_SIZE" "3 < capacity s'"
      using cap capacity_cong [OF h] by (simp_all add: fs_head_def set_inode_def)
    then show "post (\<lambda>ok s'. ok \<and> g_mounted s' \<and> synced sec s' \<and>
        (\<exists>tab B. formatted_tree tab B \<and> tree_at (super_synced ready sec) sec tab B s'))
      (if \<not> True then (False, s') else
       case disk_write_lba io FS_SUPER_LBA (sb_bytes (g_sb s') @ g_sb_pad s') 1 s' of (ok, s) \<Rightarrow> if \<not> ok then (False, s) else
       case flush_bitmap io s of (ok, s) \<Rightarrow> if \<not> ok then (False, s) else
       case flush_inodes io s of (ok, s) \<Rightarrow> if \<not> ok then (False, s) else
       case write_status_flag io 0xFF s of (ok, s) \<Rightarrow> if \<not> ok then (False, s) else
       case write_sys_file io passwd_name (hash_buf (fnv1a_32 default_password)) 4 s of (ok, s) \<Rightarrow>
         if \<not> ok then (False, s) else (True, s\<lparr>g_last_error := FS_ERR_NONE, g_mounted := True\<rparr>))"
      unfolding not_True_eq_False if_False by (intro format_rest [OF s'(1,3,4)])
  qed (use tab bm c5 in \<open>simp_all add: set_inode_def\<close>)
qed

end

end
