(* ===== verification/FsMount.thy ===== *)
theory FsMount
  imports FsFormat
begin

text \<open>
  Booting: what formatting leaves on the disk is recognised by \<^verbatim>\<open>fs_is_formatted\<close> and restored by
  \<^verbatim>\<open>fs_init\<close>, and so is what the calls have written since.
\<close>

section \<open>Reading a sector that is known\<close>

context reliable_disk
begin

lemma read_known:
  assumes "ready (disk s)" and "unat lba + unat n \<le> lba_limit"
  obtains d where "disk_read_lba io lba n s = (True, concat (map (sec (disk s)) [unat lba..<unat lba + unat n]), s\<lparr>disk := d\<rparr>)"
    "ready d" "sec d = sec (disk s)"
proof -
  obtain ok bs d where r: "read_sectors io (disk s) lba n = (ok, bs, d)" by (metis prod_cases3)
  have ok using read_total [OF assms] r by simp
  then show thesis using read_law [OF assms r] r that [of d] by (simp add: disk_read_lba_def)
qed

section \<open>Mounting\<close>

text \<open>Mounting a disk on which the tables of \<open>s\<close> are, from any memory.\<close>

lemma fs_init_restores:
  assumes m: "mem_inv s" and sy: "synced sec s" and su: "super_synced ready sec (fs_head s) (disk s)"
    and t: "disk t = disk s" "length (g_sb_pad t) = 480" "length (g_bitmap t) = 4096"
  shows "post (\<lambda>ok s'. ok \<and> g_sb s' = g_sb s \<and> g_sb_pad s' = g_sb_pad s \<and> g_bitmap s' = g_bitmap s \<and>
      g_inodes s' = g_inodes s \<and> g_mounted s' \<and> ready (disk s') \<and> sec (disk s') = sec (disk s)) (fs_init io t)"
    (is "post ?Q _")
proof -
  have sh: "\<forall>nd \<in> set (g_inodes s). inode_shape nd" and lba: "bitmap_lba (g_sb s) = 129"
      "inode_table_lba (g_sb s) = 137" and len: "length (g_bitmap s) = 4096" "length (g_inodes s) = 64"
      "length (g_sb_pad s) = 480"
    using m by (auto simp: mem_inv_def tab_inv_def sb_inv_def in_set_conv_nth)
  have su': "ready (disk s)" "sec (disk s) 128 = sb_bytes (g_sb s) @ g_sb_pad s" "magic (g_sb s) = FS_MAGIC"
      "block_size (g_sb s) = FS_BLOCK_SIZE"
    using su by (simp_all add: super_synced_def fs_head_def)
  have bm: "concat (map (sec (disk s)) [unat (129 :: u32)..<unat (129 :: u32) + unat (8 :: u32)]) = g_bitmap s"
    and ins: "concat (map (sec (disk s)) [unat (137 :: u32)..<unat (137 :: u32) + unat (8 :: u32)]) = inodes_bytes (g_inodes s)"
    using sy by (simp_all add: synced_def)
  have ro: "inodes_of_bytes 64 (inodes_bytes (g_inodes s) @ xs) = g_inodes s" for xs
    using inodes_roundtrip [OF sh, of xs] len by simp
  have r0: "ready (disk t)" using su' t by simp
  obtain d1 where d1: "disk_read_lba io FS_SUPER_LBA 1 t = (True, sb_bytes (g_sb s) @ g_sb_pad s, t\<lparr>disk := d1\<rparr>)"
    "ready d1" "sec d1 = sec (disk s)"
    by (rule read_known [OF r0, of FS_SUPER_LBA 1]) (use su' t in simp_all)
  let ?t1 = "t\<lparr>disk := d1, g_sb := g_sb s, g_sb_pad := g_sb_pad s\<rparr>"
  obtain d2 where d2: "disk_read_lba io 129 8 ?t1 = (True, g_bitmap s, ?t1\<lparr>disk := d2\<rparr>)"
    "ready d2" "sec d2 = sec (disk s)"
    by (rule read_known [of ?t1 129 8]) (use d1 bm in \<open>simp_all del: upt_rec_numeral\<close>)
  let ?t2 = "t\<lparr>g_sb := g_sb s, g_sb_pad := g_sb_pad s, disk := d2, g_bitmap := g_bitmap s\<rparr>"
  obtain d3 where d3: "disk_read_lba io 137 8 ?t2 = (True, inodes_bytes (g_inodes s), ?t2\<lparr>disk := d3\<rparr>)"
    "ready d3" "sec d3 = sec (disk s)"
    by (rule read_known [of ?t2 137 8]) (use d2 ins in \<open>simp_all del: upt_rec_numeral\<close>)
  show ?thesis
    using d1 d2 d3 su' len t
    by (simp add: fs_init_def Let_def lba ro post_def)
qed

lemma read_block:
  assumes at: "fs_at K sec tab B s" and i: "i < 64" and s': "ready (disk s')" "sec (disk s') = sec (disk s)"
  obtains d where "disk_read_lba io (block_lba s i) 1 s' = (True, B i, s'\<lparr>disk := d\<rparr>)" "ready d" "sec d = sec (disk s)"
proof -
  note A = fs_atD [OF at]
  have "unat (block_lba s i) + unat (1 :: u32) \<le> lba_limit"
    using block_lba_range [OF A(1) i] by (simp add: fs_area_def)
  then obtain d where "disk_read_lba io (block_lba s i) 1 s' =
      (True, concat (map (sec (disk s')) [unat (block_lba s i)..<unat (block_lba s i) + unat (1 :: u32)]), s'\<lparr>disk := d\<rparr>)"
    "ready d" "sec d = sec (disk s')"
    by (rule read_known [OF s'(1)])
  moreover have "sec (disk s) (unat (block_lba s i)) = B i" using A(5) i by (auto simp: blks_def)
  ultimately show thesis using that [of d] s' by simp
qed

text \<open>A formatted disk is recognised as such, whatever the memory holds.\<close>

lemma fs_is_formatted_True:
  assumes a: "tree_at (super_synced ready sec) sec tab B s" and sy: "synced sec s" and f: "formatted_tree tab B"
    and t: "disk t = disk s"
  shows "post (\<lambda>ok t'. ok) (fs_is_formatted io t)"
proof -
  have at: "fs_at (super_synced ready sec) sec tab B s" and tr: "tree_ok tab B" and r: "is_dir tab 0"
    using a by (auto simp: tree_at_def)
  note A = fs_atD [OF at]
  have sh: "\<forall>nd \<in> set tab. inode_shape nd" and lba: "inode_table_lba (g_sb s) = 137"
    using A(2,3) by (auto simp: mem_inv_def tab_inv_def sb_inv_def in_set_conv_nth)
  have su: "ready (disk s)" "sec (disk s) 128 = sb_bytes (g_sb s) @ g_sb_pad s" "magic (g_sb s) = FS_MAGIC"
      "block_size (g_sb s) = FS_BLOCK_SIZE"
    using A(1) by (simp_all add: fs_ok_def super_synced_def fs_head_def)
  obtain d where d: "is_dir tab d" "entry_of tab B INODE_DIR 0 sys_name = Some d" "file_view tab B d status_name = Some [0xFF]"
    using f by (auto simp: formatted_tree_def names)
  obtain i where i: "entry_of tab B INODE_FILE d status_name = Some i" "mem_get (B i) (unat (isize (tab ! i))) = [0xFF]"
    using d(3) by (auto simp: file_view_def)
  have b0: "byte_at (B i) 0 = 0xFF"
    using i(2) by (cases "unat (isize (tab ! i))") (auto simp: mem_get_def upt_conv_Cons)
  obtain e e' where e: "find_dir_entry sys_name (B 0) tab INODE_DIR = Some e" "de_inode (B 0) e = d"
    and e': "find_dir_entry status_name (B d) tab INODE_FILE = Some e'" "de_inode (B d) e' = i"
    using d(2) i(1) by (auto simp: entry_of_def)
  have blk: "direct0 (tab ! j) < block_count (g_sb s)" if "j < 64" for j
    using mem_inv_block [OF A(2) that] A(4) by (simp add: word_less_nat_alt)
  have li: "i < 64" "used (tab ! i) \<noteq> 0" "direct0 (tab ! i) \<noteq> 0"
    using rsuper.live_block [OF at tr d(1) i(1)] entry_of_live [OF tr d(1) _ i(1)] by simp_all
  have ld: "d < 64" "used (tab ! d) \<noteq> 0" "itype (tab ! d) = INODE_DIR" "direct0 (tab ! d) \<noteq> 0"
    "used (tab ! 0) \<noteq> 0" "itype (tab ! 0) = INODE_DIR" "direct0 (tab ! 0) \<noteq> 0"
    using d(1) r by (simp_all add: is_dir_def)
  have lbas: "data_lba (g_sb s) + direct0 (tab ! j) = block_lba s j" for j by (simp add: block_lba_def A(4))
  have ins: "concat (map (sec (disk s)) [unat (137 :: u32)..<unat (137 :: u32) + unat (8 :: u32)]) = inodes_bytes tab"
    using sy A(3) by (simp add: synced_def)
  have ro: "inodes_of_bytes 64 (inodes_bytes tab) = tab" using inodes_roundtrip [OF sh, of "[]"] A(6) by simp
  have r0: "ready (disk t)" using su t by simp
  obtain d1 where d1: "disk_read_lba io FS_SUPER_LBA 1 t = (True, sb_bytes (g_sb s) @ g_sb_pad s, t\<lparr>disk := d1\<rparr>)"
    "ready d1" "sec d1 = sec (disk s)"
    by (rule read_known [OF r0, of FS_SUPER_LBA 1]) (use su t in simp_all)
  obtain d2 where d2: "disk_read_lba io 137 8 (t\<lparr>disk := d1\<rparr>) = (True, inodes_bytes tab, t\<lparr>disk := d2\<rparr>)"
    "ready d2" "sec d2 = sec (disk s)"
    by (rule read_known [of "t\<lparr>disk := d1\<rparr>" 137 8]) (use d1 ins in \<open>simp_all del: upt_rec_numeral\<close>)
  obtain d3 where d3: "disk_read_lba io (block_lba s 0) 1 (t\<lparr>disk := d2\<rparr>) = (True, B 0, t\<lparr>disk := d3\<rparr>)"
    "ready d3" "sec d3 = sec (disk s)"
    by (rule read_block [OF at, of 0 "t\<lparr>disk := d2\<rparr>"]) (use d2 in simp_all)
  obtain d4 where d4: "disk_read_lba io (block_lba s d) 1 (t\<lparr>disk := d3\<rparr>) = (True, B d, t\<lparr>disk := d4\<rparr>)"
    "ready d4" "sec d4 = sec (disk s)"
    by (rule read_block [OF at ld(1), of "t\<lparr>disk := d3\<rparr>"]) (use d3 in simp_all)
  obtain d5 where d5: "disk_read_lba io (block_lba s i) 1 (t\<lparr>disk := d4\<rparr>) = (True, B i, t\<lparr>disk := d5\<rparr>)"
    "ready d5" "sec d5 = sec (disk s)"
    by (rule read_block [OF at li(1), of "t\<lparr>disk := d4\<rparr>"]) (use d4 in simp_all)
  note blks = blk [of 0] blk [OF ld(1)] blk [OF li(1)]
  show ?thesis
    unfolding fs_is_formatted_def Let_def d1(1) prod.case sb_roundtrip su(3,4) lba d2(1) ro lbas d3(1) e option.case
    by (simp add: post_def ld li blks not_le d4(1) e' d5(1) b0 lbas)
qed

text \<open>Reading a file of the system directory.\<close>

lemma read_sys_result:
  assumes a: "tree_at K sec tab B s" and K: "reliable_fs io sec ready K" and m: "g_mounted s"
    and e: "entry_of tab B INODE_DIR 0 sys_name = Some d"
  shows "post (\<lambda>r s'. r = map_option (take (unat n)) (file_view tab B d name) \<and> tree_at K sec tab B s')
    (read_sys_file io name n s)" (is "post ?Q _")
proof -
  have at: "fs_at K sec tab B s" and r: "is_dir tab 0" using a by (auto simp: tree_at_def)
  note A = fs_atD [OF at]
  have d: "is_dir tab d" by (rule reliable_fs.subdir_at [OF K a e])
  obtain x where x: "find_dir_entry sys_name (B 0) tab INODE_DIR = Some x" "de_inode (B 0) x = d"
    using e by (auto simp: entry_of_def)
  have un: "\<not> (used (inode_at s 0) = 0 \<or> direct0 (inode_at s 0) = 0)" using r A(4) by (simp add: is_dir_def)
  show ?thesis
    unfolding read_sys_file_def Let_def
  proof (simp only: m un not_True_eq_False if_False, rule reliable_fs.post_read_at [OF K at refl], simp,
      unfold not_True_eq_False if_False)
    fix s1 assume s1: "fs_at K sec tab B s1"
    note A1 = fs_atD [OF s1]
    have ok: "\<not> FS_MAX_INODES \<le> d" "\<not> (itype (inode_at s1 d) \<noteq> INODE_DIR \<or> direct0 (inode_at s1 d) = 0)"
      using d A1(4) by (simp_all add: is_dir_def)
    show "post ?Q (case find_dir_entry sys_name (B 0) (g_inodes s1) INODE_DIR of None \<Rightarrow> (None, s1) | Some e \<Rightarrow>
      if FS_MAX_INODES \<le> de_inode (B 0) e then (None, s1)
      else if itype (inode_at s1 (de_inode (B 0) e)) \<noteq> INODE_DIR \<or> direct0 (inode_at s1 (de_inode (B 0) e)) = 0 then (None, s1) else
      case disk_read_lba io (block_lba s1 (de_inode (B 0) e)) 1 s1 of (ok, sys_blk, s) \<Rightarrow> if \<not> ok then (None, s) else
      case find_dir_entry name sys_blk (g_inodes s) INODE_FILE of None \<Rightarrow> (None, s) | Some e \<Rightarrow>
      if FS_MAX_INODES \<le> de_inode sys_blk e then (None, s)
      else if direct0 (inode_at s (de_inode sys_blk e)) = 0 then (None, s) else
      case disk_read_lba io (block_lba s (de_inode sys_blk e)) 1 s of (ok, blk, s) \<Rightarrow> if \<not> ok then (None, s) else
      (Some (mem_get blk (clip_len (isize (inode_at s (de_inode sys_blk e))) n)), s))"
      unfolding A1(3) x option.case
    proof (simp only: ok if_False, rule reliable_fs.post_read_at [OF K s1 refl], use d in \<open>simp add: is_dir_def\<close>,
        unfold not_True_eq_False if_False)
      fix s2 assume s2: "fs_at K sec tab B s2"
      have "(case find_dir_entry name (B d) (g_inodes s2) INODE_FILE of None \<Rightarrow> (None, s2) | Some e \<Rightarrow>
          if FS_MAX_INODES \<le> de_inode (B d) e then (None, s2)
          else if direct0 (inode_at s2 (de_inode (B d) e)) = 0 then (None, s2) else
          case disk_read_lba io (block_lba s2 (de_inode (B d) e)) 1 s2 of (ok, blk, s) \<Rightarrow> if \<not> ok then (None, s) else
          (Some (mem_get blk (clip_len (isize (inode_at s (de_inode (B d) e))) n)), s)) =
        (case find_dir_entry name (B d) (g_inodes s2) INODE_FILE of None \<Rightarrow> (None, s2) | Some e \<Rightarrow>
          if direct0 (inode_at s2 (de_inode (B d) e)) = 0 then (None, s2) else
          case disk_read_lba io (block_lba s2 (de_inode (B d) e)) 1 s2 of (ok, blk, s) \<Rightarrow> if \<not> ok then (None, s) else
          (Some (mem_get blk (clip_len (isize (inode_at s (de_inode (B d) e))) n)), s))"
        by (auto split: option.split dest: find_dir_entry_range)
      then show "post ?Q (case find_dir_entry name (B d) (g_inodes s2) INODE_FILE of None \<Rightarrow> (None, s2) | Some e \<Rightarrow>
          if FS_MAX_INODES \<le> de_inode (B d) e then (None, s2)
          else if direct0 (inode_at s2 (de_inode (B d) e)) = 0 then (None, s2) else
          case disk_read_lba io (block_lba s2 (de_inode (B d) e)) 1 s2 of (ok, blk, s) \<Rightarrow> if \<not> ok then (None, s) else
          (Some (mem_get blk (clip_len (isize (inode_at s (de_inode (B d) e))) n)), s))"
        using reliable_fs.read_in_dir [OF K a s2 d, of n name] by simp
    qed
  qed
qed

end

section \<open>Properties\<close>

text \<open>
  The sizes of the memory the driver reads into; the state of the disk after a call that has
  written everything back.
\<close>

definition boot_mem :: "'d fs \<Rightarrow> bool" where
  "boot_mem s \<longleftrightarrow> length (g_sb_pad s) = 480 \<and> length (g_bitmap s) = 4096"

definition on_disk :: "('d \<Rightarrow> bool) \<Rightarrow> ('d \<Rightarrow> nat \<Rightarrow> u8 list) \<Rightarrow> 'd fs \<Rightarrow> bool" where
  "on_disk ready sec s \<longleftrightarrow> super_synced ready sec (fs_head s) (disk s) \<and> synced sec s"

lemma consistent_super:
  "fs_consistent ready sec s \<Longrightarrow> super_synced ready sec (fs_head s) (disk s) \<Longrightarrow>
    tree_at (super_synced ready sec) sec (g_inodes s) (blks sec s) s"
  by (simp add: fs_consistent_def tree_at_def fs_at_def fs_ok_def)

lemma super_consistent:
  "tree_at (super_synced ready sec) sec tab B s \<Longrightarrow>
    fs_consistent ready sec s \<and> super_synced ready sec (fs_head s) (disk s) \<and> g_inodes s = tab \<and> blks sec s = B"
  by (auto simp: fs_consistent_def tree_at_def fs_at_def fs_ok_def super_synced_def)

lemma format_effect:
  assumes "reliable_disk io sec ready" and "ready (disk s)" and "boot_mem s"
    and "5 \<le> unat (fst (format_blocks io n s))" and "m = 0 \<or> 4 \<le> m" and "fs_format io n m s = (ok, s')"
  shows "ok \<and> g_mounted s' \<and> fs_consistent ready sec s' \<and> on_disk ready sec s' \<and>
    formatted_tree (g_inodes s') (blks sec s')"
proof -
  have "post (\<lambda>ok s'. ok \<and> g_mounted s' \<and> synced sec s' \<and>
      (\<exists>tab B. formatted_tree tab B \<and> tree_at (super_synced ready sec) sec tab B s')) (fs_format io n m s)"
    using assms(2-5) reliable_disk.fs_format_tree [OF assms(1)] by (simp add: boot_mem_def)
  then show ?thesis using assms(6) super_consistent by (auto simp: post_def on_disk_def; blast)
qed

lemma init_effect:
  assumes "reliable_disk io sec ready" and "fs_consistent ready sec s" and "on_disk ready sec s"
    and "disk t = disk s" and "boot_mem t" and "fs_init io t = (ok, t')"
  shows "ok \<and> g_mounted t' \<and> fs_consistent ready sec t' \<and> tree_same sec s t' \<and>
    g_sb t' = g_sb s \<and> g_bitmap t' = g_bitmap s"
proof -
  have m: "mem_inv s" and tr: "tree_ok (g_inodes s) (blks sec s)" "is_dir (g_inodes s) 0"
    using assms(2) by (simp_all add: fs_consistent_def tree_at_def fs_at_def fs_ok_def)
  have i: "ok" "g_sb t' = g_sb s" "g_sb_pad t' = g_sb_pad s" "g_bitmap t' = g_bitmap s" "g_inodes t' = g_inodes s"
    "g_mounted t'" "ready (disk t')" "sec (disk t') = sec (disk s)"
    using reliable_disk.fs_init_restores [OF assms(1) m _ _ assms(4)] assms(3,5,6)
    by (simp_all add: on_disk_def boot_mem_def post_def)
  have b: "blks sec t' = blks sec s" using i by (auto simp: fun_eq_iff blks_def block_lba_def inode_at_def)
  have "mem_inv t'" using m i by (simp add: mem_inv_def)
  then show ?thesis
    using i b tr by (simp add: fs_consistent_def tree_at_def fs_at_def fs_ok_def tree_same_def)
qed

lemma tree_same_views:
  "tree_same sec s s' \<Longrightarrow> file_at sec s' d n = file_at sec s d n"
  "tree_same sec s s' \<Longrightarrow> subdir_at sec s' d n = subdir_at sec s d n"
  by (simp_all add: tree_same_def file_at_def subdir_at_def)

text \<open>A freshly formatted disk in memory.\<close>

definition blank_fs :: "ramdisk fs" where
  "blank_fs = \<lparr>g_sb = sb_of_bytes [], g_sb_pad = replicate 480 0, g_bitmap = replicate 4096 0,
     g_inodes = replicate 64 zero_inode, g_mounted = False, g_last_error = FS_ERR_NONE, disk = (\<lambda>_. zero_block)\<rparr>"

lemma blank_format:
  "boot_mem blank_fs" "5 \<le> unat (fst (format_blocks ram_ops 100 blank_fs))" "(64 :: u32) = 0 \<or> 4 \<le> (64 :: u32)"
  by (simp_all add: boot_mem_def blank_fs_def format_blocks_def)

lemma blank_formatted:
  obtains s where "fs_format ram_ops 100 64 blank_fs = (True, s)" "g_mounted s" "fs_consistent (\<lambda>_. True) ram_sec s"
    "on_disk (\<lambda>_. True) ram_sec s" "formatted_tree (g_inodes s) (blks ram_sec s)"
proof -
  obtain ok s where r: "fs_format ram_ops 100 64 blank_fs = (ok, s)" by (metis surj_pair)
  show thesis using format_effect [OF ram.reliable_disk_axioms _ blank_format r] that r by simp
qed

text \<open>C18: formatting a reliable disk with room for five blocks succeeds and leaves a mounted, consistent
  file system that is all on disk: its root holds nothing but the directory \<^verbatim>\<open>sys\<close>, and this the status
  flag 0xFF and the hash of the default password.
\<close>

theorem fs_format_spec:
  assumes "reliable_disk io sec ready" and "ready (disk s)" and "boot_mem s"
    and "5 \<le> unat (fst (format_blocks io n s))" and "m = 0 \<or> 4 \<le> m" and "fs_format io n m s = (ok, s')"
  shows "ok \<and> g_mounted s' \<and> fs_consistent ready sec s' \<and> on_disk ready sec s' \<and>
    formatted_tree (g_inodes s') (blks sec s')"
  using assms by (rule format_effect)

theorem fs_format_spec_witness:
  "\<exists>s. fs_format ram_ops 100 64 blank_fs = (True, s) \<and> fs_consistent (\<lambda>_. True) ram_sec s"
proof -
  obtain ok s where r: "fs_format ram_ops 100 64 blank_fs = (ok, s)" by (metis surj_pair)
  show ?thesis using fs_format_spec [OF ram.reliable_disk_axioms _ blank_format r] r by simp
qed

text \<open>\<^verbatim>\<open>fs_is_formatted\<close>, from any memory, recognises a disk that \<^verbatim>\<open>fs_format\<close> has set up.
\<close>

theorem fs_format_is_formatted:
  assumes "reliable_disk io sec ready" and "ready (disk s)" and "boot_mem s"
    and "5 \<le> unat (fst (format_blocks io n s))" and "m = 0 \<or> 4 \<le> m" and "fs_format io n m s = (ok, s')"
    and "disk t = disk s'"
  shows "fst (fs_is_formatted io t)"
proof -
  have F: "fs_consistent ready sec s'" "on_disk ready sec s'" "formatted_tree (g_inodes s') (blks sec s')"
    using format_effect [OF assms(1-6)] by simp_all
  have "post (\<lambda>ok t'. ok) (fs_is_formatted io t)"
    by (rule reliable_disk.fs_is_formatted_True [OF assms(1) consistent_super [OF F(1)] _ F(3) assms(7)])
      (use F(2) in \<open>simp_all add: on_disk_def\<close>)
  then show ?thesis by (auto simp: post_def)
qed

theorem fs_format_is_formatted_witness:
  "\<exists>s. fs_format ram_ops 100 64 blank_fs = (True, s) \<and> fst (fs_is_formatted ram_ops (blank_fs\<lparr>disk := disk s\<rparr>))"
proof -
  obtain s where r: "fs_format ram_ops 100 64 blank_fs = (True, s)" by (rule blank_formatted)
  show ?thesis
    using fs_format_is_formatted [OF ram.reliable_disk_axioms _ blank_format r, of "blank_fs\<lparr>disk := disk s\<rparr>"] r by simp
qed

text \<open>C19: mounting restores the file system: if all of \<open>s\<close> is on disk, \<^verbatim>\<open>fs_init\<close> from any memory
  succeeds and brings back the tables and with them every file and directory.
\<close>

theorem fs_init_remounts:
  assumes "reliable_disk io sec ready" and "fs_consistent ready sec s" and "on_disk ready sec s"
    and "disk t = disk s" and "boot_mem t" and "fs_init io t = (ok, t')"
  shows "ok \<and> g_mounted t' \<and> fs_consistent ready sec t' \<and> tree_same sec s t' \<and>
    g_sb t' = g_sb s \<and> g_bitmap t' = g_bitmap s"
  using assms by (rule init_effect)

theorem fs_init_remounts_witness:
  "\<exists>s t. fs_format ram_ops 100 64 blank_fs = (True, s) \<and>
     fs_init ram_ops (blank_fs\<lparr>disk := disk s\<rparr>) = (True, t) \<and> formatted_tree (g_inodes t) (blks ram_sec t)"
proof -
  obtain s where s: "fs_format ram_ops 100 64 blank_fs = (True, s)" "fs_consistent (\<lambda>_. True) ram_sec s"
    "on_disk (\<lambda>_. True) ram_sec s" "formatted_tree (g_inodes s) (blks ram_sec s)" by (rule blank_formatted)
  obtain ok t where r: "fs_init ram_ops (blank_fs\<lparr>disk := disk s\<rparr>) = (ok, t)" by (metis surj_pair)
  have "boot_mem (blank_fs\<lparr>disk := disk s\<rparr>)" by (simp add: boot_mem_def blank_fs_def)
  then show ?thesis
    using fs_init_remounts [OF ram.reliable_disk_axioms s(2,3) _ _ r] r s by (auto simp: tree_same_def)
qed

text \<open>C17: a file written by \<^verbatim>\<open>fs_write\<close> survives the next boot: \<^verbatim>\<open>fs_init\<close> from any memory, on the disk
  as the call has left it, succeeds, and \<^verbatim>\<open>fs_read\<close> returns what was written.
\<close>

theorem fs_write_survives_reboot:
  assumes "reliable_disk io sec ready" and "fs_consistent ready sec s"
    and "super_synced ready sec (fs_head s) (disk s)"
    and "fs_write io (Some name) data s = (True, s')"
    and "disk t = disk s'" and "boot_mem t" and "fs_init io t = (ok, t')"
  shows "ok \<and> fst (fs_read io (Some name) n t') = Some (take (unat n) (file_content data))"
proof -
  have K: "reliable_fs io sec ready (super_synced ready sec)" by (rule reliable_fsI(2) [OF assms(1)])
  have W: "fs_consistent ready sec s'" "g_mounted s" "synced sec s'" "name_ok name"
    "file_changed sec 0 name (Some (file_content data)) s s'"
    using fs_write_effect [OF assms(1,2), of name data] assms(4) by (simp_all add: step_effect_def)
  have "post (\<lambda>_. fs_ok (super_synced ready sec)) (fs_write io (Some name) data s)"
    by (rule fs_device.fs_write_keeps [OF K [unfolded reliable_fs_def, THEN conjunct1]])
      (use assms(2,3) in \<open>simp add: fs_consistent_def tree_at_def fs_at_def fs_ok_def\<close>)
  then have "super_synced ready sec (fs_head s') (disk s')" using assms(4) by (simp add: post_def fs_ok_def)
  then have o: "on_disk ready sec s'" using W(3) by (simp add: on_disk_def)
  note I = init_effect [OF assms(1) W(1) o assms(5-7)]
  have "is_dir (g_inodes s) 0" using assms(2) by (simp add: fs_consistent_def tree_at_def)
  then have "file_at sec s' 0 name = Some (file_content data)" using W(5) by (simp add: file_changed_def)
  then have "file_at sec t' 0 name = Some (file_content data)" using I tree_same_views(1) by metis
  then show ?thesis using I W(4) fs_read_effect [OF assms(1), of t' name n] by (simp add: name_ok_def)
qed

text \<open>The sample with its superblock on disk.\<close>

definition demo_super :: "ramdisk fs" where
  "demo_super = demo_fs\<lparr>disk := demo_disk(128 := sb_bytes (g_sb demo_fs) @ g_sb_pad demo_fs)\<rparr>"

lemma demo_super:
  "fs_consistent (\<lambda>_. True) ram_sec demo_super" "super_synced (\<lambda>_. True) ram_sec (fs_head demo_super) (disk demo_super)"
  "g_mounted demo_super" "file_at ram_sec demo_super 0 [102] = Some [104, 105]"
proof -
  have b: "blks ram_sec demo_super = blks ram_sec demo_fs"
    unfolding demo_super_def by (rule blks_frame [OF demo_mem_inv]) (simp_all add: ram_sec_def demo_fs_simps)
  have "fs_consistent (\<lambda>_. True) ram_sec demo_fs" by (rule demo_consistent)
  then show "fs_consistent (\<lambda>_. True) ram_sec demo_super"
    using b unfolding fs_consistent_def tree_at_def fs_at_def
    by (simp add: demo_super_def fs_ok_def mem_inv_def)
  show "super_synced (\<lambda>_. True) ram_sec (fs_head demo_super) (disk demo_super)"
    by (simp add: super_synced_def fs_head_def demo_super_def ram_sec_def pad_sector_id demo_fs_def)
  show "g_mounted demo_super" by (simp add: demo_super_def demo_fs_simps)
  show "file_at ram_sec demo_super 0 [102] = Some [104, 105]"
    using demo_at(1,3) b by (simp add: file_at_def demo_super_def)
qed

theorem fs_write_survives_reboot_witness:
  "\<exists>s' t'. fs_write ram_ops (Some [102]) (Some [98, 121, 101]) demo_super = (True, s') \<and>
     fs_init ram_ops (blank_fs\<lparr>disk := disk s'\<rparr>) = (True, t') \<and>
     fst (fs_read ram_ops (Some [102]) 512 t') = Some [98, 121, 101]"
proof -
  obtain ok s' where w: "fs_write ram_ops (Some [102]) (Some [98, 121, 101]) demo_super = (ok, s')" by (metis surj_pair)
  have ok
    using fs_write_effect [OF ram.reliable_disk_axioms demo_super(1), of "[102]" "Some [98, 121, 101]"] w demo_super(3,4)
    by (simp add: step_effect_def name_ok_def is_empty_def)
  with w have w': "fs_write ram_ops (Some [102]) (Some [98, 121, 101]) demo_super = (True, s')" by simp
  obtain ok t' where r: "fs_init ram_ops (blank_fs\<lparr>disk := disk s'\<rparr>) = (ok, t')" by (metis surj_pair)
  have "boot_mem (blank_fs\<lparr>disk := disk s'\<rparr>)" by (simp add: boot_mem_def blank_fs_def)
  then show ?thesis
    using fs_write_survives_reboot [OF ram.reliable_disk_axioms demo_super(1,2) w' _ _ r, of 512] w' r
    by (auto simp: file_content_def)
qed

section \<open>The password file\<close>

lemma hash_roundtrip:
  "ucast (hash_buf h ! 0) OR push_bit 8 (ucast (hash_buf h ! 1)) OR
   push_bit 16 (ucast (hash_buf h ! 2)) OR push_bit 24 (ucast (hash_buf h ! 3)) = (h :: u32)"
proof -
  have m: "(ucast (x AND 0xFF) :: u8) = ucast x" for x :: u32
  proof -
    have "x AND 0xFF = take_bit 8 x" by (simp add: take_bit_eq_mask mask_eq_exp_minus_1)
    then show ?thesis by (simp, intro bit_word_eqI) (simp add: bit_simps)
  qed
  show ?thesis using of_le32_bytes [of h] by (simp add: hash_buf_def m or.assoc)
qed

text \<open>Where the password is: a file of the directory \<^verbatim>\<open>sys\<close> of the root.\<close>

definition passwd_at :: "('d \<Rightarrow> nat \<Rightarrow> u8 list) \<Rightarrow> 'd fs \<Rightarrow> u8 list option" where
  "passwd_at sec s = (case subdir_at sec s 0 sys_name of None \<Rightarrow> None | Some d \<Rightarrow> file_at sec s d passwd_name)"

lemma read_passwd_effect:
  assumes "reliable_disk io sec ready" and "fs_consistent ready sec s" and "g_mounted s"
    and "passwd_at sec s = Some (hash_buf h)"
  shows "fst (fs_read_passwd io s) = Some h"
proof -
  obtain d where d: "subdir_at sec s 0 sys_name = Some d" "file_at sec s d passwd_name = Some (hash_buf h)"
    using assms(4) by (auto simp: passwd_at_def split: option.splits)
  have "post (\<lambda>r s'. r = map_option (take (unat (4 :: u32))) (file_view (g_inodes s) (blks sec s) d passwd_name) \<and>
      tree_at (at_head ready (fs_head s)) sec (g_inodes s) (blks sec s) s') (read_sys_file io passwd_name 4 s)"
    by (rule reliable_disk.read_sys_result [OF assms(1) consistentD [OF assms(2)] reliable_fsI(1) [OF assms(1)] assms(3)])
      (use d in \<open>simp add: subdir_at_def\<close>)
  then show ?thesis
    using d(2) hash_roundtrip [of h]
    by (auto simp: fs_read_passwd_def post_def file_at_def split: prod.split)
qed

text \<open>
  What writing the password does: it succeeds if the file exists, and changes only this file.
\<close>

lemma write_passwd_effect:
  assumes "reliable_disk io sec ready" and "fs_consistent ready sec s"
    and "subdir_at sec s 0 sys_name = Some d" and "file_at sec s d passwd_name \<noteq> None"
    and "fs_write_passwd io h s = (ok, s')"
  shows "ok \<and> fs_consistent ready sec s' \<and> fs_head s' = fs_head s \<and> synced sec s' \<and>
    file_changed sec d passwd_name (Some (hash_buf h)) s s'"
proof -
  have K: "reliable_fs io sec ready (at_head ready (fs_head s))" by (rule reliable_fsI(1) [OF assms(1)])
  have l: "mem_get (hash_buf h) 4 = hash_buf h" using mem_get_take [of 4 "hash_buf h"] by simp
  have "post (sys_done (at_head ready (fs_head s)) sec s (put_file d passwd_name (mem_get (hash_buf h) (unat (4 :: u32))))
      (g_inodes s) (blks sec s)) (write_sys_file io passwd_name (hash_buf h) 4 s)"
    by (rule reliable_fs.write_sys_existing [OF K consistentD [OF assms(2)]])
      (use assms(3,4) in \<open>auto simp: subdir_at_def file_at_def file_view_None names\<close>)
  then obtain tab B where t: "ok" "synced sec s'" "fs_head s' = fs_head s"
    "tree_at (at_head ready (fs_head s)) sec tab B s'" "put_file d passwd_name (hash_buf h) (g_inodes s) (blks sec s) tab B"
    using assms(5) by (auto simp: fs_write_passwd_def sys_done_def post_def l)
  then show ?thesis using consistentI [OF t(4)] put_effect [of d passwd_name _ s sec s'] by auto
qed

text \<open>C20: on a mounted file system that has a password file, \<^verbatim>\<open>fs_write_passwd\<close> succeeds, \<^verbatim>\<open>fs_read_passwd\<close>
  then returns the new hash, and no other file or directory has changed.
\<close>

theorem fs_passwd_roundtrip:
  assumes "reliable_disk io sec ready" and "fs_consistent ready sec s" and "g_mounted s"
    and "subdir_at sec s 0 sys_name = Some d" and "file_at sec s d passwd_name \<noteq> None"
    and "fs_write_passwd io h s = (ok, s')"
  shows "ok \<and> fst (fs_read_passwd io s') = Some h \<and> fs_consistent ready sec s' \<and>
    file_changed sec d passwd_name (Some (hash_buf h)) s s'"
proof -
  have W: "ok \<and> fs_consistent ready sec s' \<and> fs_head s' = fs_head s \<and> synced sec s' \<and>
    file_changed sec d passwd_name (Some (hash_buf h)) s s'"
    by (rule write_passwd_effect [OF assms(1,2,4-6)])
  have tr: "is_dir (g_inodes s) 0" "is_dir (g_inodes s) d"
    using assms(2) reliable_fs.subdir_at [OF reliable_fsI(1) [OF assms(1)] consistentD [OF assms(2)], of sys_name d] assms(4)
    by (simp_all add: fs_consistent_def tree_at_def subdir_at_def)
  then have "passwd_at sec s' = Some (hash_buf h)"
    using W assms(4) by (simp add: passwd_at_def file_changed_def)
  moreover have "g_mounted s'" using W assms(3) by (simp add: fs_head_def)
  ultimately show ?thesis using W read_passwd_effect [OF assms(1)] by simp
qed

text \<open>The freshly formatted disk has the default password.\<close>

lemma formatted_passwd:
  assumes "formatted_tree (g_inodes s) (blks sec s)"
  obtains d where "subdir_at sec s 0 sys_name = Some d" "file_at sec s d passwd_name = Some (hash_buf default_hash)"
proof -
  obtain d where d: "\<forall>n. entry_of (g_inodes s) (blks sec s) INODE_DIR 0 n = (if cstr n = sys_name then Some d else None)"
    "\<forall>n. file_view (g_inodes s) (blks sec s) d n = (if cstr n = status_name then Some [0xFF]
       else if cstr n = passwd_name then Some (hash_buf default_hash) else None)"
    using assms unfolding formatted_tree_def by blast
  show thesis
  proof (rule that)
    show "subdir_at sec s 0 sys_name = Some d"
      unfolding subdir_at_def d(1) [rule_format] names(1) by simp
    show "file_at sec s d passwd_name = Some (hash_buf default_hash)"
      unfolding file_at_def d(2) [rule_format] names(3) using names(6) by auto
  qed
qed

theorem fs_passwd_roundtrip_witness:
  "\<exists>s s'. fs_format ram_ops 100 64 blank_fs = (True, s) \<and> fs_write_passwd ram_ops 42 s = (True, s') \<and>
     fst (fs_read_passwd ram_ops s') = Some 42"
proof -
  obtain s where s: "fs_format ram_ops 100 64 blank_fs = (True, s)" "g_mounted s" "fs_consistent (\<lambda>_. True) ram_sec s"
    "formatted_tree (g_inodes s) (blks ram_sec s)" by (rule blank_formatted)
  obtain d where d: "subdir_at ram_sec s 0 sys_name = Some d" "file_at ram_sec s d passwd_name \<noteq> None"
    by (rule formatted_passwd [OF s(4)]) simp
  obtain ok s' where r: "fs_write_passwd ram_ops 42 s = (ok, s')" by (metis surj_pair)
  show ?thesis using fs_passwd_roundtrip [OF ram.reliable_disk_axioms s(3,2) d r] s r by auto
qed

text \<open>After formatting, the password on disk is the default one: \<^verbatim>\<open>fs_read_passwd\<close> returns
  \<^verbatim>\<open>fs_hash_password\<close> of the default password, also after a reboot.
\<close>

theorem fs_format_default_password:
  assumes "reliable_disk io sec ready" and "ready (disk s)" and "boot_mem s"
    and "5 \<le> unat (fst (format_blocks io n s))" and "m = 0 \<or> 4 \<le> m" and "fs_format io n m s = (ok, s')"
    and "disk t = disk s'" and "boot_mem t"
  shows "fst (fs_read_passwd io s') = Some (fs_hash_password default_password) \<and>
    fst (fs_read_passwd io (snd (fs_init io t))) = Some (fs_hash_password default_password)"
proof -
  have h: "default_hash = fs_hash_password default_password" by (simp add: default_hash_def fs_hash_password_def)
  have F: "g_mounted s'" "fs_consistent ready sec s'" "on_disk ready sec s'" "formatted_tree (g_inodes s') (blks sec s')"
    using format_effect [OF assms(1-6)] by simp_all
  have p: "passwd_at sec s' = Some (hash_buf default_hash)"
    by (rule formatted_passwd [OF F(4)]) (simp add: passwd_at_def)
  obtain ok t' where t': "fs_init io t = (ok, t')" by (metis surj_pair)
  note I = init_effect [OF assms(1) F(2,3) assms(7,8) t']
  then have "tree_same sec s' t'" by simp
  from p have "passwd_at sec t' = Some (hash_buf default_hash)"
    unfolding passwd_at_def tree_same_views [OF \<open>tree_same sec s' t'\<close>] .
  then show ?thesis
    using read_passwd_effect [OF assms(1)] F p I t' h by simp
qed

theorem fs_format_default_password_witness:
  "\<exists>s. fs_format ram_ops 100 64 blank_fs = (True, s) \<and>
     fst (fs_read_passwd ram_ops (snd (fs_init ram_ops (blank_fs\<lparr>disk := disk s\<rparr>)))) =
       Some (fs_hash_password default_password)"
proof -
  obtain s where r: "fs_format ram_ops 100 64 blank_fs = (True, s)" by (rule blank_formatted)
  have "boot_mem (blank_fs\<lparr>disk := disk s\<rparr>)" by (simp add: boot_mem_def blank_fs_def)
  then show ?thesis
    using fs_format_default_password [OF ram.reliable_disk_axioms _ blank_format r, of "blank_fs\<lparr>disk := disk s\<rparr>"] r by simp
qed

end
