(* ===== verification/Console.thy ===== *)
theory Console
  imports Prelude
begin

text \<open>
  The text screen, \<^verbatim>\<open>src/kernel/drivers/vga.cpp\<close>: 25 rows of 80 cells, the cursor position, and the
  registers of the display controller that place the hardware cursor. The specification is an endless
  page of which the screen shows 25 rows.
\<close>

abbreviation VGA_WIDTH :: nat where "VGA_WIDTH \<equiv> 80"
abbreviation VGA_HEIGHT :: nat where "VGA_HEIGHT \<equiv> 25"
abbreviation VGA_COLOR :: u16 where "VGA_COLOR \<equiv> 0x07"

record console =
  vga :: "u16 list"
  cursor_pos :: nat
  crtc_index :: u8
  crtc_regs :: "u8 \<Rightarrow> u8"

text \<open>The two ports of the controller: port \<open>0x3D4\<close> selects a register, port \<open>0x3D5\<close> writes it.\<close>

definition crtc_out :: "u16 \<Rightarrow> u8 \<Rightarrow> console \<Rightarrow> console" where
  "crtc_out port v con =
     (if port = 0x3D4 then con\<lparr>crtc_index := v\<rparr>
      else if port = 0x3D5 then con\<lparr>crtc_regs := (crtc_regs con)(crtc_index con := v)\<rparr>
      else con)"

definition update_cursor :: "console \<Rightarrow> console" where
  "update_cursor con =
     (let pos = (of_nat (cursor_pos con) :: u16);
          con = crtc_out 0x3D4 0x0F con;
          con = crtc_out 0x3D5 (ucast (pos AND 0xFF)) con;
          con = crtc_out 0x3D4 0x0E con
      in crtc_out 0x3D5 (ucast (drop_bit 8 pos AND 0xFF)) con)"

text \<open>A cell: the colour in the high byte; the character is a signed \<^verbatim>\<open>char\<close>, widened with its sign.\<close>

definition cell :: "u8 \<Rightarrow> u16" where
  "cell c = push_bit 8 VGA_COLOR OR scast c"

definition scroll :: "console \<Rightarrow> console" where
  "scroll con =
     (let b = fold (\<lambda>i b. b[i := b ! (i + VGA_WIDTH)]) [0..<(VGA_HEIGHT - 1) * VGA_WIDTH] (vga con);
          b = fold (\<lambda>i b. b[i := cell 32]) [(VGA_HEIGHT - 1) * VGA_WIDTH..<VGA_HEIGHT * VGA_WIDTH] b
      in con\<lparr>vga := b, cursor_pos := cursor_pos con - VGA_WIDTH\<rparr>)"

function scroll_while :: "console \<Rightarrow> console" where
  "scroll_while con =
     (if VGA_WIDTH * VGA_HEIGHT \<le> cursor_pos con then scroll_while (scroll con) else con)"
  by pat_completeness auto
termination
  by (relation "measure cursor_pos") (auto simp: scroll_def Let_def)

declare scroll_while.simps [simp del]

definition put_char :: "u8 \<Rightarrow> console \<Rightarrow> console" where
  "put_char c con =
     (let con =
        (if c = 10 then con\<lparr>cursor_pos := (cursor_pos con div VGA_WIDTH + 1) * VGA_WIDTH\<rparr>
         else if c = 8 then
           (if 0 < cursor_pos con then
              con\<lparr>cursor_pos := cursor_pos con - 1, vga := (vga con)[cursor_pos con - 1 := cell 32]\<rparr>
            else con)
         else con\<lparr>vga := (vga con)[cursor_pos con := cell c], cursor_pos := cursor_pos con + 1\<rparr>)
      in update_cursor (scroll_while con))"

fun print :: "u8 list \<Rightarrow> console \<Rightarrow> console" where
  "print [] con = con"
| "print (c # str) con = (if c = 0 then con else print str (put_char c con))"

definition println :: "u8 list \<Rightarrow> console \<Rightarrow> console" where
  "println str con = put_char 10 (print str con)"

definition clear_screen :: "console \<Rightarrow> console" where
  "clear_screen con =
     update_cursor (con\<lparr>vga := fold (\<lambda>i b. b[i := cell 32]) [0..<VGA_WIDTH * VGA_HEIGHT] (vga con),
       cursor_pos := 0\<rparr>)"

text \<open>Messages as byte strings.\<close>

definition ascii :: "string \<Rightarrow> u8 list" where
  "ascii s = map of_char s"

section \<open>The page\<close>

text \<open>
  An endless page and the row at its top on the screen. Characters go to the page; it moves up by one
  row when the position leaves the last one.
\<close>

record page =
  paper :: "nat \<Rightarrow> u16"
  pos :: nat
  top_row :: nat

definition page_move :: "page \<Rightarrow> page" where
  "page_move p = (if 80 * (top_row p + 25) \<le> pos p then p\<lparr>top_row := top_row p + 1\<rparr> else p)"

definition page_put :: "u8 \<Rightarrow> page \<Rightarrow> page" where
  "page_put c p = page_move
     (if c = 10 then p\<lparr>pos := 80 * (pos p div 80 + 1)\<rparr>
      else if c = 8 then
        (if 80 * top_row p < pos p then p\<lparr>paper := (paper p)(pos p - 1 := cell 32), pos := pos p - 1\<rparr> else p)
      else p\<lparr>paper := (paper p)(pos p := cell c), pos := pos p + 1\<rparr>)"

definition shows_page :: "console \<Rightarrow> page \<Rightarrow> bool" where
  "shows_page con p \<longleftrightarrow>
     vga con = map (paper p) [80 * top_row p..<80 * top_row p + 2000] \<and>
     pos p = 80 * top_row p + cursor_pos con \<and> cursor_pos con < 2000 \<and>
     (\<forall>i \<ge> 80 * top_row p + 2000. paper p i = cell 32)"

definition cursor_shown :: "console \<Rightarrow> bool" where
  "cursor_shown con \<longleftrightarrow>
     unat (crtc_regs con 0x0F) + 256 * unat (crtc_regs con 0x0E) = cursor_pos con"

section \<open>The screen shows the page\<close>

lemma fold_shift:
  "n + k \<le> length b \<Longrightarrow>
    fold (\<lambda>i b. b[i := b ! (i + k)]) [0..<n] b = map (\<lambda>i. if i < n then b ! (i + k) else b ! i) [0..<length b]"
proof (induction n)
  case 0
  then show ?case by (simp add: map_nth)
next
  case (Suc n)
  then show ?case
    by (auto intro!: nth_equalityI simp: nth_list_update less_Suc_eq)
qed

lemma fold_blank:
  "fold (\<lambda>i b. b[i := v]) [m..<n] b = map (\<lambda>i. if m \<le> i \<and> i < n then v else b ! i) [0..<length b]"
proof (induction n)
  case 0
  then show ?case by (simp add: map_nth)
next
  case (Suc n)
  then show ?case
    by (cases "m \<le> n") (auto intro!: nth_equalityI simp: nth_list_update less_Suc_eq)
qed

lemma scroll_vga:
  "length (vga con) = 2000 \<Longrightarrow> vga (scroll con) = drop 80 (vga con) @ replicate 80 (cell 32)"
  unfolding scroll_def Let_def
  by (simp add: fold_shift fold_blank del: upt_rec_numeral)
    (auto intro!: nth_equalityI simp: nth_append add.commute)

lemma update_cursor_fields [simp]:
  "vga (update_cursor con) = vga con" "cursor_pos (update_cursor con) = cursor_pos con"
  by (simp_all add: update_cursor_def crtc_out_def Let_def)

lemma cursor_shown_update: "cursor_pos con < 2 ^ 16 \<Longrightarrow> cursor_shown (update_cursor con)"
proof -
  assume c: "cursor_pos con < 2 ^ 16"
  let ?p = "of_nat (cursor_pos con) :: u16"
  have u: "unat ?p = cursor_pos con" using c by (simp add: unat_of_nat)
  have m: "x AND 0xFF = take_bit 8 x" for x :: u16 by (simp add: take_bit_eq_mask mask_eq_exp_minus_1)
  have "unat (ucast (?p AND 0xFF) :: u8) = cursor_pos con mod 256"
    unfolding m unsigned_ucast_eq unsigned_take_bit_eq u by (simp add: take_bit_eq_mod)
  moreover have "unat (ucast (drop_bit 8 ?p AND 0xFF) :: u8) = cursor_pos con div 256 mod 256"
    unfolding m unsigned_ucast_eq unsigned_take_bit_eq unat_drop_bit_eq u
    by (simp add: take_bit_eq_mod drop_bit_eq_div)
  moreover have "cursor_pos con div 256 < 256" using c by simp
  moreover have "crtc_regs (update_cursor con) 0x0F = ucast (?p AND 0xFF)"
      "crtc_regs (update_cursor con) 0x0E = ucast (drop_bit 8 ?p AND 0xFF)"
    by (simp_all add: update_cursor_def crtc_out_def Let_def)
  ultimately show ?thesis
    by (simp add: cursor_shown_def)
qed

lemma map_update_upt:
  "i < n \<Longrightarrow> map (f(k + i := v)) [k..<k + n] = (map f [k..<k + n])[i := v]"
  by (auto intro!: nth_equalityI simp: nth_list_update)

lemma scroll_page:
  assumes "vga con = map (paper p) [80 * top_row p..<80 * top_row p + 2000]"
    and "pos p = 80 * top_row p + cursor_pos con" "cursor_pos con < 2080"
    and "\<forall>i \<ge> 80 * top_row p + 2000. paper p i = cell 32"
  shows "shows_page (scroll_while con) (page_move p)"
proof (cases "cursor_pos con < 2000")
  case True
  then show ?thesis
    using assms by (simp add: scroll_while.simps [of con] page_move_def shows_page_def)
next
  case False
  have l: "length (vga con) = 2000" by (simp add: assms(1))
  have c: "cursor_pos (scroll con) = cursor_pos con - 80" by (simp add: scroll_def Let_def)
  then have "scroll_while con = scroll con"
    using False assms(3) by (simp add: scroll_while.simps [of con] scroll_while.simps [of "scroll con"])
  moreover have "vga (scroll con) = map (paper p) [80 * (top_row p + 1)..<80 * (top_row p + 1) + 2000]"
    unfolding scroll_vga [OF l] assms(1)
    by (rule nth_equalityI) (use assms(4) in \<open>auto simp: nth_append ac_simps\<close>)
  ultimately show ?thesis
    using False assms c by (auto simp: page_move_def shows_page_def)
qed

lemma shows_page_update: "shows_page (update_cursor con) p = shows_page con p"
  by (simp add: shows_page_def)

lemma put_char_page:
  assumes "shows_page con p"
  shows "shows_page (put_char c con) (page_put c p)"
proof -
  note a = assms [unfolded shows_page_def]
  have d: "(80 * top_row p + cursor_pos con) div 80 = top_row p + cursor_pos con div 80" by simp
  have n: "cursor_pos con div 80 < 25" using a by auto
  show ?thesis
    unfolding put_char_def page_put_def Let_def shows_page_update
  proof (rule scroll_page, goal_cases)
    case 1
    have b: "map ((paper p)(80 * top_row p + cursor_pos con - 1 := cell 32)) [80 * top_row p..<80 * top_row p + 2000] =
        (map (paper p) [80 * top_row p..<80 * top_row p + 2000])[cursor_pos con - 1 := cell 32]" if "0 < cursor_pos con"
      using that a by (subst map_update_upt [symmetric]) auto
    show ?case
      using a b map_update_upt [of "cursor_pos con" 2000 "paper p" "80 * top_row p"] by simp
  next
    case 2
    then show ?case using a d by auto
  next
    case 3
    then show ?case using a n by auto
  next
    case 4
    then show ?case using a by auto
  qed
qed

lemma put_char_cursor:
  assumes "shows_page con p"
  shows "cursor_shown (put_char c con)"
proof -
  have "cursor_pos (put_char c con) < 2000"
    using put_char_page [OF assms] by (simp add: shows_page_def)
  then show ?thesis
    unfolding put_char_def Let_def by (intro cursor_shown_update) simp
qed

lemma print_page:
  "shows_page con p \<Longrightarrow> shows_page (print s con) (fold page_put (cstr s) p)"
  by (induction s arbitrary: con p) (auto intro: put_char_page)

lemma println_page:
  "shows_page con p \<Longrightarrow> shows_page (println s con) (fold page_put (cstr s @ [10]) p) \<and>
    cursor_shown (println s con)"
  using put_char_page [OF print_page] put_char_cursor [OF print_page] by (simp add: println_def)

definition blank_page :: page where
  "blank_page = \<lparr>paper = (\<lambda>_. cell 32), pos = 0, top_row = 0\<rparr>"

lemma clear_screen_page:
  assumes "length (vga con) = 2000"
  shows "shows_page (clear_screen con) blank_page \<and> cursor_shown (clear_screen con)"
proof -
  have "vga (clear_screen con) = replicate 2000 (cell 32)"
    using assms by (auto simp: clear_screen_def fold_blank intro!: nth_equalityI simp del: upt_rec_numeral)
  moreover have "cursor_shown (clear_screen con)"
    unfolding clear_screen_def by (intro cursor_shown_update) simp
  ultimately show ?thesis
    by (auto simp: shows_page_def blank_page_def clear_screen_def map_replicate_const simp del: upt_rec_numeral)
qed

section \<open>Properties\<close>

text \<open>C36: After \<open>clear_screen\<close> and any number of \<open>println\<close> the screen shows the last 25 rows of the page that
  the same lines make when written to an endless one, and the hardware cursor stands where the next
  character goes.\<close>

theorem screen_refines_page:
  assumes "length (vga con) = 2000"
  shows "shows_page (fold println ls (clear_screen con))
      (fold (\<lambda>l. fold page_put (cstr l @ [10])) ls blank_page) \<and>
    cursor_shown (fold println ls (clear_screen con))"
proof -
  have "shows_page (fold println ls con) (fold (\<lambda>l. fold page_put (cstr l @ [10])) ls p) \<and>
      cursor_shown (fold println ls con)" if "shows_page con p \<and> cursor_shown con" for con p
    using that
  proof (induction ls arbitrary: con p)
    case (Cons l ls)
    show ?case
      using Cons.IH [of "println l con" "fold page_put (cstr l @ [10]) p"] println_page [of con p l] Cons.prems
      by (simp del: fold_append)
  qed simp
  then show ?thesis using clear_screen_page [OF assms] by blast
qed

definition demo_screen :: console where
  "demo_screen = \<lparr>vga = replicate 2000 0, cursor_pos = 17, crtc_index = 0, crtc_regs = (\<lambda>_. 0)\<rparr>"

theorem screen_refines_page_witness:
  "vga (fold println [[72, 105, 0]] (clear_screen demo_screen)) ! 1 = 0x0769 \<and>
   cursor_pos (fold println [[72, 105, 0]] (clear_screen demo_screen)) = 80"
  using screen_refines_page [of demo_screen "[[72, 105, 0]]"]
  by (simp add: demo_screen_def shows_page_def blank_page_def page_put_def page_move_def cell_def)

lemma high_bit:
  assumes "0x80 \<le> (c :: u8)"
  shows "bit c 7"
proof -
  have "128 \<le> unat c" "unat c < 256"
    using assms unsigned_less [of c] by (simp_all add: word_le_nat_alt)
  then have "unat c div 128 = 1" by simp
  then have "bit (unat c) 7" by (simp add: bit_iff_odd)
  then show ?thesis by (simp add: bit_unsigned_iff)
qed

text \<open>A character from 128 on is sign-extended before the colour is added: the colour byte becomes
  \<open>0xFF\<close> instead of \<open>VGA_COLOR\<close>.\<close>

theorem cell_high_character:
  assumes "0x80 \<le> c"
  shows "drop_bit 8 (cell c) = 0xFF"
proof -
  have "bit c 7" using assms by (rule high_bit)
  moreover have m: "(0xFF :: u16) = mask 8" by (simp add: mask_eq_exp_minus_1)
  ultimately show ?thesis
    unfolding cell_def m
    by (intro bit_word_eqI) (auto simp: bit_signed_iff bit_simps min_absorb1 simp del: push_bit_numeral)
qed

theorem cell_high_character_witness: "drop_bit 8 (cell 0xE8) = 0xFF"
  by (rule cell_high_character) simp

end
