(* ===== verification/Keyboard.thy ===== *)
theory Keyboard
  imports Console Util
begin

text \<open>
  The keyboard, \<^verbatim>\<open>src/kernel/drivers/keyboard.cpp\<close>: from scancodes to characters, the interrupt
  handler that edits a line of its own, and \<open>readl\<close>, which polls the controller with the interrupt
  masked. The controller is the list of scancodes it will deliver; polls that find none leave no trace.
\<close>

definition kbd_map :: "u8 list" where
  "kbd_map = [0, 27] @ ascii ''1234567890-='' @ [8] @
     [9] @ ascii ''qwertyuiop[]'' @ [10] @
     [0] @ ascii ''asdfghjkl;'' @ [39] @ [96] @ [0] @
     [92] @ ascii ''zxcvbnm,.-'' @ [0] @ ascii ''*'' @ [0] @ ascii '' '' @ replicate 70 0"

definition kbd_map_shift :: "u8 list" where
  "kbd_map_shift = [0, 27] @ ascii ''!'' @ [34, 0] @ ascii ''$%&/()=?^'' @ [8] @
     [9] @ ascii ''QWERTYUIOP'' @ [0] @ ascii ''*'' @ [10] @
     [0] @ ascii ''ASDFGHJKL'' @ [0, 0] @ ascii ''|'' @ [0] @
     [0] @ ascii ''ZXCVBNM;:_'' @ [0] @ ascii ''*'' @ [0] @ ascii '' '' @ replicate 70 0"

lemma length_maps: "length kbd_map = 128" "length kbd_map_shift = 128"
  by (simp_all add: kbd_map_def kbd_map_shift_def ascii_def)

record terminal =
  screen :: console
  shift_pressed :: bool
  input_buffer :: "u8 list"
  input_ptr :: nat
  keys :: "u8 list"
  pic_mask :: u8

definition released :: "u8 \<Rightarrow> bool" where
  "released scancode \<longleftrightarrow> scancode AND 0x80 \<noteq> 0"

definition key_of :: "u8 \<Rightarrow> u8" where
  "key_of scancode = scancode AND 0x7F"

definition is_shift :: "u8 \<Rightarrow> bool" where
  "is_shift scancode \<longleftrightarrow> key_of scancode = 0x2A \<or> key_of scancode = 0x36"

definition key_char :: "bool \<Rightarrow> u8 \<Rightarrow> u8" where
  "key_char shift scancode =
     (if shift then kbd_map_shift ! unat (key_of scancode) else kbd_map ! unat (key_of scancode))"

text \<open>The loop of \<open>readl\<close>; \<open>None\<close> where it waits for a key that never comes.\<close>

fun readl_loop :: "u8 list \<Rightarrow> u8 list \<Rightarrow> nat \<Rightarrow> terminal \<Rightarrow> (u8 list \<times> terminal) option" where
  "readl_loop [] buffer len t = None"
| "readl_loop (scancode # scs) buffer len t =
     (let t = t\<lparr>keys := scs\<rparr> in
      if is_shift scancode then readl_loop scs buffer len (t\<lparr>shift_pressed := \<not> released scancode\<rparr>)
      else if \<not> released scancode then
        let c = key_char (shift_pressed t) scancode in
        if c = 10 then Some (cstr buffer, t\<lparr>screen := put_char 10 (screen t)\<rparr>)
        else if c = 8 then
          (if 0 < len
           then readl_loop scs (buffer[len - 1 := 0]) (len - 1) (t\<lparr>screen := put_char 8 (screen t)\<rparr>)
           else readl_loop scs buffer len t)
        else if c \<noteq> 0 \<and> len < 255
        then readl_loop scs (buffer[len := c, len + 1 := 0]) (len + 1) (t\<lparr>screen := put_char c (screen t)\<rparr>)
        else readl_loop scs buffer len t
      else readl_loop scs buffer len t)"

text \<open>The 256 bytes of \<open>buffer\<close> are on the stack; those after the first are written before they are read.\<close>

definition readl :: "terminal \<Rightarrow> (u8 list \<times> terminal) option" where
  "readl t =
     (let saved_mask = pic_mask t; t = t\<lparr>pic_mask := saved_mask OR 0x02\<rparr>
      in case readl_loop (keys t) (replicate 256 0) 0 t of
           None \<Rightarrow> None
         | Some (line, t) \<Rightarrow> Some (line, t\<lparr>pic_mask := saved_mask\<rparr>))"

definition kprint :: "string \<Rightarrow> terminal \<Rightarrow> terminal" where
  "kprint s t = t\<lparr>screen := print (ascii s) (screen t)\<rparr>"

definition newline :: "terminal \<Rightarrow> terminal" where
  "newline t = t\<lparr>screen := put_char 10 (screen t)\<rparr>"

definition handle_command :: "terminal \<Rightarrow> terminal" where
  "handle_command t =
     (let t = t\<lparr>input_buffer := (input_buffer t)[input_ptr t := 0]\<rparr>;
          t = (if strcmp (input_buffer t) (ascii ''/help'') then
                 newline (kprint ''7OS HELP: DIGITA PER SCRIVERE. BACKSPACE PER CANCELLARE.'' (newline t))
               else if strcmp (input_buffer t) (ascii ''/test'') then
                 (let t = kprint ''NUMERO TEST: '' (newline t);
                      t = t\<lparr>screen := print (int_to_str (- 1234)) (screen t)\<rparr>
                  in newline t)
               else t)
      in newline (t\<lparr>input_ptr := 0\<rparr>))"

definition process_scancode :: "u8 \<Rightarrow> terminal \<Rightarrow> terminal" where
  "process_scancode scancode t =
     (if is_shift scancode then t\<lparr>shift_pressed := \<not> released scancode\<rparr>
      else if \<not> released scancode then
        let c = key_char (shift_pressed t) scancode in
        if c = 10 then handle_command t
        else if c = 8 then
          (if 0 < input_ptr t then t\<lparr>input_ptr := input_ptr t - 1, screen := put_char 8 (screen t)\<rparr> else t)
        else if c \<noteq> 0 \<and> input_ptr t < 255
        then t\<lparr>input_buffer := (input_buffer t)[input_ptr t := c], input_ptr := input_ptr t + 1,
               screen := put_char c (screen t)\<rparr>
        else t
      else t)"

text \<open>The interrupt handler reads one scancode.\<close>

definition keyboard_handler_main :: "terminal \<Rightarrow> terminal" where
  "keyboard_handler_main t =
     (case keys t of [] \<Rightarrow> process_scancode 0 t
      | scancode # scs \<Rightarrow> process_scancode scancode (t\<lparr>keys := scs\<rparr>))"

section \<open>Editing a line\<close>

text \<open>What typing means: the line as a list, its edits and their echo.\<close>

definition edit_char :: "u8 \<Rightarrow> u8 list \<Rightarrow> u8 list" where
  "edit_char c line =
     (if c = 8 then butlast line else if c \<noteq> 0 \<and> length line < 255 then line @ [c] else line)"

definition echo_char :: "u8 \<Rightarrow> u8 list \<Rightarrow> console \<Rightarrow> console" where
  "echo_char c line con =
     (if c = 8 then (if line \<noteq> [] then put_char 8 con else con)
      else if c \<noteq> 0 \<and> length line < 255 then put_char c con else con)"

fun type_line :: "u8 list \<Rightarrow> u8 list \<Rightarrow> bool \<Rightarrow> console \<Rightarrow> (u8 list \<times> u8 list \<times> bool \<times> console) option" where
  "type_line [] line sh con = None"
| "type_line (sc # scs) line sh con =
     (if is_shift sc then type_line scs line (\<not> released sc) con
      else if released sc then type_line scs line sh con
      else if key_char sh sc = 10 then Some (line, scs, sh, put_char 10 con)
      else type_line scs (edit_char (key_char sh sc) line) sh (echo_char (key_char sh sc) line con))"

text \<open>The buffer holds the line and its terminator.\<close>

lemma readl_loop_types:
  "length line + length zs = 255 \<Longrightarrow> 0 \<notin> set line \<Longrightarrow>
    readl_loop scs (line @ 0 # zs) (length line) t =
      map_option (\<lambda>(line, rest, sh, c). (line, t\<lparr>keys := rest, shift_pressed := sh, screen := c\<rparr>))
        (type_line scs line (shift_pressed t) (screen t))"
proof (induction scs arbitrary: line zs t)
  case (Cons sc scs)
  let ?c = "key_char (shift_pressed t) sc"
  consider "is_shift sc" | "\<not> is_shift sc" "released sc" | "\<not> is_shift sc" "\<not> released sc" "?c = 10"
    | "\<not> is_shift sc" "\<not> released sc" "?c = 8" | "\<not> is_shift sc" "\<not> released sc" "?c \<noteq> 10" "?c \<noteq> 8"
    by blast
  then show ?case
  proof cases
    case 1
    then show ?thesis
      using Cons.IH [OF Cons.prems, of "t\<lparr>keys := scs, shift_pressed := \<not> released sc\<rparr>"]
      by (simp add: Let_def)
  next
    case 2
    then show ?thesis
      using Cons.IH [OF Cons.prems, of "t\<lparr>keys := scs\<rparr>"] by (simp add: Let_def)
  next
    case 3
    then show ?thesis using Cons.prems by (simp add: cstr_append_zero)
  next
    case 4
    show ?thesis
    proof (cases line rule: rev_cases)
      case Nil
      then show ?thesis
        using 4 Cons.IH [of "[]" zs "t\<lparr>keys := scs\<rparr>"] Cons.prems by (simp add: edit_char_def echo_char_def)
    next
      case (snoc ds d)
      then have "(line @ 0 # zs)[length line - 1 := 0] = ds @ 0 # (0 # zs)" by simp
      then show ?thesis
        using 4 snoc Cons.prems
          Cons.IH [of ds "0 # zs" "t\<lparr>keys := scs, screen := put_char 8 (screen t)\<rparr>"]
        by (simp add: edit_char_def echo_char_def)
    qed
  next
    case 5
    show ?thesis
    proof (cases "?c \<noteq> 0 \<and> length line < 255")
      case False
      then show ?thesis
        using 5 Cons.IH [OF Cons.prems, of "t\<lparr>keys := scs\<rparr>"] by (auto simp: edit_char_def echo_char_def Let_def)
    next
      case True
      then obtain z zs' where zs: "zs = z # zs'" using Cons.prems(1) by (cases zs) auto
      then have "(line @ 0 # zs)[length line := ?c, length line + 1 := 0] = (line @ [?c]) @ 0 # zs'"
        by (simp add: list_update_append)
      then show ?thesis
        using 5 True zs Cons.prems
          Cons.IH [of "line @ [?c]" zs' "t\<lparr>keys := scs, screen := put_char ?c (screen t)\<rparr>"]
        by (simp add: edit_char_def echo_char_def Let_def)
    qed
  qed
qed simp

lemma edit_char_ok:
  "length line \<le> 255 \<Longrightarrow> set line \<inter> {0, 8, 10} = {} \<Longrightarrow> c \<noteq> 10 \<Longrightarrow>
    length (edit_char c line) \<le> 255 \<and> set (edit_char c line) \<inter> {0, 8, 10} = {}"
  by (auto simp: edit_char_def dest: in_set_butlastD)

lemma type_line_ok:
  "type_line scs line sh con = Some (l, rest, sh', con') \<Longrightarrow> length line \<le> 255 \<Longrightarrow>
    set line \<inter> {0, 8, 10} = {} \<Longrightarrow>
    length l \<le> 255 \<and> set l \<inter> {0, 8, 10} = {} \<and> length rest < length scs"
proof (induction scs line sh con rule: type_line.induct)
  case (2 sc scs line sh con)
  then show ?case using edit_char_ok [of line "key_char sh sc"] by (auto split: if_splits)
qed simp

lemma readl_types:
  "readl t = (case type_line (keys t) [] (shift_pressed t) (screen t) of None \<Rightarrow> None
     | Some (line, rest, sh, c) \<Rightarrow> Some (line, t\<lparr>keys := rest, shift_pressed := sh, screen := c\<rparr>))"
  using readl_loop_types [of "[]" "replicate 255 0" "keys t" "t\<lparr>pic_mask := pic_mask t OR 2\<rparr>"]
  by (simp add: readl_def Let_def numeral_eq_Suc split: option.splits prod.splits)

text \<open>C37: \<open>readl\<close> returns what the keys typed make of an empty line, each character added at its end and
  each backspace taking one away, up to the first Return; it waits if there is none. The line has at
  most 255 characters, none of them a terminator, a backspace or a newline. The screen echoes the
  edits, the interrupt mask is as before, the later keys are kept.\<close>

theorem readl_spec:
  "readl t = (case type_line (keys t) [] (shift_pressed t) (screen t) of None \<Rightarrow> None
     | Some (line, rest, sh, c) \<Rightarrow> Some (line, t\<lparr>keys := rest, shift_pressed := sh, screen := c\<rparr>)) \<and>
   pred_option (\<lambda>(line, t'). length line \<le> 255 \<and> set line \<inter> {0, 8, 10} = {} \<and>
     length (keys t') < length (keys t)) (readl t)"
  using type_line_ok [of "keys t" "[]" "shift_pressed t" "screen t"]
  by (auto simp: readl_types split: option.splits)

text \<open>The line of the interrupt handler.\<close>

definition kbd_ok :: "terminal \<Rightarrow> bool" where
  "kbd_ok t \<longleftrightarrow> length (input_buffer t) = 256 \<and> input_ptr t \<le> 255"

definition line_of :: "terminal \<Rightarrow> u8 list" where
  "line_of t = take (input_ptr t) (input_buffer t)"

lemma handle_command_line:
  "kbd_ok t \<Longrightarrow> kbd_ok (handle_command t) \<and> line_of (handle_command t) = []"
  by (simp add: handle_command_def kbd_ok_def line_of_def newline_def kprint_def Let_def)

text \<open>The interrupt handler edits its line by the same rules as \<open>readl\<close>: a key's character is added, a
  backspace takes the last one away, Return handles the line and empties it; the 256-byte buffer is
  never overrun, also not by the terminator that \<open>handle_command\<close> adds.\<close>

theorem process_scancode_spec:
  assumes "kbd_ok t"
  shows "kbd_ok (process_scancode sc t) \<and>
    line_of (process_scancode sc t) =
      (if is_shift sc \<or> released sc then line_of t
       else if key_char (shift_pressed t) sc = 10 then []
       else edit_char (key_char (shift_pressed t) sc) (line_of t))"
proof -
  have l: "length (line_of t) = input_ptr t" using assms by (simp add: line_of_def kbd_ok_def)
  consider "is_shift sc \<or> released sc" | "\<not> is_shift sc" "\<not> released sc" "key_char (shift_pressed t) sc = 10"
    | "\<not> is_shift sc" "\<not> released sc" "key_char (shift_pressed t) sc \<noteq> 10" by blast
  then show ?thesis
  proof cases
    case 1
    then show ?thesis using assms by (auto simp: process_scancode_def kbd_ok_def line_of_def)
  next
    case 2
    then show ?thesis using handle_command_line [OF assms] by (simp add: process_scancode_def)
  next
    case 3
    have "take (input_ptr t - 1) (input_buffer t) = butlast (line_of t)"
      using assms by (simp add: line_of_def kbd_ok_def butlast_take)
    moreover have "take (Suc (input_ptr t)) ((input_buffer t)[input_ptr t := c]) = line_of t @ [c]" for c
      using assms by (simp add: line_of_def kbd_ok_def take_Suc_conv_app_nth)
    ultimately show ?thesis
      using 3 assms l by (auto simp: process_scancode_def kbd_ok_def Let_def edit_char_def line_of_def)
  qed
qed

definition demo_terminal :: terminal where
  "demo_terminal = \<lparr>screen = demo_screen, shift_pressed = False, input_buffer = replicate 256 0,
     input_ptr = 0, keys = [0x2A, 0x1E, 0xAA, 0x30, 0x0E, 0x1C], pic_mask = 0xFE\<rparr>"

theorem process_scancode_spec_witness: "line_of (process_scancode 0x1E demo_terminal) = [97]"
  using process_scancode_spec [of demo_terminal "0x1E"]
  by (simp add: kbd_ok_def line_of_def demo_terminal_def is_shift_def released_def key_char_def key_of_def
      edit_char_def kbd_map_def ascii_def)

end
