(* ===== verification/Chips.thy ===== *)
theory Chips
  imports Prelude
begin

text \<open>
  The interrupt table, the interrupt controllers and the timer: \<^verbatim>\<open>src/kernel/arch/i386/idt.cpp\<close> and
  \<^verbatim>\<open>src/kernel/drivers/pit.cpp\<close>. The addresses of the assembly handlers and of the table are
  parameters; what is written to the ports is recorded in order.
\<close>

section \<open>Interrupt table\<close>

record idt_entry =
  base_low :: u16
  sel :: u16
  always0 :: u8
  flags :: u8
  base_high :: u16

record chips =
  idt :: "idt_entry list"
  idtp_limit :: u16
  idtp_base :: u32
  port_log :: "(u16 \<times> u8) list"
  pit_ticks :: u32

definition out8 :: "u16 \<Rightarrow> u8 \<Rightarrow> chips \<Rightarrow> chips" where
  "out8 port v c = c\<lparr>port_log := port_log c @ [(port, v)]\<rparr>"

definition idt_set_gate :: "u8 \<Rightarrow> u32 \<Rightarrow> u16 \<Rightarrow> u8 \<Rightarrow> chips \<Rightarrow> chips" where
  "idt_set_gate num addr selector fl c =
     c\<lparr>idt := (idt c)[unat num := (idt c ! unat num)
       \<lparr>base_low := ucast (addr AND 0xFFFF), base_high := ucast (drop_bit 16 addr AND 0xFFFF),
        sel := selector, always0 := 0, flags := fl\<rparr>]\<rparr>"

text \<open>The handlers of the assembly file and the address of the table.\<close>

record handlers =
  dummy_handler_asm :: u32
  pit_irq_wrapper :: u32
  keyboard_handler_asm :: u32
  idt_address :: u32

definition idt_install :: "handlers \<Rightarrow> chips \<Rightarrow> chips" where
  "idt_install h c =
     (let c = c\<lparr>idtp_limit := 8 * 256 - 1, idtp_base := idt_address h\<rparr>;
          c = fold (\<lambda>i. idt_set_gate (of_nat i) (dummy_handler_asm h) 0x08 0x8E) [0..<256] c;
          c = out8 0xA0 0x11 (out8 0x20 0x11 c);
          c = out8 0xA1 0x28 (out8 0x21 0x20 c);
          c = out8 0xA1 0x02 (out8 0x21 0x04 c);
          c = out8 0xA1 0x01 (out8 0x21 0x01 c);
          c = out8 0x21 0xFE c;
          c = out8 0xA1 0xFF c;
          c = idt_set_gate 32 (pit_irq_wrapper h) 0x08 0x8E c
      in idt_set_gate 33 (keyboard_handler_asm h) 0x08 0x8E c)"

section \<open>Timer\<close>

definition io_wait :: "chips \<Rightarrow> chips" where
  "io_wait c = out8 0x80 0 c"

definition pit_init :: "u32 \<Rightarrow> chips \<Rightarrow> chips" where
  "pit_init frequency_hz c =
     (let divisor = (ucast (1193182 div frequency_hz) :: u16);
          c = io_wait (out8 0x43 0x36 c);
          c = io_wait (out8 0x40 (ucast (divisor AND 0xFF)) c)
      in io_wait (out8 0x40 (ucast (drop_bit 8 divisor)) c))"

definition pit_handler :: "chips \<Rightarrow> chips" where
  "pit_handler c = c\<lparr>pit_ticks := pit_ticks c + 1\<rparr>"

text \<open>How often the delay loops turn; \<open>seconds * 1000\<close> is an \<^verbatim>\<open>int\<close> multiplication.\<close>

definition wait_ms :: "u32 \<Rightarrow> nat" where
  "wait_ms ms = unat ms * 50000"

definition wait :: "u32 \<Rightarrow> nat" where
  "wait seconds = wait_ms (seconds * 1000)"

section \<open>Properties\<close>

definition gate_base :: "idt_entry \<Rightarrow> u32" where
  "gate_base e = ucast (base_low e) OR push_bit 16 (ucast (base_high e))"

lemma gate_base_halves:
  "ucast (ucast (b AND 0xFFFF :: u32) :: u16) OR push_bit 16 (ucast (ucast (drop_bit 16 b AND 0xFFFF) :: u16)) = b"
proof -
  have m: "(0xFFFF :: u32) = mask 16" by (simp add: mask_eq_exp_minus_1)
  show ?thesis
    unfolding m by (rule bit_word_eqI) (auto simp: bit_simps)
qed

lemma set_gates:
  "n \<le> 256 \<Longrightarrow> length (idt c) = 256 \<Longrightarrow>
    length (idt (fold (\<lambda>i. idt_set_gate (of_nat i) b s f) [0..<n] c)) = 256 \<and>
    (\<forall>i < n. gate_base (idt (fold (\<lambda>i. idt_set_gate (of_nat i) b s f) [0..<n] c) ! i) = b \<and>
       sel (idt (fold (\<lambda>i. idt_set_gate (of_nat i) b s f) [0..<n] c) ! i) = s \<and>
       flags (idt (fold (\<lambda>i. idt_set_gate (of_nat i) b s f) [0..<n] c) ! i) = f)"
proof (induction n)
  case (Suc n)
  have "unat (of_nat n :: u8) = n" using Suc.prems(1) by (simp add: unat_of_nat)
  then show ?case
    using Suc by (auto simp: idt_set_gate_def nth_list_update less_Suc_eq gate_base_def gate_base_halves)
qed simp

lemma idt_out8 [simp]: "idt (out8 port v c) = idt c"
  by (simp add: out8_def)

lemma idt_set_gate_nth:
  "unat num < length (idt c) \<Longrightarrow> idt (idt_set_gate num addr s f c) ! i =
     (if i = unat num then (idt c ! i)\<lparr>base_low := ucast (addr AND 0xFFFF),
        base_high := ucast (drop_bit 16 addr AND 0xFFFF), sel := s, always0 := 0, flags := f\<rparr>
      else idt c ! i)"
  by (auto simp: idt_set_gate_def nth_list_update)

lemma idt_set_gate_fields [simp]:
  "length (idt (idt_set_gate num addr s f c)) = length (idt c)"
  "port_log (idt_set_gate num addr s f c) = port_log c"
  "idtp_limit (idt_set_gate num addr s f c) = idtp_limit c"
  by (simp_all add: idt_set_gate_def)

lemma set_gates_fields [simp]:
  "port_log (fold (\<lambda>i. idt_set_gate (of_nat i) b s f) ns c) = port_log c"
  "idtp_limit (fold (\<lambda>i. idt_set_gate (of_nat i) b s f) ns c) = idtp_limit c"
  "length (idt (fold (\<lambda>i. idt_set_gate (of_nat i) b s f) ns c)) = length (idt c)"
  by (induction ns arbitrary: c) auto

lemma out8_fields [simp]:
  "idtp_limit (out8 port v c) = idtp_limit c" "port_log (out8 port v c) = port_log c @ [(port, v)]"
  by (simp_all add: out8_def)

text \<open>\<open>idt_install\<close> fills all 256 gates: 32 with the timer handler, 33 with the keyboard handler, every
  other with the dummy handler, all as present interrupt gates of the code segment. The table limit is
  that of 256 entries, and of all interrupt lines only the timer's is left unmasked.\<close>

theorem idt_install_spec:
  assumes "length (idt c) = 256" and "n < 256"
  shows "gate_base (idt (idt_install h c) ! n) =
      (if n = 32 then pit_irq_wrapper h else if n = 33 then keyboard_handler_asm h else dummy_handler_asm h) \<and>
    sel (idt (idt_install h c) ! n) = 0x08 \<and> flags (idt (idt_install h c) ! n) = 0x8E \<and>
    unat (idtp_limit (idt_install h c)) + 1 = 8 * length (idt (idt_install h c)) \<and>
    map_of (rev (port_log (idt_install h c))) 0x21 = Some 0xFE \<and>
    map_of (rev (port_log (idt_install h c))) 0xA1 = Some 0xFF"
proof -
  let ?c = "c\<lparr>idtp_limit := 8 * 256 - 1, idtp_base := idt_address h\<rparr>"
  note g = set_gates [of 256 ?c "dummy_handler_asm h" "0x08" "0x8E"]
  have "gate_base (idt (fold (\<lambda>i. idt_set_gate (of_nat i) (dummy_handler_asm h) 0x08 0x8E) [0..<256] ?c) ! n)
      = dummy_handler_asm h"
    "sel (idt (fold (\<lambda>i. idt_set_gate (of_nat i) (dummy_handler_asm h) 0x08 0x8E) [0..<256] ?c) ! n) = 0x08"
    "flags (idt (fold (\<lambda>i. idt_set_gate (of_nat i) (dummy_handler_asm h) 0x08 0x8E) [0..<256] ?c) ! n) = 0x8E"
    using g assms by auto
  then show ?thesis
    using assms gate_base_halves
    by (auto simp: idt_install_def Let_def idt_set_gate_nth gate_base_def simp del: upt_rec_numeral)
qed

definition demo_handlers :: handlers where
  "demo_handlers = \<lparr>dummy_handler_asm = 0x10000, pit_irq_wrapper = 0x10040, keyboard_handler_asm = 0x10080,
     idt_address = 0x20000\<rparr>"

definition demo_chips :: chips where
  "demo_chips = \<lparr>idt = replicate 256 \<lparr>base_low = 0, sel = 0, always0 = 0, flags = 0, base_high = 0\<rparr>,
     idtp_limit = 0, idtp_base = 0, port_log = [], pit_ticks = 0\<rparr>"

theorem idt_install_spec_witness: "gate_base (idt (idt_install demo_handlers demo_chips) ! 33) = 0x10080"
  using idt_install_spec [of demo_chips 33 demo_handlers] by (simp add: demo_chips_def demo_handlers_def)

text \<open>For every frequency of at least 19 Hz the two bytes sent to channel 0 are the low and the high byte of
  the clock divided by it.\<close>

theorem pit_init_spec:
  assumes "19 \<le> unat hz"
  shows "\<exists>lo hi. port_log (pit_init hz c) =
      port_log c @ [(0x43, 0x36), (0x80, 0), (0x40, lo), (0x80, 0), (0x40, hi), (0x80, 0)] \<and>
    unat lo + 256 * unat hi = 1193182 div unat hz"
proof -
  let ?d = "ucast (1193182 div hz) :: u16"
  have "1193182 div unat hz \<le> 1193182 div 19" using assms by (rule div_le_mono2 [rotated]) simp
  then have d: "unat ?d = 1193182 div unat hz"
    by (simp add: unsigned_ucast_eq unat_div_distrib take_bit_nat_eq_self)
  have "unat (ucast (x AND 0xFF) :: u8) = unat x mod 256" for x :: u16
  proof -
    have m: "x AND 0xFF = take_bit 8 x" by (simp add: take_bit_eq_mask mask_eq_exp_minus_1)
    show ?thesis
      unfolding m unsigned_ucast_eq unsigned_take_bit_eq by (simp add: take_bit_eq_mod)
  qed
  moreover have "unat x div 256 < 256" for x :: u16
  proof -
    have "unat x < 65536" using unsigned_less [of x] by simp
    then show ?thesis by simp
  qed
  then have "unat (ucast (drop_bit 8 ?d) :: u8) = unat ?d div 256"
    unfolding unsigned_ucast_eq unat_drop_bit_eq by (simp add: take_bit_eq_mod drop_bit_eq_div)
  ultimately show ?thesis
    unfolding d [symmetric] by (intro exI) (auto simp: pit_init_def Let_def io_wait_def)
qed

theorem pit_init_spec_witness:
  "\<exists>lo hi. port_log (pit_init 1000 demo_chips) = [(0x43, 0x36), (0x80, 0), (0x40, lo), (0x80, 0), (0x40, hi), (0x80, 0)] \<and>
    unat lo + 256 * unat hi = 1193"
  using pit_init_spec [of 1000 demo_chips] by (simp add: demo_chips_def)

end
