(* ===== verification/Ata.thy ===== *)
theory Ata
  imports Disk
begin

text \<open>The ATA driver \<^verbatim>\<open>src/kernel/drivers/ata.cpp\<close>, polled programmed input and
  output. The ports are a parameter: four functions on the state of the hardware
  (\<^verbatim>\<open>arch/i386/io.h\<close>). What an ATA drive does on them is the locale
  \<open>pio_drive\<close>; from it follow both contracts of theory \<open>Disk\<close> for the
  driver.\<close>

section \<open>The driver\<close>

record 'w ports =
  inb :: "'w \<Rightarrow> u16 \<Rightarrow> u8 \<times> 'w"
  outb :: "'w \<Rightarrow> u16 \<Rightarrow> u8 \<Rightarrow> 'w"
  inw :: "'w \<Rightarrow> u16 \<Rightarrow> u16 \<times> 'w"
  outw :: "'w \<Rightarrow> u16 \<Rightarrow> u16 \<Rightarrow> 'w"

abbreviation ATA_PRIMARY_CTRL :: u16 where "ATA_PRIMARY_CTRL \<equiv> 0x3F6"
abbreviation ATA_DATA :: u16 where "ATA_DATA \<equiv> 0x1F0"
abbreviation ATA_SECCOUNT0 :: u16 where "ATA_SECCOUNT0 \<equiv> 0x1F2"
abbreviation ATA_LBA0 :: u16 where "ATA_LBA0 \<equiv> 0x1F3"
abbreviation ATA_LBA1 :: u16 where "ATA_LBA1 \<equiv> 0x1F4"
abbreviation ATA_LBA2 :: u16 where "ATA_LBA2 \<equiv> 0x1F5"
abbreviation ATA_HDDEVSEL :: u16 where "ATA_HDDEVSEL \<equiv> 0x1F6"
abbreviation ATA_STATUS :: u16 where "ATA_STATUS \<equiv> 0x1F7"
abbreviation ATA_COMMAND :: u16 where "ATA_COMMAND \<equiv> 0x1F7"

definition ata_io_wait :: "'w ports \<Rightarrow> 'w \<Rightarrow> 'w" where
  "ata_io_wait p w =
     (let (_, w) = inb p w ATA_PRIMARY_CTRL; (_, w) = inb p w ATA_PRIMARY_CTRL;
          (_, w) = inb p w ATA_PRIMARY_CTRL; (_, w) = inb p w ATA_PRIMARY_CTRL in w)"

text \<open>The polling loops, by the number of polls left; each starts with \<open>0x4000\<close>.\<close>

primrec poll_not_busy :: "'w ports \<Rightarrow> nat \<Rightarrow> 'w \<Rightarrow> bool \<times> 'w" where
  "poll_not_busy p 0 w = (False, w)"
| "poll_not_busy p (Suc n) w =
     (let (status, w) = inb p w ATA_STATUS in
      if status = 0xFF then (False, w)
      else if status AND 0x80 = 0 then (status AND 0x01 = 0, w)
      else poll_not_busy p n w)"

primrec poll_drq :: "'w ports \<Rightarrow> nat \<Rightarrow> 'w \<Rightarrow> bool \<times> 'w" where
  "poll_drq p 0 w = (False, w)"
| "poll_drq p (Suc n) w =
     (let (status, w) = inb p w ATA_STATUS in
      if status = 0xFF then (False, w)
      else if status AND 0x01 \<noteq> 0 then (False, w)
      else if status AND 0x80 = 0 \<and> status AND 0x08 \<noteq> 0 then (True, w)
      else poll_drq p n w)"

primrec poll_ready :: "'w ports \<Rightarrow> nat \<Rightarrow> 'w \<Rightarrow> bool \<times> 'w" where
  "poll_ready p 0 w = (False, w)"
| "poll_ready p (Suc n) w =
     (let (status, w) = inb p w ATA_STATUS in
      if status = 0xFF then (False, w)
      else if status AND 0x80 = 0 \<and> status AND 0x40 \<noteq> 0 then (True, w)
      else poll_ready p n w)"

definition ata_wait_not_busy :: "'w ports \<Rightarrow> 'w \<Rightarrow> bool \<times> 'w" where
  "ata_wait_not_busy p w = poll_not_busy p 0x4000 w"

definition ata_wait_drq :: "'w ports \<Rightarrow> 'w \<Rightarrow> bool \<times> 'w" where
  "ata_wait_drq p w = poll_drq p 0x4000 w"

definition ata_init :: "'w ports \<Rightarrow> 'w \<Rightarrow> bool \<times> 'w" where
  "ata_init p w =
     (let w = outb p w ATA_PRIMARY_CTRL 0x04;
          w = ata_io_wait p w;
          w = outb p w ATA_PRIMARY_CTRL 0x00;
          w = outb p w ATA_HDDEVSEL 0xA0;
          w = ata_io_wait p w
      in poll_ready p 0x4000 w)"

definition ata_select_drive :: "'w ports \<Rightarrow> u32 \<Rightarrow> 'w \<Rightarrow> 'w" where
  "ata_select_drive p lba w =
     ata_io_wait p (outb p w ATA_HDDEVSEL (ucast (0xE0 OR (drop_bit 24 lba AND 0x0F))))"

text \<open>What both transfers write to the registers for one sector, and the command after it.\<close>

definition ata_task :: "'w ports \<Rightarrow> u32 \<Rightarrow> 'w \<Rightarrow> 'w" where
  "ata_task p lba w =
     (let w = ata_select_drive p lba w;
          w = outb p w ATA_SECCOUNT0 1;
          w = outb p w ATA_LBA0 (ucast (lba AND 0xFF));
          w = outb p w ATA_LBA1 (ucast (drop_bit 8 lba AND 0xFF))
      in outb p w ATA_LBA2 (ucast (drop_bit 16 lba AND 0xFF)))"

definition ata_command :: "'w ports \<Rightarrow> u8 \<Rightarrow> u32 \<Rightarrow> 'w \<Rightarrow> 'w" where
  "ata_command p cmd lba w = ata_io_wait p (outb p (ata_task p lba w) ATA_COMMAND cmd)"

abbreviation ATA_CMD_READ_PIO :: u8 where "ATA_CMD_READ_PIO \<equiv> 0x20"
abbreviation ATA_CMD_WRITE_PIO :: u8 where "ATA_CMD_WRITE_PIO \<equiv> 0x30"
abbreviation ATA_CMD_CACHE_FLUSH :: u8 where "ATA_CMD_CACHE_FLUSH \<equiv> 0xE7"
abbreviation ATA_CMD_IDENTIFY :: u8 where "ATA_CMD_IDENTIFY \<equiv> 0xEC"

primrec read_data :: "'w ports \<Rightarrow> nat \<Rightarrow> 'w \<Rightarrow> u8 list \<times> 'w" where
  "read_data p 0 w = ([], w)"
| "read_data p (Suc n) w =
     (let (data, w) = inw p w ATA_DATA; (bs, w) = read_data p n w
      in (ucast (data AND 0xFF) # ucast (drop_bit 8 data) # bs, w))"

primrec read_loop :: "'w ports \<Rightarrow> nat \<Rightarrow> u32 \<Rightarrow> 'w \<Rightarrow> bool \<times> u8 list \<times> 'w" where
  "read_loop p 0 lba w = (True, [], w)"
| "read_loop p (Suc n) lba w =
     (let w = ata_command p ATA_CMD_READ_PIO lba w;
          (ok, w) = ata_wait_drq p w in if \<not> ok then (False, [], w) else
      let (bs, w) = read_data p 256 w;
          (ok, rest, w) = read_loop p n (lba + 1) w
      in (ok, bs @ rest, w))"

definition ata_read_sectors :: "'w ports \<Rightarrow> 'w \<Rightarrow> u32 \<Rightarrow> u32 \<Rightarrow> bool \<times> u8 list \<times> 'w" where
  "ata_read_sectors p w lba sector_count =
     (if sector_count = 0 then (True, [], w) else read_loop p (unat sector_count) lba w)"

primrec write_data :: "'w ports \<Rightarrow> nat \<Rightarrow> u8 list \<Rightarrow> 'w \<Rightarrow> 'w" where
  "write_data p 0 buf w = w"
| "write_data p (Suc n) buf w =
     write_data p n (drop 2 buf)
       (outw p w ATA_DATA (ucast (byte_at buf 0) OR push_bit 8 (ucast (byte_at buf 1))))"

primrec write_loop :: "'w ports \<Rightarrow> nat \<Rightarrow> u32 \<Rightarrow> u8 list \<Rightarrow> 'w \<Rightarrow> bool \<times> 'w" where
  "write_loop p 0 lba buf w = (True, w)"
| "write_loop p (Suc n) lba buf w =
     (let w = ata_command p ATA_CMD_WRITE_PIO lba w;
          (ok, w) = ata_wait_drq p w in if \<not> ok then (False, w) else
      let w = write_data p 256 buf w;
          w = outb p w ATA_COMMAND ATA_CMD_CACHE_FLUSH;
          w = ata_io_wait p w;
          (ok, w) = ata_wait_not_busy p w in if \<not> ok then (False, w) else
      write_loop p n (lba + 1) (drop 512 buf) w)"

definition ata_write_sectors :: "'w ports \<Rightarrow> 'w \<Rightarrow> u32 \<Rightarrow> u8 list \<Rightarrow> u32 \<Rightarrow> bool \<times> 'w" where
  "ata_write_sectors p w lba buffer sector_count =
     (if sector_count = 0 then (True, w) else write_loop p (unat sector_count) lba buffer w)"

primrec read_words :: "'w ports \<Rightarrow> nat \<Rightarrow> 'w \<Rightarrow> u16 list \<times> 'w" where
  "read_words p 0 w = ([], w)"
| "read_words p (Suc n) w =
     (let (data, w) = inw p w ATA_DATA; (ws, w) = read_words p n w in (data # ws, w))"

definition identify_sectors :: "u16 list \<Rightarrow> u64" where
  "identify_sectors data =
     (let sectors28 = (ucast (data ! 60) OR push_bit 16 (ucast (data ! 61)) :: u32);
          sectors48 = (ucast (data ! 100) OR push_bit 16 (ucast (data ! 101))
             OR push_bit 32 (ucast (data ! 102)) OR push_bit 48 (ucast (data ! 103)) :: u64)
      in if sectors48 \<noteq> 0 then sectors48 else ucast sectors28)"

text \<open>The identification command, with the wait after it.\<close>

definition ata_identify :: "'w ports \<Rightarrow> 'w \<Rightarrow> 'w" where
  "ata_identify p w =
     (let w = outb p w ATA_HDDEVSEL 0xA0;
          w = ata_io_wait p w;
          w = outb p w ATA_SECCOUNT0 0;
          w = outb p w ATA_LBA0 0;
          w = outb p w ATA_LBA1 0;
          w = outb p w ATA_LBA2 0;
          w = outb p w ATA_COMMAND ATA_CMD_IDENTIFY
      in ata_io_wait p w)"

definition ata_get_sector_count :: "'w ports \<Rightarrow> 'w \<Rightarrow> u64 option \<times> 'w" where
  "ata_get_sector_count p w =
     (let (status, w) = inb p (ata_identify p w) ATA_STATUS in
      if status = 0 \<or> status = 0xFF then (None, w) else
      let (ok, w) = ata_wait_drq p w in if \<not> ok then (None, w) else
      let (data, w) = read_words p 256 w; sectors = identify_sectors data
      in if sectors = 0 then (None, w) else (Some sectors, w))"

definition ata_ops :: "'w ports \<Rightarrow> 'w disk_ops" where
  "ata_ops p = \<lparr>read_sectors = ata_read_sectors p, write_sectors = ata_write_sectors p,
     get_sector_count = ata_get_sector_count p\<rparr>"

section \<open>The drive\<close>

text \<open>What an ATA drive does, as far as the driver depends on it. A command in progress is a phase:
  fetching data (\<open>Fetch\<close>, with the sector it comes from, \<open>None\<close> for the identification, and
  the words) and offering them (\<open>Offer\<close>), getting ready for data to write (\<open>Accept\<close>) and taking
  them (\<open>Take\<close>), storing a sector of which it has all words (\<open>Storing\<close>), flushing its cache
  after that (\<open>Flushing\<close>).\<close>

datatype phase =
    Idle
  | Fetch "nat option" "u16 list"
  | Offer "u16 list"
  | Accept nat
  | Take nat "u16 list"
  | Storing nat "u16 list"
  | Flushing nat "u16 list"

definition reg_lba :: "(u16 \<Rightarrow> u8) \<Rightarrow> nat" where
  "reg_lba r = unat (r ATA_LBA0) + 2 ^ 8 * unat (r ATA_LBA1) + 2 ^ 16 * unat (r ATA_LBA2) +
     2 ^ 24 * (unat (r ATA_HDDEVSEL) mod 16)"

definition words_of :: "nat \<Rightarrow> u8 list \<Rightarrow> u16 list" where
  "words_of n buf =
     map (\<lambda>i. ucast (byte_at buf (2 * i)) OR push_bit 8 (ucast (byte_at buf (2 * i + 1)))) [0..<n]"

definition bytes_of :: "u16 list \<Rightarrow> u8 list" where
  "bytes_of ws = concat (map (\<lambda>w. [ucast (w AND 0xFF), ucast (drop_bit 8 w)]) ws)"

abbreviation task_ports :: "u16 set" where
  "task_ports \<equiv> {ATA_SECCOUNT0, ATA_LBA0, ATA_LBA1, ATA_LBA2, ATA_HDDEVSEL}"

text \<open>A status that reports an error, that the drive is busy, or neither.\<close>

abbreviation st_err :: "u8 \<Rightarrow> bool" where "st_err st \<equiv> st AND 0x01 \<noteq> 0"
abbreviation st_bsy :: "u8 \<Rightarrow> bool" where "st_bsy st \<equiv> st AND 0x80 \<noteq> 0"
abbreviation st_drq :: "u8 \<Rightarrow> bool" where "st_drq st \<equiv> st AND 0x08 \<noteq> 0"

text \<open>
  The protocol of the ATA standard for programmed input and output, as far as the driver depends on it.
  While the busy bit is set the other bits of the status mean nothing. After the last word of a sector the drive
  is busy, and a busy drive ignores what is written to its command register; so the CACHE FLUSH which the driver
  issues at once, without a look at the busy bit, is either ignored (the drive goes on storing) or, if the
  drive has stored the sector by then, carried out. A drive on which the write has already failed by then
  is outside the protocol modelled here: the flush command would clear its error bit unseen. So is a drive that
  reports a fault in the fault bit only, which the driver does not look at.
\<close>

locale ata_drive =
  fixes p :: "'w ports"
    and sec :: "'w \<Rightarrow> nat \<Rightarrow> u8 list"
    and regs :: "'w \<Rightarrow> u16 \<Rightarrow> u8"
    and phase :: "'w \<Rightarrow> phase"
    and ident :: "u16 list"
  assumes sec_size: "length (sec w l) = 512"
    and ident_size: "length ident = 256"
    and alt_status: "inb p w ATA_PRIMARY_CTRL = (st, w') \<Longrightarrow>
      sec w' = sec w \<and> regs w' = regs w \<and> phase w' = phase w"
    and task_file: "r \<in> task_ports \<Longrightarrow> phase w = Idle \<Longrightarrow>
      sec (outb p w r v) = sec w \<and> regs (outb p w r v) = (regs w)(r := v) \<and> phase (outb p w r v) = Idle"
    and read_command: "phase w = Idle \<Longrightarrow> regs w ATA_SECCOUNT0 = 1 \<Longrightarrow> 0xE0 \<le> regs w ATA_HDDEVSEL \<Longrightarrow>
      sec (outb p w ATA_COMMAND ATA_CMD_READ_PIO) = sec w \<and>
      phase (outb p w ATA_COMMAND ATA_CMD_READ_PIO) =
        Fetch (Some (reg_lba (regs w))) (words_of 256 (sec w (reg_lba (regs w))))"
    and write_command: "phase w = Idle \<Longrightarrow> regs w ATA_SECCOUNT0 = 1 \<Longrightarrow> 0xE0 \<le> regs w ATA_HDDEVSEL \<Longrightarrow>
      sec (outb p w ATA_COMMAND ATA_CMD_WRITE_PIO) = sec w \<and>
      phase (outb p w ATA_COMMAND ATA_CMD_WRITE_PIO) = Accept (reg_lba (regs w))"
    and identify_command: "phase w = Idle \<Longrightarrow>
      sec (outb p w ATA_COMMAND ATA_CMD_IDENTIFY) = sec w \<and>
      phase (outb p w ATA_COMMAND ATA_CMD_IDENTIFY) = Fetch None ident"
    and flush_command: "phase w = Storing l ws \<Longrightarrow>
      sec (outb p w ATA_COMMAND ATA_CMD_CACHE_FLUSH) = sec w \<and>
      phase (outb p w ATA_COMMAND ATA_CMD_CACHE_FLUSH) \<in> {Storing l ws, Flushing l ws}"
    and status_idle: "phase w = Idle \<Longrightarrow> inb p w ATA_STATUS = (st, w') \<Longrightarrow>
      \<not> st_bsy st \<and> \<not> st_drq st \<and> sec w' = sec w \<and> phase w' = Idle"
    and status_fetch: "phase w = Fetch c ws \<Longrightarrow> inb p w ATA_STATUS = (st, w') \<Longrightarrow> sec w' = sec w \<and>
      (if st_bsy st then phase w' = Fetch c ws
       else if st_err st then phase w' = Idle
       else st_drq st \<and> phase w' = Offer ws)"
    and status_offer: "phase w = Offer ws \<Longrightarrow> inb p w ATA_STATUS = (st, w') \<Longrightarrow>
      \<not> st_err st \<and> \<not> st_bsy st \<and> st_drq st \<and> sec w' = sec w \<and> phase w' = Offer ws"
    and status_accept: "phase w = Accept l \<Longrightarrow> inb p w ATA_STATUS = (st, w') \<Longrightarrow> sec w' = sec w \<and>
      (if st_bsy st then phase w' = Accept l
       else if st_err st then phase w' = Idle
       else st_drq st \<and> phase w' = Take l [])"
    and status_storing: "phase w \<in> {Storing l ws, Flushing l ws} \<Longrightarrow> length ws = 256 \<Longrightarrow>
      inb p w ATA_STATUS = (st, w') \<Longrightarrow> (\<forall>l'. l' \<noteq> l \<longrightarrow> sec w' l' = sec w l') \<and>
      (if st_bsy st then phase w' = phase w
       else phase w' = Idle \<and> (\<not> st_err st \<longrightarrow> sec w' l = bytes_of ws))"
    and data_in: "phase w = Offer (x # ws) \<Longrightarrow> inw p w ATA_DATA = (x', w') \<Longrightarrow>
      x' = x \<and> sec w' = sec w \<and> phase w' = (if ws = [] then Idle else Offer ws)"
    and data_out: "phase w = Take l ws \<Longrightarrow> sec (outw p w ATA_DATA x) = sec w \<and>
      phase (outw p w ATA_DATA x) = (if length ws = 255 then Storing l (ws @ [x]) else Take l (ws @ [x]))"

text \<open>A drive that keeps the pace of the driver's polling: it answers every command within the
  \<open>0x4000\<close> status reads the driver allows it (\<open>lag\<close> bounds how often it will still be busy), and
  shows no error bit while it is busy.\<close>

locale pio_drive = ata_drive p sec regs phase ident
  for p :: "'w ports"
    and sec :: "'w \<Rightarrow> nat \<Rightarrow> u8 list"
    and regs :: "'w \<Rightarrow> u16 \<Rightarrow> u8"
    and phase :: "'w \<Rightarrow> phase"
    and lag :: "'w \<Rightarrow> nat"
    and ident :: "u16 list" +
  assumes alt_lag: "inb p w ATA_PRIMARY_CTRL = (st, w') \<Longrightarrow> lag w' \<le> lag w"
    and command_lag: "phase w = Idle \<Longrightarrow> v \<in> {ATA_CMD_READ_PIO, ATA_CMD_WRITE_PIO, ATA_CMD_IDENTIFY} \<Longrightarrow>
      lag (outb p w ATA_COMMAND v) < 0x4000"
    and flush_lag: "phase w = Storing l ws \<Longrightarrow> lag (outb p w ATA_COMMAND ATA_CMD_CACHE_FLUSH) < 0x4000"
    and busy_lag: "phase w \<noteq> Idle \<Longrightarrow> inb p w ATA_STATUS = (st, w') \<Longrightarrow> st_bsy st \<Longrightarrow>
      \<not> st_err st \<and> lag w' < lag w"

text \<open>A drive that reports no errors on the sectors it has, those below the capacity in its identification.\<close>

locale sound_drive = pio_drive +
  assumes identify_ok: "phase w = Fetch None ws \<Longrightarrow> inb p w ATA_STATUS = (st, w') \<Longrightarrow> \<not> st_bsy st \<Longrightarrow> \<not> st_err st"
    and fetch_ok: "phase w = Fetch (Some l) ws \<Longrightarrow> l < unat (identify_sectors ident) \<Longrightarrow>
      inb p w ATA_STATUS = (st, w') \<Longrightarrow> \<not> st_bsy st \<Longrightarrow> \<not> st_err st"
    and accept_ok: "phase w = Accept l \<Longrightarrow> l < unat (identify_sectors ident) \<Longrightarrow>
      inb p w ATA_STATUS = (st, w') \<Longrightarrow> \<not> st_bsy st \<Longrightarrow> \<not> st_err st"
    and storing_ok: "phase w \<in> {Storing l ws, Flushing l ws} \<Longrightarrow> l < unat (identify_sectors ident) \<Longrightarrow>
      inb p w ATA_STATUS = (st, w') \<Longrightarrow> \<not> st_bsy st \<Longrightarrow> \<not> st_err st"

text \<open>And one that has all the sectors the file system can ask for.\<close>

locale big_drive = sound_drive +
  assumes capacity: "lba_limit \<le> unat (identify_sectors ident)"


section \<open>Words and bytes\<close>

lemma length_bytes_of [simp]: "length (bytes_of ws) = 2 * length ws"
  by (induction ws) (auto simp: bytes_of_def)

lemma length_words_of [simp]: "length (words_of n buf) = n"
  by (simp add: words_of_def)

lemma words_of_Nil [simp]: "words_of n buf = [] \<longleftrightarrow> n = 0"
  by (simp add: words_of_def)

lemma word_bytes:
  "ucast ((ucast (a :: u8) OR push_bit 8 (ucast (b :: u8)) :: u16) AND 0xFF) = a"
  "ucast (drop_bit 8 (ucast (a :: u8) OR push_bit 8 (ucast (b :: u8)) :: u16)) = b"
proof -
  have m: "(0xFF :: u16) = mask 8" by (simp add: mask_eq_exp_minus_1)
  show "ucast ((ucast a OR push_bit 8 (ucast b) :: u16) AND 0xFF) = a"
    unfolding m by (rule bit_word_eqI) (auto simp: bit_simps)
  show "ucast (drop_bit 8 (ucast a OR push_bit 8 (ucast b) :: u16)) = b"
    by (rule bit_word_eqI) (auto simp: bit_simps dest: bit_imp_le_length)
qed

lemma words_of_Suc:
  "words_of (Suc n) buf =
     (ucast (byte_at buf 0) OR push_bit 8 (ucast (byte_at buf 1))) # words_of n (drop 2 buf)"
proof -
  have "byte_at (drop 2 buf) k = byte_at buf (Suc (Suc k))" for k
    by (auto simp: byte_at_def)
  then show ?thesis
    unfolding words_of_def upt_conv_Cons [OF zero_less_Suc] map_Suc_upt [symmetric] by simp
qed

lemma bytes_of_words: "bytes_of (words_of n bs) = map (byte_at bs) [0..<2 * n]"
  unfolding words_of_def
  by (induction n) (simp_all add: bytes_of_def word_bytes del: drop_bit_or)

lemma bytes_of_buffer: "512 \<le> length buf \<Longrightarrow> bytes_of (words_of 256 buf) = chunk buf 0"
  unfolding bytes_of_words chunk_def
  by (rule nth_equalityI) (simp_all add: byte_at_def)

lemma bytes_of_words_of: "length bs = 512 \<Longrightarrow> bytes_of (words_of 256 bs) = bs"
  using bytes_of_buffer [of bs] by (simp add: chunk_def)

lemma bytes_of_Cons: "bytes_of (x # ws) = ucast (x AND 0xFF) # ucast (drop_bit 8 x) # bytes_of ws"
  by (simp add: bytes_of_def)

lemma low_byte: "unat (ucast (x AND 0xFF :: u32) :: u8) = unat x mod 2 ^ 8"
proof -
  have "x AND 0xFF = take_bit 8 x" by (simp add: take_bit_eq_mask mask_eq_exp_minus_1)
  then show ?thesis by (simp only: unsigned_ucast_eq unsigned_take_bit_eq) (simp add: take_bit_eq_mod)
qed

lemma device_byte:
  fixes x :: u32
  shows "unat (ucast (0xE0 OR (x AND 0x0F)) :: u8) = 0xE0 + unat x mod 16"
proof -
  have m: "x AND 0x0F = take_bit 4 x" by (simp add: take_bit_eq_mask mask_eq_exp_minus_1)
  have e: "(0xE0 :: u32) = push_bit 5 7" by simp
  have "0xE0 OR take_bit 4 x = 0xE0 + take_bit 4 x"
    unfolding e by (rule disjunctive_add [symmetric]) (auto simp: bit_simps simp del: push_bit_numeral)
  moreover have "unat (take_bit 4 x) = unat x mod 16"
    by (simp only: unsigned_take_bit_eq) (simp add: take_bit_eq_mod)
  moreover have "unat x mod 16 < 16" by simp
  ultimately show ?thesis 
    unfolding m unsigned_ucast_eq by (simp add: unat_word_ariths take_bit_eq_mod)
qed

lemma unat_drop_bit: "unat (drop_bit n (x :: u32)) = unat x div 2 ^ n"
  by (simp only: unat_drop_bit_eq) (simp add: drop_bit_eq_div)

lemma nat_digits_28:
  "n mod 2 ^ 8 + 2 ^ 8 * (n div 2 ^ 8 mod 2 ^ 8) + 2 ^ 16 * (n div 2 ^ 16 mod 2 ^ 8)
     + 2 ^ 24 * (n div 2 ^ 24 mod 16) = n mod (2 ^ 28 :: nat)"
proof -
  have "n mod 2 ^ 28 = n mod 2 ^ 24 + 2 ^ 24 * (n div 2 ^ 24 mod 16)"
    using mod_mult2_eq [of n "2 ^ 24" 16] by simp
  moreover have "n mod 2 ^ 24 = n mod 2 ^ 16 + 2 ^ 16 * (n div 2 ^ 16 mod 2 ^ 8)"
    using mod_mult2_eq [of n "2 ^ 16" "2 ^ 8"] by simp
  moreover have "n mod 2 ^ 16 = n mod 2 ^ 8 + 2 ^ 8 * (n div 2 ^ 8 mod 2 ^ 8)"
    using mod_mult2_eq [of n "2 ^ 8" "2 ^ 8"] by simp
  ultimately show ?thesis by simp
qed

lemma device_mod: "((224 :: nat) + m) mod 16 = m mod 16"
  using mod_mult_self1 [of m 14 16] by (simp add: add.commute)

text \<open>The byte written to each address register.\<close>

lemmas lba_bytes = low_byte low_byte [of "drop_bit n lba" for n lba] device_byte unat_drop_bit

text \<open>The next sector number.\<close>

lemma next_lba: "(unat (lba + 1 :: u32) + i) mod 2 ^ 28 = (unat lba + Suc i) mod 2 ^ 28"
proof -
  have "unat (lba + 1) = (unat lba + 1) mod 2 ^ 32" by (simp add: unat_word_ariths)
  moreover have "x mod 2 ^ 32 mod 2 ^ 28 = x mod (2 ^ 28 :: nat)" for x
    by (rule mod_mod_cancel) simp
  ultimately have "unat (lba + 1) mod 2 ^ 28 = (unat lba + 1) mod 2 ^ 28" by simp
  then show ?thesis by (metis mod_add_left_eq add.assoc plus_1_eq_Suc)
qed

section \<open>The driver on such a drive\<close>

context ata_drive
begin

lemma io_wait:
  "sec (ata_io_wait p w) = sec w" "regs (ata_io_wait p w) = regs w" "phase (ata_io_wait p w) = phase w"
proof -
  have "sec (snd (inb p w ATA_PRIMARY_CTRL)) = sec w \<and> regs (snd (inb p w ATA_PRIMARY_CTRL)) = regs w \<and>
      phase (snd (inb p w ATA_PRIMARY_CTRL)) = phase w" for w
    using alt_status [of w "fst (inb p w ATA_PRIMARY_CTRL)"] by simp
  then show "sec (ata_io_wait p w) = sec w" "regs (ata_io_wait p w) = regs w" "phase (ata_io_wait p w) = phase w"
    by (simp_all add: ata_io_wait_def case_prod_unfold)
qed

lemma task_set:
  assumes "phase w = Idle"
  shows "sec (ata_task p lba w) = sec w" "phase (ata_task p lba w) = Idle"
    "regs (ata_task p lba w) ATA_SECCOUNT0 = 1" "0xE0 \<le> regs (ata_task p lba w) ATA_HDDEVSEL"
    "reg_lba (regs (ata_task p lba w)) = unat lba mod 2 ^ 28"
  using assms nat_digits_28 [of "unat lba"] 
  by (simp_all add: ata_task_def ata_select_drive_def io_wait task_file reg_lba_def lba_bytes device_mod word_le_nat_alt)

lemma command_read:
  assumes "phase w = Idle"
  shows "sec (ata_command p ATA_CMD_READ_PIO lba w) = sec w"
    "phase (ata_command p ATA_CMD_READ_PIO lba w) =
      Fetch (Some (unat lba mod 2 ^ 28)) (words_of 256 (sec w (unat lba mod 2 ^ 28)))"
  using task_set [OF assms, of lba] read_command [of "ata_task p lba w"]
  by (simp_all add: ata_command_def io_wait)

lemma command_write:
  assumes "phase w = Idle"
  shows "sec (ata_command p ATA_CMD_WRITE_PIO lba w) = sec w"
    "phase (ata_command p ATA_CMD_WRITE_PIO lba w) = Accept (unat lba mod 2 ^ 28)"
  using task_set [OF assms, of lba] write_command [of "ata_task p lba w"]
  by (simp_all add: ata_command_def io_wait)

lemma drq_fetch:
  "phase w = Fetch c ws \<Longrightarrow> poll_drq p n w = (ok, w') \<Longrightarrow> sec w' = sec w \<and> (ok \<longrightarrow> phase w' = Offer ws)"
proof (induction n arbitrary: w)
  case (Suc n)
  obtain st w1 where st: "inb p w ATA_STATUS = (st, w1)" by fastforce
  show ?case using status_fetch [OF Suc.prems(1) st] Suc.prems Suc.IH [of w1]
    by (auto simp: st split: if_splits)
qed simp

lemma drq_accept:
  "phase w = Accept l \<Longrightarrow> poll_drq p n w = (ok, w') \<Longrightarrow> sec w' = sec w \<and> (ok \<longrightarrow> phase w' = Take l [])"
proof (induction n arbitrary: w)
  case (Suc n)
  obtain st w1 where st: "inb p w ATA_STATUS = (st, w1)" by fastforce
  show ?case using status_accept [OF Suc.prems(1) st] Suc.prems Suc.IH [of w1]
    by (auto simp: st split: if_splits)
qed simp

lemma drq_idle:
  "phase w = Idle \<Longrightarrow> poll_drq p n w = (ok, w') \<Longrightarrow> \<not> ok \<and> sec w' = sec w \<and> phase w' = Idle"
proof (induction n arbitrary: w)
  case (Suc n)
  obtain st w1 where st: "inb p w ATA_STATUS = (st, w1)" by fastforce
  show ?case using status_idle [OF Suc.prems(1) st] Suc.prems Suc.IH [of w1]
    by (auto simp: st split: if_splits)
qed simp

lemma drq_offer:
  assumes "phase w = Offer ws" "0 < n" "poll_drq p n w = (ok, w')"
  shows "ok \<and> sec w' = sec w \<and> phase w' = Offer ws"
proof -
  obtain st w1 where st: "inb p w ATA_STATUS = (st, w1)" by fastforce
  show ?thesis using status_offer [OF assms(1) st] assms(2,3)
    by (cases n) (auto simp: st split: if_splits)
qed

lemma not_busy_storing:
  "phase w \<in> {Storing l ws, Flushing l ws} \<Longrightarrow> length ws = 256 \<Longrightarrow> poll_not_busy p n w = (ok, w') \<Longrightarrow>
    (\<forall>l'. l' \<noteq> l \<longrightarrow> sec w' l' = sec w l') \<and> (ok \<longrightarrow> phase w' = Idle \<and> sec w' l = bytes_of ws)"
proof (induction n arbitrary: w)
  case (Suc n)
  obtain st w1 where st: "inb p w ATA_STATUS = (st, w1)" by fastforce
  note s = status_storing [OF Suc.prems(1,2) st]
  show ?case
  proof (cases "st_bsy st")
    case True
    then have "phase w1 \<in> {Storing l ws, Flushing l ws}" using s Suc.prems(1) by simp
    then show ?thesis using True s Suc.prems(2,3) Suc.IH [of w1] by (auto simp: st split: if_splits)
  next
    case False
    then show ?thesis using s Suc.prems(3) by (auto simp: st split: if_splits)
  qed
qed simp

lemma read_data_offer:
  "phase w = Offer ws \<Longrightarrow> ws \<noteq> [] \<Longrightarrow> read_data p (length ws) w = (bs, w') \<Longrightarrow>
    bs = bytes_of ws \<and> sec w' = sec w \<and> phase w' = Idle"
proof (induction ws arbitrary: w bs)
  case (Cons x ws)
  obtain y w1 where y: "inw p w ATA_DATA = (y, w1)" by fastforce
  show ?case using data_in [OF Cons.prems(1) y] Cons.prems Cons.IH [of w1]
    by (cases "ws = []") (auto simp: y bytes_of_Cons bytes_of_def split: prod.splits)
qed simp

lemma read_words_offer:
  "phase w = Offer ws \<Longrightarrow> ws \<noteq> [] \<Longrightarrow> read_words p (length ws) w = (xs, w') \<Longrightarrow>
    xs = ws \<and> sec w' = sec w \<and> phase w' = Idle"
proof (induction ws arbitrary: w xs)
  case (Cons x ws)
  obtain y w1 where y: "inw p w ATA_DATA = (y, w1)" by fastforce
  show ?case using data_in [OF Cons.prems(1) y] Cons.prems Cons.IH [of w1]
    by (cases "ws = []") (auto simp: y split: prod.splits)
qed simp

lemma write_data_take:
  "phase w = Take l ws \<Longrightarrow> length ws + Suc n = 256 \<Longrightarrow>
    sec (write_data p (Suc n) buf w) = sec w \<and>
    phase (write_data p (Suc n) buf w) = Storing l (ws @ words_of (Suc n) buf)"
proof (induction n arbitrary: w ws buf)
  case 0
  then show ?case
    using data_out [OF "0.prems"(1)] by (simp add: words_of_def)
next
  case (Suc n)
  let ?x = "ucast (byte_at buf 0) OR push_bit 8 (ucast (byte_at buf 1)) :: u16"
  have "phase (outw p w ATA_DATA ?x) = Take l (ws @ [?x])" "sec (outw p w ATA_DATA ?x) = sec w"
    using data_out [OF Suc.prems(1), of ?x] Suc.prems(2) by auto
  then show ?case
    using Suc.IH [of "outw p w ATA_DATA ?x" "ws @ [?x]" "drop 2 buf"] Suc.prems(2)
    by (simp add: words_of_Suc [of "Suc n"])
qed

text \<open>The wait after a sector's words, whatever becomes of the flush command.\<close>

abbreviation (input) write_wait :: "u8 list \<Rightarrow> 'w \<Rightarrow> 'w" where
  "write_wait buf w1 \<equiv> ata_io_wait p (outb p (write_data p 256 buf w1) ATA_COMMAND ATA_CMD_CACHE_FLUSH)"

lemma storing:
  assumes "phase w = Idle"
    and "ata_wait_drq p (ata_command p ATA_CMD_WRITE_PIO lba w) = (ok, w1)" "ok"
  shows "phase (write_data p 256 buf w1) = Storing (unat lba mod 2 ^ 28) (words_of 256 buf)"
    "sec (write_wait buf w1) = sec w"
    "phase (write_wait buf w1) \<in> {Storing (unat lba mod 2 ^ 28) (words_of 256 buf),
       Flushing (unat lba mod 2 ^ 28) (words_of 256 buf)}"
proof -
  note c = command_write [OF assms(1), of lba]
  note d = drq_accept [OF c(2) assms(2) [unfolded ata_wait_drq_def]]
  let ?l = "unat lba mod 2 ^ 28" and ?ws = "words_of 256 buf" and ?wd = "write_data p 256 buf w1"
  have s: "sec ?wd = sec w" "phase ?wd = Storing ?l ?ws"
    using write_data_take [where w = w1 and l = ?l and ws = "[]" and n = 255 and buf = buf] c d assms(3)
    by simp_all
  show "phase ?wd = Storing ?l ?ws" by (rule s)
  show "sec (write_wait buf w1) = sec w" "phase (write_wait buf w1) \<in> {Storing ?l ?ws, Flushing ?l ?ws}"
    using flush_command [OF s(2)] s(1) by (simp_all only: io_wait)
qed

lemma write_step:
  assumes "phase w = Idle"
    and "ata_wait_drq p (ata_command p ATA_CMD_WRITE_PIO lba w) = (ok, w1)"
  shows "sec w1 = sec w"
    "ok \<Longrightarrow> ata_wait_not_busy p (write_wait buf w1) = (ok2, w2) \<Longrightarrow>
      (\<forall>l. l \<noteq> unat lba mod 2 ^ 28 \<longrightarrow> sec w2 l = sec w l) \<and>
      (ok2 \<longrightarrow> phase w2 = Idle \<and> sec w2 (unat lba mod 2 ^ 28) = bytes_of (words_of 256 buf))"
proof -
  note c = command_write [OF assms(1), of lba]
  show "sec w1 = sec w"
    using c drq_accept [OF c(2) assms(2) [unfolded ata_wait_drq_def]] by simp
  assume ok: "ok" and nb: "ata_wait_not_busy p (write_wait buf w1) = (ok2, w2)"
  note f = storing [OF assms ok, of buf]
  show "(\<forall>l. l \<noteq> unat lba mod 2 ^ 28 \<longrightarrow> sec w2 l = sec w l) \<and>
      (ok2 \<longrightarrow> phase w2 = Idle \<and> sec w2 (unat lba mod 2 ^ 28) = bytes_of (words_of 256 buf))"
    using not_busy_storing [OF f(3) _ nb [unfolded ata_wait_not_busy_def]] f(2) by simp
qed

text \<open>After \<open>k\<close> sectors the transfer ends, by success or by failure; a failure can have touched the
  sector it was at.\<close>

lemma write_loop_sectors:
  "phase w = Idle \<Longrightarrow> unat lba + n \<le> 2 ^ 28 \<Longrightarrow> 512 * n \<le> length buf \<Longrightarrow>
    write_loop p n lba buf w = (ok, w') \<Longrightarrow>
    (ok \<longrightarrow> phase w' = Idle) \<and>
    (\<exists>k \<le> n. (ok \<longleftrightarrow> k = n) \<and> (\<forall>i < k. sec w' (unat lba + i) = chunk buf i) \<and>
       (\<forall>l. l < unat lba \<or> unat lba + min n (Suc k) \<le> l \<longrightarrow> sec w' l = sec w l))"
proof (induction n arbitrary: lba w ok buf w')
  case (Suc n)
  obtain ok1 w1 where 1: "ata_wait_drq p (ata_command p ATA_CMD_WRITE_PIO lba w) = (ok1, w1)" by fastforce
  obtain ok2 w2 where 2: "ata_wait_not_busy p (write_wait buf w1) = (ok2, w2)" by fastforce
  note s = write_step(1) [OF Suc.prems(1) 1] write_step(2) [OF Suc.prems(1) 1 _ 2]
  have l: "unat lba mod 2 ^ 28 = unat lba" using Suc.prems(2) by simp
  show ?case
  proof (cases "ok1 \<and> ok2")
    case False
    then show ?thesis using Suc.prems(4) s l by (auto simp: 1 2 Let_def split: if_splits intro!: exI [of _ 0])
  next
    case True
    have a: "phase w2 = Idle" "\<And>l. l \<noteq> unat lba \<Longrightarrow> sec w2 l = sec w l"
        "sec w2 (unat lba) = chunk buf 0"
      using s True bytes_of_buffer [of buf] Suc.prems(3) unfolding l by auto
    have r: "write_loop p n (lba + 1) (drop 512 buf) w2 = (ok, w')"
      using Suc.prems(4) True by (auto simp: 1 2)
    show ?thesis
    proof (cases "n = 0")
      case True
      then show ?thesis using a r by (auto intro!: exI [of _ 1])
    next
      case False
      then have u: "unat (lba + 1) = Suc (unat lba)"
        using Suc.prems(2) by (auto simp: unat_word_ariths)
      have len: "Suc (unat lba) + n \<le> 2 ^ 28" "512 * n \<le> length (drop 512 buf)" using Suc.prems(2,3) by auto
      note IH = Suc.IH [OF a(1) _ _ r, unfolded u, OF len]
      obtain k where k: "ok \<longrightarrow> phase w' = Idle" "k \<le> n" "ok \<longleftrightarrow> k = n"
        "\<forall>i < k. sec w' (Suc (unat lba) + i) = chunk (drop 512 buf) i"
        "\<forall>l. l < Suc (unat lba) \<or> Suc (unat lba) + min n (Suc k) \<le> l \<longrightarrow> sec w' l = sec w2 l"
        using IH by blast
      have "sec w' (unat lba + i) = chunk buf i" if "i < Suc k" for i
        using k(4,5) a(3) that by (cases i) (auto simp: chunk_def add.commute)
      moreover have "sec w' l = sec w l" if "l < unat lba \<or> unat lba + min (Suc n) (Suc (Suc k)) \<le> l" for l
        using k(5) a(2) [of l] that by auto
      ultimately show ?thesis using k(1-3) by (intro conjI exI [of _ "Suc k"]) auto
    qed
  qed
qed simp

lemma write_sectors_reach:
  "phase w = Idle \<Longrightarrow> unat lba + unat n \<le> 2 ^ 28 \<Longrightarrow> 512 * unat n \<le> length buf \<Longrightarrow>
    ata_write_sectors p w lba buf n = (ok, w') \<Longrightarrow>
    (ok \<longrightarrow> phase w' = Idle) \<and>
    (\<exists>k \<le> unat n. (ok \<longleftrightarrow> k = unat n) \<and> (\<forall>i < k. sec w' (unat lba + i) = chunk buf i) \<and>
       (\<forall>l. l < unat lba \<or> unat lba + min (unat n) (Suc k) \<le> l \<longrightarrow> sec w' l = sec w l))"
  using write_loop_sectors [of w lba "unat n" buf ok w']
  by (auto simp: ata_write_sectors_def split: if_splits)

end

text \<open>A drive that keeps the pace is idle after every command, failed or not.\<close>

context pio_drive
begin

lemma wait_lag: "lag (ata_io_wait p w) \<le> lag w"
proof -
  have "lag (snd (inb p w ATA_PRIMARY_CTRL)) \<le> lag w" for w
    using alt_lag [of w "fst (inb p w ATA_PRIMARY_CTRL)"] by simp
  then show ?thesis
    unfolding ata_io_wait_def Let_def case_prod_unfold by (meson order_trans)
qed

lemma command_pace:
  assumes "phase w = Idle" "v \<in> {ATA_CMD_READ_PIO, ATA_CMD_WRITE_PIO}"
  shows "lag (ata_command p v lba w) < 0x4000"
  unfolding ata_command_def
  using le_less_trans [OF wait_lag command_lag [OF task_set(2) [OF assms(1), of lba]]] assms(2) by blast

lemma drq_fetch_ends:
  "phase w = Fetch c ws \<Longrightarrow> lag w < n \<Longrightarrow> poll_drq p n w = (ok, w') \<Longrightarrow> \<not> ok \<Longrightarrow> phase w' = Idle"
proof (induction n arbitrary: w)
  case (Suc n)
  obtain st w1 where st: "inb p w ATA_STATUS = (st, w1)" by fastforce
  show ?case using status_fetch [OF Suc.prems(1) st] busy_lag [OF _ st] Suc.prems Suc.IH [of w1]
    by (auto simp: st split: if_splits)
qed simp

lemma drq_accept_ends:
  "phase w = Accept l \<Longrightarrow> lag w < n \<Longrightarrow> poll_drq p n w = (ok, w') \<Longrightarrow> \<not> ok \<Longrightarrow> phase w' = Idle"
proof (induction n arbitrary: w)
  case (Suc n)
  obtain st w1 where st: "inb p w ATA_STATUS = (st, w1)" by fastforce
  show ?case using status_accept [OF Suc.prems(1) st] busy_lag [OF _ st] Suc.prems Suc.IH [of w1]
    by (auto simp: st split: if_splits)
qed simp

lemma not_busy_ends:
  "phase w \<in> {Storing l ws, Flushing l ws} \<Longrightarrow> length ws = 256 \<Longrightarrow> lag w < n \<Longrightarrow>
    poll_not_busy p n w = (ok, w') \<Longrightarrow> phase w' = Idle"
proof (induction n arbitrary: w)
  case (Suc n)
  obtain st w1 where st: "inb p w ATA_STATUS = (st, w1)" by fastforce
  note s = status_storing [OF Suc.prems(1,2) st] busy_lag [OF _ st]
  show ?case
  proof (cases "st_bsy st")
    case True
    then have "phase w1 \<in> {Storing l ws, Flushing l ws}" "lag w1 < n" "st \<noteq> 0xFF" using s Suc.prems(1,3) by auto
    then show ?thesis using True Suc.prems(2,4) Suc.IH [of w1] by (simp add: st)
  next
    case False
    then show ?thesis using s Suc.prems(4) by (auto simp: st split: if_splits)
  qed
qed simp

lemma write_pace:
  assumes "phase w = Idle"
    and "ata_wait_drq p (ata_command p ATA_CMD_WRITE_PIO lba w) = (ok, w1)" "ok"
  shows "lag (write_wait buf w1) < 0x4000"
  using le_less_trans [OF wait_lag flush_lag [OF storing(1) [OF assms]]] .

lemma write_loop_ends: "phase w = Idle \<Longrightarrow> write_loop p n lba buf w = (ok, w') \<Longrightarrow> phase w' = Idle"
proof (induction n arbitrary: lba w buf)
  case (Suc n)
  obtain ok1 w1 where 1: "ata_wait_drq p (ata_command p ATA_CMD_WRITE_PIO lba w) = (ok1, w1)" by fastforce
  obtain ok2 w2 where 2: "ata_wait_not_busy p (write_wait buf w1) = (ok2, w2)" by fastforce
  have "phase w1 = Idle" if "\<not> ok1"
    using drq_accept_ends [OF command_write(2) [OF Suc.prems(1)] command_pace [OF Suc.prems(1)]
        1 [unfolded ata_wait_drq_def] that] by simp
  moreover have "phase w2 = Idle" if "ok1"
    using not_busy_ends [OF storing(3) [OF Suc.prems(1) 1 that, of buf] _ write_pace [OF Suc.prems(1) 1 that]
        2 [unfolded ata_wait_not_busy_def]] by simp
  ultimately show ?case using Suc.prems(2) Suc.IH [of w2] by (auto simp: 1 2 Let_def split: if_splits)
qed simp

lemma write_sectors_ends: "phase w = Idle \<Longrightarrow> ata_write_sectors p w lba buf n = (ok, w') \<Longrightarrow> phase w' = Idle"
  using write_loop_ends [of w "unat n" lba buf] by (auto simp: ata_write_sectors_def split: if_splits)

lemma read_step:
  assumes "phase w = Idle"
    and "ata_wait_drq p (ata_command p ATA_CMD_READ_PIO lba w) = (ok, w1)"
  shows "sec w1 = sec w"
    "\<not> ok \<Longrightarrow> phase w1 = Idle"
    "ok \<Longrightarrow> read_data p 256 w1 = (bs, w2) \<Longrightarrow>
      bs = sec w (unat lba mod 2 ^ 28) \<and> sec w2 = sec w \<and> phase w2 = Idle"
proof -
  note c = command_read [OF assms(1), of lba]
  note a = assms(2) [unfolded ata_wait_drq_def]
  have g: "lag (ata_command p ATA_CMD_READ_PIO lba w) < 0x4000" by (rule command_pace [OF assms(1)]) simp
  note d = drq_fetch [OF c(2) a]
  show "sec w1 = sec w" "\<not> ok \<Longrightarrow> phase w1 = Idle" using c d drq_fetch_ends [OF c(2) g a] by auto
  assume "ok" "read_data p 256 w1 = (bs, w2)"
  then show "bs = sec w (unat lba mod 2 ^ 28) \<and> sec w2 = sec w \<and> phase w2 = Idle"
    using c d read_data_offer [of w1 "words_of 256 (sec w (unat lba mod 2 ^ 28))" bs w2]
      length_words_of [of 256 "sec w (unat lba mod 2 ^ 28)"] bytes_of_words_of [OF sec_size]
    by (auto simp del: length_words_of)
qed

lemma read_loop_sectors:
  "phase w = Idle \<Longrightarrow> read_loop p n lba w = (ok, bs, w') \<Longrightarrow>
    phase w' = Idle \<and> sec w' = sec w \<and> length bs \<le> 512 * n \<and>
    (ok \<longrightarrow> bs = concat (map (\<lambda>i. sec w ((unat lba + i) mod 2 ^ 28)) [0..<n]))"
proof (induction n arbitrary: lba w ok bs w')
  case (Suc n)
  obtain ok1 w1 where 1: "ata_wait_drq p (ata_command p ATA_CMD_READ_PIO lba w) = (ok1, w1)" by fastforce
  obtain bs2 w2 where 2: "read_data p 256 w1 = (bs2, w2)" by fastforce
  obtain ok3 bs3 w3 where 3: "read_loop p n (lba + 1) w2 = (ok3, bs3, w3)" by (metis prod_cases3)
  note s = read_step [OF Suc.prems(1) 1]
  show ?case
  proof (cases ok1)
    case False
    then show ?thesis using Suc.prems(2) s by (auto simp: 1)
  next
    case True
    have a: "bs2 = sec w (unat lba mod 2 ^ 28)" "sec w2 = sec w" "phase w2 = Idle"
      using s(3) [OF True 2] by auto
    have r: "ok = ok3" "bs = bs2 @ bs3" "w' = w3"
      using Suc.prems(2) True by (auto simp: 1 2 3)
    have "(unat (lba + 1) + i) mod 2 ^ 28 = (unat lba + Suc i) mod 2 ^ 28" for i
      using next_lba [of lba i] .
    then show ?thesis
      using Suc.IH [OF a(3) 3] a(1,2) sec_size [of w "unat lba mod 2 ^ 28"]
      unfolding r upt_conv_Cons [OF zero_less_Suc] map_Suc_upt [symmetric]
      by (simp add: comp_def del: power_numeral)
  qed
qed simp


lemma read_sectors_law:
  "phase w = Idle \<Longrightarrow> ata_read_sectors p w lba n = (ok, bs, w') \<Longrightarrow>
    phase w' = Idle \<and> sec w' = sec w \<and> length bs \<le> 512 * unat n \<and>
    (ok \<longrightarrow> bs = concat (map (\<lambda>i. sec w ((unat lba + i) mod 2 ^ 28)) [0..<unat n]))"
  using read_loop_sectors [of w "unat n" lba ok bs w']
  by (auto simp: ata_read_sectors_def split: if_splits)

lemma write_sectors_law:
  "phase w = Idle \<Longrightarrow> unat lba + unat n \<le> 2 ^ 28 \<Longrightarrow> 512 * unat n \<le> length buf \<Longrightarrow>
    ata_write_sectors p w lba buf n = (ok, w') \<Longrightarrow>
    phase w' = Idle \<and> (ok \<longrightarrow> (\<forall>i < unat n. sec w' (unat lba + i) = chunk buf i)) \<and>
    (\<forall>l. l < unat lba \<or> unat lba + unat n \<le> l \<longrightarrow> sec w' l = sec w l)"
  using write_sectors_reach [of w lba n buf ok w'] write_sectors_ends [of w lba buf n ok w'] by auto

lemma identify_start:
  assumes "phase w = Idle"
  shows "sec (ata_identify p w) = sec w" "phase (ata_identify p w) = Fetch None ident"
    "lag (ata_identify p w) < 0x4000"
  unfolding ata_identify_def Let_def
  using assms by (simp_all add: io_wait task_file identify_command le_less_trans [OF wait_lag] command_lag)

lemma identify_status:
  assumes "phase w = Idle" "inb p (ata_identify p w) ATA_STATUS = (st, w2)"
    and "poll_drq p 0x4000 w2 = (ok, w3)"
  shows "st \<noteq> 0 \<and> st \<noteq> 0xFF \<and> sec w3 = sec w \<and> phase w3 = (if ok then Offer ident else Idle)"
proof -
  note c = identify_start [OF assms(1)] and d = status_fetch [OF identify_start(2) [OF assms(1)] assms(2)]
  note g = busy_lag [of "ata_identify p w" st w2]
  have "st \<noteq> 0" "sec w2 = sec w"
    using c(1) d by (auto split: if_splits)
  moreover have "st \<noteq> 0xFF"
    using c(2) g assms(2) by auto
  moreover consider "phase w2 = Idle" | "phase w2 = Fetch None ident" "lag w2 < 0x4000" | "phase w2 = Offer ident"
    using c d g assms(2) by (fastforce split: if_splits)
  then have "sec w3 = sec w2 \<and> phase w3 = (if ok then Offer ident else Idle)"
  proof cases
    case 1
    then show ?thesis using drq_idle [OF 1 assms(3)] by simp
  next
    case 2
    then show ?thesis using drq_fetch [OF 2(1) assms(3)] drq_fetch_ends [OF 2 assms(3)] by simp
  next
    case 3
    from drq_offer [OF this _ assms(3)] show ?thesis by simp
  qed
  ultimately show ?thesis by simp
qed

lemma sector_count_law:
  assumes "phase w = Idle" "ata_get_sector_count p w = (r, w')"
  shows "phase w' = Idle \<and> sec w' = sec w \<and>
    (r = None \<or> r = Some (identify_sectors ident)) \<and> r \<noteq> Some 0"
proof -
  obtain st w2 where 2: "inb p (ata_identify p w) ATA_STATUS = (st, w2)" by fastforce
  obtain ok w3 where 3: "poll_drq p 0x4000 w2 = (ok, w3)" by fastforce
  obtain xs w4 where 4: "read_words p 256 w3 = (xs, w4)" by fastforce
  have "xs = ident \<and> sec w4 = sec w3 \<and> phase w4 = Idle" if "phase w3 = Offer ident"
    using read_words_offer [OF that] 4 ident_size by (cases "ident = []") auto
  then show ?thesis
    using assms(2) identify_status [OF assms(1) 2 3]
    by (auto simp: ata_get_sector_count_def 2 3 4 ata_wait_drq_def Let_def split: if_splits)
qed

end

text \<open>A drive that reports no errors: no command on its sectors fails.\<close>

context sound_drive
begin

lemma drq_identify_ok:
  "phase w = Fetch None ws \<Longrightarrow> lag w < n \<Longrightarrow> fst (poll_drq p n w)"
proof (induction n arbitrary: w)
  case (Suc n)
  obtain st w1 where st: "inb p w ATA_STATUS = (st, w1)" by fastforce
  show ?case using status_fetch [OF Suc.prems(1) st] identify_ok [OF Suc.prems(1) st] busy_lag [OF _ st]
      Suc.prems Suc.IH [of w1]
    by (auto simp: st split: if_splits)
qed simp

lemma drq_fetch_ok:
  "phase w = Fetch (Some l) ws \<Longrightarrow> l < unat (identify_sectors ident) \<Longrightarrow> lag w < n \<Longrightarrow> fst (poll_drq p n w)"
proof (induction n arbitrary: w)
  case (Suc n)
  obtain st w1 where st: "inb p w ATA_STATUS = (st, w1)" by fastforce
  show ?case using status_fetch [OF Suc.prems(1) st] fetch_ok [OF Suc.prems(1,2) st] busy_lag [OF _ st]
      Suc.prems Suc.IH [of w1]
    by (auto simp: st split: if_splits)
qed simp

lemma drq_accept_ok:
  "phase w = Accept l \<Longrightarrow> l < unat (identify_sectors ident) \<Longrightarrow> lag w < n \<Longrightarrow> fst (poll_drq p n w)"
proof (induction n arbitrary: w)
  case (Suc n)
  obtain st w1 where st: "inb p w ATA_STATUS = (st, w1)" by fastforce
  show ?case using status_accept [OF Suc.prems(1) st] accept_ok [OF Suc.prems(1,2) st] busy_lag [OF _ st]
      Suc.prems Suc.IH [of w1]
    by (auto simp: st split: if_splits)
qed simp

lemma not_busy_ok:
  "phase w \<in> {Storing l ws, Flushing l ws} \<Longrightarrow> length ws = 256 \<Longrightarrow> l < unat (identify_sectors ident) \<Longrightarrow>
    lag w < n \<Longrightarrow> fst (poll_not_busy p n w)"
proof (induction n arbitrary: w)
  case (Suc n)
  obtain st w1 where st: "inb p w ATA_STATUS = (st, w1)" by fastforce
  note s = status_storing [OF Suc.prems(1,2) st] busy_lag [OF _ st] storing_ok [OF Suc.prems(1,3) st]
  show ?case
  proof (cases "st_bsy st")
    case True
    then have "phase w1 \<in> {Storing l ws, Flushing l ws}" "lag w1 < n" "st \<noteq> 0xFF" using s Suc.prems(1,4) by auto
    then show ?thesis using True Suc.prems(2,3) Suc.IH [of w1] by (simp add: st)
  next
    case False
    then show ?thesis using s by (auto simp: st)
  qed
qed simp

lemma sector_count_ok:
  assumes "phase w = Idle" "ata_get_sector_count p w = (r, w')" "identify_sectors ident \<noteq> 0"
  shows "r = Some (identify_sectors ident)"
proof -
  note c = identify_start [OF assms(1)]
  obtain st w2 where 2: "inb p (ata_identify p w) ATA_STATUS = (st, w2)" by fastforce
  obtain ok w3 where 3: "poll_drq p 0x4000 w2 = (ok, w3)" by fastforce
  obtain xs w4 where 4: "read_words p 256 w3 = (xs, w4)" by fastforce
  note s = identify_status [OF assms(1) 2 3]
  have "phase w2 = Offer ident \<or> phase w2 = Fetch None ident \<and> lag w2 < 0x4000"
    using c(2,3) status_fetch [OF c(2) 2] identify_ok [OF c(2) 2] busy_lag [OF _ 2] by (fastforce split: if_splits)
  then have ok: "ok"
    using 3 drq_offer [of w2 ident "0x4000"] drq_identify_ok [of w2 ident "0x4000"] by auto
  have "xs = ident"
    using read_words_offer [of w3 ident xs w4] s ok 4 ident_size by (cases "ident = []") auto
  then show ?thesis
    using assms(2,3) s ok
    by (auto simp: ata_get_sector_count_def 2 3 4 ata_wait_drq_def Let_def split: if_splits)
qed

lemma lba_below: "unat lba + n \<le> c \<Longrightarrow> 0 < n \<Longrightarrow> unat (lba :: u32) mod 2 ^ 28 < c"
  by (meson add_less_cancel_left le_less_trans less_le_trans mod_less_eq_dividend less_add_same_cancel1)

lemma lba_next:
  assumes "unat (lba :: u32) + Suc n \<le> c"
  shows "unat (lba + 1) + n \<le> c"
proof -
  have "unat (lba + 1) = Suc (unat lba) mod 2 ^ 32" by (simp add: unat_word_ariths)
  also have "\<dots> \<le> Suc (unat lba)" by (rule mod_less_eq_dividend)
  finally show ?thesis using assms by linarith
qed

lemma read_loop_ok:
  "phase w = Idle \<Longrightarrow> (\<forall>i < n. (unat lba + i) mod 2 ^ 28 < unat (identify_sectors ident)) \<Longrightarrow>
    fst (read_loop p n lba w)"
proof (induction n arbitrary: lba w)
  case (Suc n)
  obtain ok1 w1 where 1: "ata_wait_drq p (ata_command p ATA_CMD_READ_PIO lba w) = (ok1, w1)" by fastforce
  obtain bs2 w2 where 2: "read_data p 256 w1 = (bs2, w2)" by fastforce
  have l: "unat lba mod 2 ^ 28 < unat (identify_sectors ident)" using spec [OF Suc.prems(2), of 0] by simp
  have n: "\<forall>i < n. (unat (lba + 1) + i) mod 2 ^ 28 < unat (identify_sectors ident)"
    unfolding next_lba using Suc.prems(2) by (auto simp del: add_Suc_right)
  have "lag (ata_command p ATA_CMD_READ_PIO lba w) < 0x4000" by (rule command_pace [OF Suc.prems(1)]) simp
  from drq_fetch_ok [OF command_read(2) [OF Suc.prems(1)] l this]
  have "ok1" by (simp add: 1 [unfolded ata_wait_drq_def])
  then show ?case
    using read_step(3) [OF Suc.prems(1) 1 _ 2] Suc.IH [OF _ n, of w2] by (auto simp: 1 2 split: prod.splits)
qed simp

lemma read_sectors_ok:
  assumes "phase w = Idle" "\<forall>i < unat n. (unat lba + i) mod 2 ^ 28 < unat (identify_sectors ident)"
  shows "fst (ata_read_sectors p w lba n)"
  using read_loop_ok [OF assms] by (simp add: ata_read_sectors_def)

lemma below_capacity:
  "unat lba + n \<le> unat (identify_sectors ident) \<Longrightarrow>
    \<forall>i < n. (unat (lba :: u32) + i) mod 2 ^ 28 < unat (identify_sectors ident)"
  by (meson add_less_cancel_left le_less_trans less_le_trans mod_less_eq_dividend)

lemma write_loop_ok:
  "phase w = Idle \<Longrightarrow> unat lba + n \<le> unat (identify_sectors ident) \<Longrightarrow> fst (write_loop p n lba buf w)"
proof (induction n arbitrary: lba buf w)
  case (Suc n)
  obtain ok1 w1 where 1: "ata_wait_drq p (ata_command p ATA_CMD_WRITE_PIO lba w) = (ok1, w1)" by fastforce
  obtain ok2 w2 where 2: "ata_wait_not_busy p (write_wait buf w1) = (ok2, w2)" by fastforce
  note l = lba_below [OF Suc.prems(2) zero_less_Suc]
  have "lag (ata_command p ATA_CMD_WRITE_PIO lba w) < 0x4000" by (rule command_pace [OF Suc.prems(1)]) simp
  from drq_accept_ok [OF command_write(2) [OF Suc.prems(1)] l this]
  have ok1: "ok1" by (simp add: 1 [unfolded ata_wait_drq_def])
  from not_busy_ok [OF storing(3) [OF Suc.prems(1) 1 ok1] _ l write_pace [OF Suc.prems(1) 1 ok1], of buf]
  have "ok2" by (simp add: 2 [unfolded ata_wait_not_busy_def])
  then show ?case
    using ok1 write_step(2) [OF Suc.prems(1) 1 ok1 2] Suc.IH [of w2 "lba + 1" "drop 512 buf"] lba_next [OF Suc.prems(2)]
    by (auto simp: 1 2 split: prod.splits)
qed simp

lemma write_sectors_ok:
  "phase w = Idle \<Longrightarrow> unat lba + unat n \<le> unat (identify_sectors ident) \<Longrightarrow> fst (ata_write_sectors p w lba buf n)"
  by (simp add: ata_write_sectors_def write_loop_ok)

lemma write_read:
  assumes "phase w = Idle" "unat lba + unat n \<le> 2 ^ 28" "unat lba + unat n \<le> unat (identify_sectors ident)"
    "length buf = 512 * unat n"
  shows "\<exists>w' w''. ata_write_sectors p w lba buf n = (True, w') \<and>
    ata_read_sectors p w' lba n = (True, buf, w'') \<and> sec w'' = sec w' \<and> phase w'' = Idle"
proof -
  obtain w' where w: "ata_write_sectors p w lba buf n = (True, w')"
    using write_sectors_ok [OF assms(1,3), of buf] by (cases "ata_write_sectors p w lba buf n") auto
  note l = write_sectors_law [OF assms(1,2) _ w]
  have i: "phase w' = Idle" and s: "\<And>i. i < unat n \<Longrightarrow> sec w' (unat lba + i) = chunk buf i"
    using l assms(4) by auto
  obtain bs w'' where r: "ata_read_sectors p w' lba n = (True, bs, w'')"
    using read_sectors_ok [OF i below_capacity [OF assms(3)]] by (cases "ata_read_sectors p w' lba n") auto
  have "concat (map (\<lambda>i. sec w' ((unat lba + i) mod 2 ^ 28)) [0..<unat n]) = concat (map (chunk buf) [0..<unat n])"
    using assms(2) s by (intro arg_cong [of _ _ concat] map_cong) auto
  then have "bs = buf"
    using read_sectors_law [OF i r] concat_chunks [OF assms(4)] by simp
  then show ?thesis using read_sectors_law [OF i r] w r by blast
qed

end

sublocale pio_drive \<subseteq> dev: block_device "ata_ops p" sec "\<lambda>w. phase w = Idle"
proof unfold_locales
  fix d lba n ok bs d'
  assume a: "phase d = Idle" "unat lba + unat n \<le> lba_limit" "read_sectors (ata_ops p) d lba n = (ok, bs, d')"
  have "concat (map (\<lambda>i. sec d ((unat lba + i) mod 2 ^ 28)) [0..<unat n])
      = concat (map (sec d) [unat lba..<unat lba + unat n])"
    using a(2) map_add_upt [of "unat lba" "unat n"]
    by (auto intro!: arg_cong [of _ _ concat] nth_equalityI)
  then show "phase d' = Idle \<and> sec d' = sec d \<and> length bs \<le> 512 * unat n \<and>
      (ok \<longrightarrow> bs = concat (map (sec d) [unat lba..<unat lba + unat n]))"
    using read_sectors_law [OF a(1)] a(3) by (auto simp: ata_ops_def)
next
  fix d lba n ok bs d'
  assume "phase d = Idle" "read_sectors (ata_ops p) d lba n = (ok, bs, d')"
  then show "phase d' = Idle \<and> sec d' = sec d"
    using read_sectors_law [of d lba n ok bs d'] by (auto simp: ata_ops_def)
next
  fix d lba n buf ok d'
  assume a: "phase d = Idle" "unat lba + unat n \<le> lba_limit" "512 * unat n \<le> length buf"
    "write_sectors (ata_ops p) d lba buf n = (ok, d')"
  then show "phase d' = Idle \<and> (ok \<longrightarrow> (\<forall>i < unat n. sec d' (unat lba + i) = chunk buf i)) \<and>
      (\<forall>l < lba_limit. l < unat lba \<or> unat lba + unat n \<le> l \<longrightarrow> sec d' l = sec d l)"
    using write_sectors_law [of d lba n buf ok d'] by (auto simp: ata_ops_def)
next
  fix d r d'
  assume "phase d = Idle" "get_sector_count (ata_ops p) d = (r, d')"
  then show "phase d' = Idle \<and> sec d' = sec d"
    using sector_count_law [of d r d'] by (auto simp: ata_ops_def)
qed (rule sec_size)

sublocale big_drive \<subseteq> dev: reliable_disk "ata_ops p" sec "\<lambda>w. phase w = Idle"
proof unfold_locales
  fix d and lba n :: u32
  assume a: "phase d = Idle" "unat lba + unat n \<le> lba_limit"
  from a(2) capacity have "unat lba + unat n \<le> unat (identify_sectors ident)" by (rule order_trans)
  then show "fst (read_sectors (ata_ops p) d lba n)" "fst (write_sectors (ata_ops p) d lba buf n)" for buf
    using read_sectors_ok [OF a(1) below_capacity] write_sectors_ok [OF a(1)] by (simp_all add: ata_ops_def)
qed


section \<open>A drive\<close>

text \<open>A drive that meets the contract: it is busy for three status reads after each command and after the last
  word of a sector, and ignores commands while it is busy; commands on the sectors of \<open>bad\<close> end with
  the error bit.\<close>

record drive =
  store :: "nat \<Rightarrow> u8 list"
  task :: "u16 \<Rightarrow> u8"
  now :: phase
  delay :: "2 word"

definition drive_status :: "(nat \<Rightarrow> bool) \<Rightarrow> drive \<Rightarrow> u8 \<times> drive" where
  "drive_status bad d =
     (let busy = (0x80, d\<lparr>delay := delay d - 1\<rparr>); failed = (0x51, d\<lparr>now := Idle\<rparr>)
      in case now d of
           Idle \<Rightarrow> (0x50, d)
         | Fetch c ws \<Rightarrow> if delay d \<noteq> 0 then busy else if (case c of Some l \<Rightarrow> bad l | None \<Rightarrow> False) then failed
             else (0x58, d\<lparr>now := Offer ws\<rparr>)
         | Offer ws \<Rightarrow> (0x58, d)
         | Accept l \<Rightarrow> if delay d \<noteq> 0 then busy else if bad l then failed else (0x58, d\<lparr>now := Take l []\<rparr>)
         | Take l ws \<Rightarrow> (0x58, d)
         | Storing l ws \<Rightarrow> if delay d \<noteq> 0 then busy else if bad l then failed
             else (0x50, d\<lparr>now := Idle, store := (store d)(l := bytes_of ws)\<rparr>)
         | Flushing l ws \<Rightarrow> if delay d \<noteq> 0 then busy else if bad l then failed
             else (0x50, d\<lparr>now := Idle, store := (store d)(l := bytes_of ws)\<rparr>))"

definition ident_words :: "u16 list \<Rightarrow> u16 list" where
  "ident_words ident = map (\<lambda>i. if i < length ident then ident ! i else 0) [0..<256]"

definition drive_command :: "u16 list \<Rightarrow> drive \<Rightarrow> u8 \<Rightarrow> drive" where
  "drive_command ident d v =
     (case now d of
        Idle \<Rightarrow>
          if v = ATA_CMD_READ_PIO then
            d\<lparr>now := Fetch (Some (reg_lba (task d))) (words_of 256 (pad_sector (store d (reg_lba (task d))))), delay := 3\<rparr>
          else if v = ATA_CMD_WRITE_PIO then d\<lparr>now := Accept (reg_lba (task d)), delay := 3\<rparr>
          else if v = ATA_CMD_IDENTIFY then d\<lparr>now := Fetch None (ident_words ident), delay := 3\<rparr>
          else d
      | Storing l ws \<Rightarrow> if v = ATA_CMD_CACHE_FLUSH \<and> delay d = 0 then d\<lparr>now := Flushing l ws, delay := 3\<rparr> else d
      | _ \<Rightarrow> d)"

definition drive_ports :: "(nat \<Rightarrow> bool) \<Rightarrow> u16 list \<Rightarrow> drive ports" where
  "drive_ports bad ident = \<lparr>
     inb = (\<lambda>d r. if r = ATA_STATUS then drive_status bad d else (0x50, d)),
     outb = (\<lambda>d r v. if r = ATA_COMMAND then drive_command ident d v
        else if r \<in> task_ports then d\<lparr>task := (task d)(r := v)\<rparr> else d),
     inw = (\<lambda>d r. case now d of Offer (x # ws) \<Rightarrow> (x, d\<lparr>now := if ws = [] then Idle else Offer ws\<rparr>) | _ \<Rightarrow> (0, d)),
     outw = (\<lambda>d r x. case now d of
        Take l ws \<Rightarrow> if length ws = 255 then d\<lparr>now := Storing l (ws @ [x]), delay := 3\<rparr> else d\<lparr>now := Take l (ws @ [x])\<rparr>
      | _ \<Rightarrow> d)\<rparr>"

text \<open>The drive that has the sectors its identification says and reports errors for all others.\<close>

definition disk_ports :: "u16 list \<Rightarrow> drive ports" where
  "disk_ports ident = drive_ports (\<lambda>l. unat (identify_sectors (ident_words ident)) \<le> l) ident"

definition drive_sec :: "drive \<Rightarrow> nat \<Rightarrow> u8 list" where
  "drive_sec d = (\<lambda>l. pad_sector (store d l))"

lemma drive_fields [simp]:
  "inb (drive_ports bad ident) d r = (if r = ATA_STATUS then drive_status bad d else (0x50, d))"
  "outb (drive_ports bad ident) d r v = (if r = ATA_COMMAND then drive_command ident d v
        else if r \<in> task_ports then d\<lparr>task := (task d)(r := v)\<rparr> else d)"
  by (simp_all add: drive_ports_def)

lemma delay_less: "delay d \<noteq> 0 \<Longrightarrow> unat (delay d - 1) < unat (delay d)"
  by (rule measure_unat)

lemma delay_bound: "unat (delay d) < 0x4000"
proof -
  have "unat (delay d) < 2 ^ LENGTH(2)" by (rule unsigned_less)
  then show ?thesis by simp
qed

interpretation drive: pio_drive "drive_ports bad ident" drive_sec task now "\<lambda>d. unat (delay d)" "ident_words ident"
  for bad ident
proof unfold_locales
  fix w l ws st w'
  assume "now w \<in> {Storing l ws, Flushing l ws}" "length ws = 256" "inb (drive_ports bad ident) w ATA_STATUS = (st, w')"
  then show "(\<forall>l'. l' \<noteq> l \<longrightarrow> drive_sec w' l' = drive_sec w l') \<and>
      (if st_bsy st then now w' = now w
       else now w' = Idle \<and> (\<not> st_err st \<longrightarrow> drive_sec w' l = bytes_of ws))"
    by (auto simp: drive_status_def drive_sec_def Let_def pad_sector_id split: if_splits)
next
  fix w st w'
  assume "now w \<noteq> Idle" "inb (drive_ports bad ident) w ATA_STATUS = (st, w')" "st_bsy st"
  then show "\<not> st_err st \<and> unat (delay w') < unat (delay w)"
    by (auto simp: drive_status_def Let_def delay_less split: phase.splits if_splits)
qed (auto simp: drive_ports_def drive_status_def drive_command_def drive_sec_def ident_words_def Let_def delay_bound
    split: if_splits)


interpretation sound: sound_drive "disk_ports ident" drive_sec task now "\<lambda>d. unat (delay d)" "ident_words ident"
  for ident
  unfolding disk_ports_def
  by unfold_locales (auto simp: drive_status_def Let_def split: if_splits)

text \<open>An identification with \<open>65536\<close> sectors, more than the file system can use.\<close>

definition demo_ident :: "u16 list" where
  "demo_ident = replicate 61 0 @ [1]"

lemma demo_capacity: "unat (identify_sectors (ident_words demo_ident)) = 65536"
  by (simp add: identify_sectors_def ident_words_def demo_ident_def nth_append)

interpretation big: big_drive "disk_ports demo_ident" drive_sec task now "\<lambda>d. unat (delay d)" "ident_words demo_ident"
  by unfold_locales (simp add: demo_capacity)

section \<open>Properties\<close>

text \<open>The state after \<open>i\<close> reads of the status register, and the status read next.\<close>

primrec polled :: "'w ports \<Rightarrow> nat \<Rightarrow> 'w \<Rightarrow> 'w" where
  "polled p 0 w = w"
| "polled p (Suc i) w = polled p i (snd (inb p w ATA_STATUS))"

definition status_at :: "'w ports \<Rightarrow> 'w \<Rightarrow> nat \<Rightarrow> u8" where
  "status_at p w i = fst (inb p (polled p i w) ATA_STATUS)"

definition drq_waiting :: "u8 \<Rightarrow> bool" where
  "drq_waiting st \<longleftrightarrow> st \<noteq> 0xFF \<and> \<not> st_err st \<and> (st_bsy st \<or> \<not> st_drq st)"

definition drq_ready :: "u8 \<Rightarrow> bool" where
  "drq_ready st \<longleftrightarrow> st \<noteq> 0xFF \<and> \<not> st_err st \<and> \<not> st_bsy st \<and> st_drq st"

definition served_at :: "'w ports \<Rightarrow> 'w \<Rightarrow> nat \<Rightarrow> bool" where
  "served_at p w i \<longleftrightarrow> drq_ready (status_at p w i) \<and> (\<forall>j < i. drq_waiting (status_at p w j))"

lemma status_at_simps:
  "status_at p w 0 = fst (inb p w ATA_STATUS)"
  "status_at p w (Suc i) = status_at p (snd (inb p w ATA_STATUS)) i"
  by (simp_all add: status_at_def)

lemma ex_less_Suc_iff: "(\<exists>i < Suc n. P i) \<longleftrightarrow> P 0 \<or> (\<exists>i < n. P (Suc i))"
  by (metis less_Suc_eq_0_disj)

lemma poll_drq_statuses: "fst (poll_drq p n w) \<longleftrightarrow> (\<exists>i < n. served_at p w i)"
  unfolding served_at_def
proof (induction n arbitrary: w)
  case (Suc n)
  obtain st w1 where st: "inb p w ATA_STATUS = (st, w1)" by fastforce
  show ?case
    unfolding ex_less_Suc_iff All_less_Suc2 status_at_simps st fst_conv snd_conv
    using Suc.IH [of w1] by (auto simp: st drq_ready_def drq_waiting_def)
qed simp

lemma poll_drq_state: "\<exists>k \<le> n. snd (poll_drq p n w) = polled p k w"
proof (induction n arbitrary: w)
  case 0
  then show ?case by simp
next
  case (Suc n)
  obtain st w1 where st: "inb p w ATA_STATUS = (st, w1)" by fastforce
  obtain k where "k \<le> n" "snd (poll_drq p n w1) = polled p k w1" using Suc by blast
  moreover have "polled p (Suc k) w = polled p k w1" "polled p (Suc 0) w = w1" for k
    by (simp_all add: st)
  ultimately have "snd (poll_drq p (Suc n) w) = polled p (Suc k) w \<or> snd (poll_drq p (Suc n) w) = polled p (Suc 0) w"
    by (auto simp: st)
  then show ?case using \<open>k \<le> n\<close> by (metis Suc_le_mono le0)
qed

text \<open>\<open>ata_wait_drq\<close> reads the status register at most \<open>0x4000\<close> times,
  whatever the hardware answers. It succeeds exactly if one of those reads shows a drive with data
  to transfer and all before it a drive that is neither absent nor failing.\<close>

theorem ata_wait_drq_polls:
  "(fst (ata_wait_drq p w) \<longleftrightarrow> (\<exists>i < 0x4000. served_at p w i)) \<and>
   (\<exists>k \<le> 0x4000. snd (ata_wait_drq p w) = polled p k w)"
  unfolding ata_wait_drq_def by (intro conjI poll_drq_statuses poll_drq_state)

text \<open>The drive of the witnesses: sector \<open>l\<close> is filled with the byte \<open>l\<close>, as of
  a fresh start.\<close>

definition demo_drive :: drive where
  "demo_drive = \<lparr>store = (\<lambda>l. replicate 512 (of_nat l)), task = (\<lambda>_. 0), now = Idle, delay = 0\<rparr>"

text \<open>C33: On an ATA drive \<open>ata_read_sectors\<close> leaves the drive idle and its contents as they
  are, and if it succeeds the buffer holds the sectors from \<open>lba\<close> on. Sector numbers
  are taken modulo \<open>2 ^ 28\<close>: bits 28 to 31 of \<open>lba\<close> reach no register, so
  sector \<open>0x10000005\<close> is read as sector 5.\<close>

theorem ata_read_sectors_spec:
  assumes "pio_drive p sec regs phase lag ident" and "phase w = Idle"
    and "ata_read_sectors p w lba n = (ok, bs, w')"
  shows "phase w' = Idle \<and> sec w' = sec w \<and>
    (ok \<longrightarrow> bs = concat (map (\<lambda>i. sec w ((unat lba + i) mod 2 ^ 28)) [0..<unat n]))"
  using pio_drive.read_sectors_law [OF assms] by simp

theorem ata_read_sectors_spec_witness:
  "let (ok, bs, d) = ata_read_sectors (disk_ports demo_ident) demo_drive 0x10000005 1
   in ok \<and> bs = replicate 512 5 \<and> now d = Idle"
proof -
  obtain ok bs d where r: "ata_read_sectors (disk_ports demo_ident) demo_drive 0x10000005 1 = (ok, bs, d)"
    by (metis prod_cases3)
  have i: "now demo_drive = Idle" by (simp add: demo_drive_def)
  moreover have "ok"
    using sound.read_sectors_ok [OF i, where ident = demo_ident and lba = "0x10000005" and n = 1] r
    by (simp add: demo_capacity)
  moreover have "drive_sec demo_drive 5 = replicate 512 5"
    by (simp add: drive_sec_def demo_drive_def pad_sector_id)
  ultimately show ?thesis
    using ata_read_sectors_spec [OF sound.pio_drive_axioms _ r] r by simp
qed



text \<open>C31: On a drive that reports no errors on the sectors it has, a write of sectors below its capacity
  succeeds, and a read of them then succeeds and delivers what was written.\<close>

theorem ata_write_read:
  assumes "sound_drive p sec regs phase lag ident" and "phase w = Idle"
    and "unat lba + unat n \<le> 2 ^ 28" and "unat lba + unat n \<le> unat (identify_sectors ident)"
    and "length buf = 512 * unat n"
  shows "\<exists>w' w''. ata_write_sectors p w lba buf n = (True, w') \<and>
    ata_read_sectors p w' lba n = (True, buf, w'') \<and> sec w'' = sec w' \<and> phase w'' = Idle"
  by (rule sound_drive.write_read [OF assms])

theorem ata_write_read_witness:
  "\<exists>d d'. ata_write_sectors (disk_ports demo_ident) demo_drive 7 (replicate 1024 9) 2 = (True, d) \<and>
    ata_read_sectors (disk_ports demo_ident) d 7 2 = (True, replicate 1024 9, d')"
proof -
  have i: "now demo_drive = Idle" by (simp add: demo_drive_def)
  show ?thesis
    using ata_write_read [OF sound.sound_drive_axioms [of demo_ident] i, of 7 2 "replicate 1024 9"]
    by (auto simp: demo_capacity)
qed

text \<open>\<open>ata_get_sector_count\<close> reports nothing or the capacity in the drive's
  identification, never \<open>0\<close>, and leaves the drive idle with its contents. A drive that
  reports no errors and has a capacity has it reported.\<close>

theorem ata_get_sector_count_spec:
  assumes "pio_drive p sec regs phase lag ident" and "phase w = Idle"
    and "ata_get_sector_count p w = (r, w')"
  shows "phase w' = Idle \<and> sec w' = sec w \<and>
    (r = None \<or> r = Some (identify_sectors ident)) \<and> r \<noteq> Some 0 \<and>
    (sound_drive p sec regs phase lag ident \<and> identify_sectors ident \<noteq> 0 \<longrightarrow>
       r = Some (identify_sectors ident))"
  using pio_drive.sector_count_law [OF assms] sound_drive.sector_count_ok [of p sec regs phase lag ident w r w']
    assms(2,3) by blast

theorem ata_get_sector_count_spec_witness:
  "let (r, d) = ata_get_sector_count (disk_ports (replicate 61 1)) demo_drive
   in r = Some 1 \<and> now d = Idle"
proof -
  obtain r d where r: "ata_get_sector_count (disk_ports (replicate 61 1)) demo_drive = (r, d)"
    by fastforce
  have i: "now demo_drive = Idle" by (simp add: demo_drive_def)
  have "identify_sectors (ident_words (replicate 61 1)) = 1"
    by (simp add: identify_sectors_def ident_words_def)
  then show ?thesis
    using ata_get_sector_count_spec [OF sound.pio_drive_axioms i r] sound.sound_drive_axioms r by simp
qed

end
