(* ===== verification/Shell.thy ===== *)
theory Shell
  imports FsMount Keyboard Chips Text Ata
begin

text \<open>
  The shell, \<^verbatim>\<open>src/os/main.cpp\<close>, and the start of the kernel, \<^verbatim>\<open>src/kernel/kernel.cpp\<close>: mounting or
  formatting the disk, the login, and one definition per command, over the file system, the keyboard
  and the screen. Strings are lists of bytes; a command line is split as \<open>String::split\<close> does. Where the
  shell waits for a line that is never typed the result is \<open>None\<close>.
\<close>

section \<open>State\<close>

record 'd shell =
  tty :: terminal
  fsys :: "'d fs"
  k_root :: "u8 list"
  exited :: bool
  halted :: bool
  power_ports :: "(u16 \<times> u16) list"

text \<open>
  What the shell calls that is not in this repository or is the machine's: the disk driver, the
  instruction \<^verbatim>\<open>cpuid\<close> (what it leaves in \<^verbatim>\<open>eax\<close>, \<^verbatim>\<open>ebx\<close>, \<^verbatim>\<open>ecx\<close>, \<^verbatim>\<open>edx\<close>, by \<^verbatim>\<open>eax\<close>), the memory map,
  and \<open>test()\<close> of the interpreter.
\<close>

record 'd env =
  drv :: "'d disk_ops"
  cpuid :: "u32 \<Rightarrow> u32 \<times> u32 \<times> u32 \<times> u32"
  ram_count :: u16
  ram_map :: "e820_entry list"
  test_call :: "'d shell \<Rightarrow> 'd shell"

definition on_screen :: "(console \<Rightarrow> console) \<Rightarrow> 'd shell \<Rightarrow> 'd shell" where
  "on_screen f sh = sh\<lparr>tty := (tty sh)\<lparr>screen := f (screen (tty sh))\<rparr>\<rparr>"

abbreviation say :: "string \<Rightarrow> 'd shell \<Rightarrow> 'd shell" where
  "say s \<equiv> on_screen (println (ascii s))"

abbreviation say_part :: "string \<Rightarrow> 'd shell \<Rightarrow> 'd shell" where
  "say_part s \<equiv> on_screen (print (ascii s))"

definition on_fs :: "('d fs \<Rightarrow> 'a \<times> 'd fs) \<Rightarrow> 'd shell \<Rightarrow> 'a \<times> 'd shell" where
  "on_fs f sh = (let (r, s) = f (fsys sh) in (r, sh\<lparr>fsys := s\<rparr>))"

definition read_line :: "'d shell \<Rightarrow> (u8 list \<times> 'd shell) option" where
  "read_line sh = map_option (\<lambda>(line, t). (line, sh\<lparr>tty := t\<rparr>)) (readl (tty sh))"

text \<open>\<^verbatim>\<open>poweroff\<close> writes three ports, any of which may switch the machine off, and never returns.\<close>

definition poweroff :: "'d shell \<Rightarrow> 'd shell" where
  "poweroff sh = sh\<lparr>power_ports := power_ports sh @ [(0x604, 0x2000), (0xB004, 0x2000), (0x4004, 0x3400)],
     halted := True\<rparr>"

text \<open>The 49 bytes of the processor's name, its terminator included; \<open>None\<close> where there is none.\<close>

definition get_cpu_brand :: "(u32 \<Rightarrow> u32 \<times> u32 \<times> u32 \<times> u32) \<Rightarrow> u8 list option" where
  "get_cpu_brand f =
     (if fst (f 0x80000000) < 0x80000004 then None
      else Some (concat (map (\<lambda>leaf. let (a, b, c, d) = f leaf in concat (map le32 [a, b, c, d]))
        [0x80000002, 0x80000003, 0x80000004]) @ [0]))"

section \<open>Paths\<close>

text \<open>The part of \<^verbatim>\<open>k_root\<close> after its first slash.\<close>

definition root_dir :: "u8 list \<Rightarrow> u8 list" where
  "root_dir root = cstr (drop (path_sep root + (if has_sep root then 1 else 0)) root)"

definition last_sep :: "u8 list \<Rightarrow> nat option" where
  "last_sep cwd = fold (\<lambda>i l. if cwd ! i = 47 then Some i else l) [0..<length cwd] None"

definition parent_dir :: "u8 list \<Rightarrow> u8 list" where
  "parent_dir cwd =
     (if 0 < length cwd then (case last_sep cwd of Some i \<Rightarrow> take i cwd | None \<Rightarrow> []) else cwd)"

function dotdots :: "u8 list \<Rightarrow> u8 list \<Rightarrow> u8 list \<times> u8 list" where
  "dotdots inp cwd =
     (if byte_at inp 0 = 46 \<and> byte_at inp 1 = 46 \<and> (byte_at inp 2 = 47 \<or> byte_at inp 2 = 0) then
        if byte_at inp 2 = 47 then dotdots (drop 3 inp) (parent_dir cwd)
        else (drop 2 inp, parent_dir cwd)
      else (inp, cwd))"
  by pat_completeness auto
termination
  by (relation "measure (\<lambda>(inp, _). length inp)") (auto simp: byte_at_def split: if_splits)

declare dotdots.simps [simp del]

text \<open>The characters stored in the buffer of \<open>max_len\<close> bytes, before the terminator.\<close>

definition resolve_fs_path :: "u8 list \<Rightarrow> u8 list \<Rightarrow> nat \<Rightarrow> u8 list" where
  "resolve_fs_path root input max_len =
     (let (inp, cwd) = dotdots input (take 63 (root_dir root));
          out = (if 47 \<notin> set (cstr inp) \<and> 0 < length cwd then
                   let out = take (max_len - 1) cwd
                   in if byte_at inp 0 \<noteq> 0 \<and> length out < max_len - 1 then out @ [47] else out
                 else [])
      in out @ take (max_len - 1 - length out) (cstr inp))"

text \<open>The path that \<^verbatim>\<open>touch\<close> builds.\<close>

definition touch_path :: "u8 list \<Rightarrow> u8 list \<Rightarrow> u8 list" where
  "touch_path root name =
     (let out = (if 47 \<notin> set (cstr name) \<and> has_sep root \<and> root_dir root \<noteq> [] then
                   let out = take 63 (root_dir root) in if length out < 63 then out @ [47] else out
                 else [])
      in out @ take (63 - length out) (cstr name))"

section \<open>Commands\<close>

text \<open>What \<^verbatim>\<open>print_size_auto\<close> and \<^verbatim>\<open>print_size_autonl\<close> print after their label.\<close>

definition size_text :: "u64 \<Rightarrow> u8 list" where
  "size_text bytes =
     (if 2 ^ 30 \<le> bytes then
        cstr (int_to_str (ucast (drop_bit 30 (bytes + 2 ^ 29)))) @ ascii '' GB''
      else if 2 ^ 20 \<le> bytes then
        cstr (int_to_str (ucast (drop_bit 20 (bytes + 2 ^ 19)))) @ ascii '' MB''
      else cstr (int_to_str (ucast (drop_bit 10 (bytes + 1023)))) @ ascii '' KB'')"

definition print_size_auto :: "string \<Rightarrow> u64 \<Rightarrow> 'd shell \<Rightarrow> 'd shell" where
  "print_size_auto label bytes sh = on_screen (println (size_text bytes)) (say_part label sh)"

definition print_size_autonl :: "string \<Rightarrow> u64 \<Rightarrow> 'd shell \<Rightarrow> 'd shell" where
  "print_size_autonl label bytes sh = on_screen (print (size_text bytes)) (say_part label sh)"

definition k_commands :: "string list" where
  "k_commands = [''help'', ''clear'', ''info'', ''print'', ''shutdown'', ''exit'', ''ls'', ''mkfs'', ''touch'',
     ''mkdir'', ''passwd'', ''pwd'', ''read'', ''write'', ''mv'', ''cp'', ''rm'', ''cd'']"

definition cmd_help :: "'d shell \<Rightarrow> 'd shell" where
  "cmd_help sh = fold say k_commands (say ''Available commands:'' sh)"

definition cmd_ls :: "'d env \<Rightarrow> u8 list list \<Rightarrow> 'd shell \<Rightarrow> 'd shell" where
  "cmd_ls e parts sh =
     (let (r, sh) =
        (if 1 < length parts then on_fs (fs_list_dir (drv e) (parts ! 1) 16) sh
         else if has_sep (k_root sh) \<and> root_dir (k_root sh) \<noteq> []
         then on_fs (fs_list_dir (drv e) (root_dir (k_root sh)) 16) sh
         else on_fs (fs_list_root (drv e) 16) sh)
      in case r of
           Some entries \<Rightarrow>
             fold (\<lambda>i. on_screen (println (de_name (concat entries) i))) [0..<length entries] sh
         | None \<Rightarrow> say ''ls: directory non trovata o errore.'' sh)"

definition cmd_mkfs :: "'d env \<Rightarrow> 'd shell \<Rightarrow> 'd shell" where
  "cmd_mkfs e sh =
     (let sh = say ''Formatting filesystem...'' sh;
          (ok, sh) = on_fs (fs_format (drv e) 0 64) sh;
          (ok, sh) = (if ok then on_fs (fs_init (drv e)) sh else (False, sh))
      in if ok then say ''FS ready'' sh else say ''FS format failed'' sh)"

definition cmd_info :: "'d env \<Rightarrow> 'd shell \<Rightarrow> 'd shell" where
  "cmd_info e sh =
     (let sh = say ''7OS is a simple hobby operating system written in C++.'' sh
      in case get_cpu_brand (cpuid e) of
           Some brand \<Rightarrow>
             (let sh = on_screen (println brand) (say_part ''CPU NAME: '' sh);
                  sh = print_size_auto ''RAM: '' (get_ram_bytes (ram_count e) (ram_map e)) sh
              in case fs_get_usage (fsys sh) of
                   Some (fs_total, fs_used, fs_free) \<Rightarrow>
                     print_size_auto '''' fs_free
                       (say_part ''/'' (print_size_autonl ''Disk: '' fs_used sh))
                 | None \<Rightarrow> sh)
         | None \<Rightarrow> say ''CPU NAME: unknown'' sh)"

definition cmd_touch :: "'d env \<Rightarrow> u8 list list \<Rightarrow> 'd shell \<Rightarrow> 'd shell" where
  "cmd_touch e parts sh =
     (if length parts \<le> 1 then say ''Nome del file non specificato.'' sh else
      let (ok, sh) = on_fs (fs_write_path (drv e) (Some (touch_path (k_root sh) (parts ! 1))) (Some [])) sh
      in if ok then say ''File creato con successo.'' sh
         else say ''Creazione file fallita. Esiste gia' un file o una directory con lo stesso nome.'' sh)"

text \<open>The password that is valid: the stored hash, or that of the default password.\<close>

definition stored_hash :: "'d env \<Rightarrow> 'd shell \<Rightarrow> u32 \<times> 'd shell" where
  "stored_hash e sh =
     (let (r, sh) = on_fs (fs_read_passwd (drv e)) sh
      in (case r of Some h \<Rightarrow> h | None \<Rightarrow> fs_hash_password (ascii ''password123''), sh))"

partial_function (option) passwd_loop :: "'d env \<Rightarrow> 'd shell \<Rightarrow> 'd shell option" where
  "passwd_loop e sh =
     do {
       (new_pass, sh) \<leftarrow> read_line (say_part ''Nuova password: '' sh);
       (confirm_pass, sh) \<leftarrow> read_line (say_part ''Conferma nuova password: '' sh);
       if new_pass \<noteq> confirm_pass then passwd_loop e (say ''Le password non corrispondono.'' sh)
       else let (ok, sh) = on_fs (fs_write_passwd (drv e) (fs_hash_password new_pass)) sh in
         if ok then Some (say ''Password aggiornata.'' sh)
         else passwd_loop e (say ''Errore aggiornamento password.'' sh)
     }"

definition cmd_passwd :: "'d env \<Rightarrow> 'd shell \<Rightarrow> 'd shell option" where
  "cmd_passwd e sh =
     do {
       (old_pass, sh) \<leftarrow> read_line (say_part ''Password attuale: '' sh);
       let (h, sh) = stored_hash e sh;
       if fs_hash_password old_pass \<noteq> h then Some (say ''Password errata.'' sh) else passwd_loop e sh
     }"

definition cmd_mkdir :: "'d env \<Rightarrow> u8 list list \<Rightarrow> 'd shell \<Rightarrow> 'd shell" where
  "cmd_mkdir e parts sh =
     (if length parts < 2 then say ''Nome della directory non specificato.'' sh else
      let filepath = resolve_fs_path (k_root sh) (parts ! 1) 64;
          (ok, sh) = (if is_empty filepath then (False, sh) else on_fs (fs_mkdir_path (drv e) (Some filepath)) sh)
      in if ok then sh
         else say ''Creazione directory fallita. Esiste gia' un file o una directory con lo stesso nome.'' sh)"

text \<open>The words from the third on, joined by blanks.\<close>

definition joined_words :: "u8 list list \<Rightarrow> u8 list" where
  "joined_words parts = concat (map (\<lambda>i. (if 2 < i then [32] else []) @ cstr (parts ! i)) [2..<length parts])"

definition cmd_write :: "'d env \<Rightarrow> u8 list list \<Rightarrow> 'd shell \<Rightarrow> 'd shell" where
  "cmd_write e parts sh =
     (if length parts < 3 then say ''Uso: write <filename> <data>'' sh else
      let filepath = resolve_fs_path (k_root sh) (parts ! 1) 64;
          (ok, sh) = on_fs (fs_write_path (drv e) (Some filepath) (Some (joined_words parts))) sh
      in if ok then say ''File scritto con successo.'' sh else say ''Scrittura file fallita.'' sh)"

definition cmd_read :: "'d env \<Rightarrow> u8 list list \<Rightarrow> 'd shell \<Rightarrow> 'd shell" where
  "cmd_read e parts sh =
     (if length parts < 2 then say ''Uso: read <filename>'' sh else
      let filepath = resolve_fs_path (k_root sh) (parts ! 1) 64;
          (r, sh) = on_fs (fs_read_path (drv e) (Some filepath) 512) sh
      in case r of Some buffer \<Rightarrow> on_screen (println (buffer @ [0])) sh
         | None \<Rightarrow> say ''Lettura file fallita.'' sh)"

definition cmd_cd :: "'d env \<Rightarrow> u8 list list \<Rightarrow> 'd shell \<Rightarrow> 'd shell" where
  "cmd_cd e parts sh =
     (if length parts < 2 then say ''Uso: cd <directory>'' sh else
      let fs_path = resolve_fs_path (k_root sh) (parts ! 1) 64;
          (ok, sh) = (if is_empty fs_path then (True, sh) else on_fs (fs_is_dir (drv e) (Some fs_path)) sh)
      in if ok then sh\<lparr>k_root := ascii ''7:/'' @ take 60 (cstr fs_path)\<rparr>
         else say ''Directory non trovata.'' sh)"

text \<open>
  The loop of \<^verbatim>\<open>rm\<close> over its arguments: the flag, whether a target was given, the result. A recursive
  removal that nests deeper than there are inodes does not return.
\<close>

fun rm_loop :: "'d env \<Rightarrow> u8 list list \<Rightarrow> bool \<Rightarrow> bool \<Rightarrow> 'd shell \<Rightarrow> (bool \<times> 'd shell) option" where
  "rm_loop e [] recursive any_target sh = Some (any_target, sh)"
| "rm_loop e (arg # args) recursive any_target sh =
     (if strcmp arg (ascii ''-r'') \<or> strcmp arg (ascii ''-R'') then rm_loop e args True any_target sh else
      let filepath = resolve_fs_path (k_root sh) arg 64 in
      case (if recursive then fs_remove_path_recursive FS_MAX_INODES (drv e) (Some filepath) (fsys sh)
            else Some (fs_remove_path (drv e) (Some filepath) (fsys sh))) of
        None \<Rightarrow> None
      | Some (ok, s) \<Rightarrow>
          let sh = sh\<lparr>fsys := s\<rparr>;
              sh = (if ok then sh else on_screen (println arg) (say_part ''Rimozione fallita: '' sh))
          in rm_loop e args recursive True sh)"

definition cmd_rm :: "'d env \<Rightarrow> u8 list list \<Rightarrow> 'd shell \<Rightarrow> 'd shell option" where
  "cmd_rm e parts sh =
     (if length parts < 2 then Some (say ''Uso: rm [-r] <file/dir> [file/dir ...]'' sh) else
      do {
        (any_target, sh) \<leftarrow> rm_loop e (drop 1 parts) False False sh;
        Some (if \<not> any_target then say ''Uso: rm [-r] <file/dir> [file/dir ...]'' sh else sh)
      })"

definition cmd_mv :: "'d env \<Rightarrow> u8 list list \<Rightarrow> 'd shell \<Rightarrow> 'd shell" where
  "cmd_mv e parts sh =
     (if length parts < 3 then say ''Uso: mv <source> <destination>'' sh else
      let src_path = resolve_fs_path (k_root sh) (parts ! 1) 64;
          dst_path = resolve_fs_path (k_root sh) (parts ! 2) 64;
          (ok, sh) = on_fs (fs_rename (drv e) (Some src_path) (Some dst_path)) sh
      in if ok then sh else say ''mv fallito.'' sh)"

definition cmd_cp :: "'d env \<Rightarrow> u8 list list \<Rightarrow> 'd shell \<Rightarrow> 'd shell" where
  "cmd_cp e parts sh =
     (if length parts < 3 then say ''Uso: cp <source> <destination>'' sh else
      let src_path = resolve_fs_path (k_root sh) (parts ! 1) 64;
          dst_path = resolve_fs_path (k_root sh) (parts ! 2) 64;
          (ok, sh) = on_fs (fs_copy_path (drv e) (Some src_path) (Some dst_path)) sh
      in if ok then sh else say ''cp fallita.'' sh)"

text \<open>One turn of the loop of \<^verbatim>\<open>handleCommands\<close>, after the line has been read.\<close>

definition split_line :: "u8 list \<Rightarrow> u8 list list" where
  "split_line line = split_loop (line @ [0]) 32 (length line) 0 0"

definition run_parts :: "'d env \<Rightarrow> u8 list list \<Rightarrow> 'd shell \<Rightarrow> 'd shell option" where
  "run_parts e parts sh =
     (if parts = [] then Some sh else
      let cmd = (\<lambda>name. strcmp (hd parts) (ascii name)) in
      if cmd ''help'' then Some (cmd_help sh)
      else if cmd ''shutdown'' then Some (poweroff (say ''Shutting down...'' sh))
      else if cmd ''clear'' then Some (on_screen clear_screen sh)
      else if cmd ''print'' then Some (say ''This is a test print command.'' sh)
      else if cmd ''ls'' then Some (cmd_ls e parts sh)
      else if cmd ''mkfs'' then Some (cmd_mkfs e sh)
      else if cmd ''info'' then Some (cmd_info e sh)
      else if cmd ''exit'' then Some (say ''Exiting'' sh\<lparr>exited := True\<rparr>)
      else if cmd ''touch'' then Some (cmd_touch e parts sh)
      else if cmd ''passwd'' then cmd_passwd e sh
      else if cmd ''pwd'' then Some (on_screen (println (k_root sh)) sh)
      else if cmd ''mkdir'' then Some (cmd_mkdir e parts sh)
      else if cmd ''write'' then Some (cmd_write e parts sh)
      else if cmd ''read'' then Some (cmd_read e parts sh)
      else if cmd ''cd'' then Some (cmd_cd e parts sh)
      else if cmd ''rm'' then cmd_rm e parts sh
      else if cmd ''mv'' then Some (cmd_mv e parts sh)
      else if cmd ''cp'' then Some (cmd_cp e parts sh)
      else if cmd ''test'' then Some (test_call e sh)
      else if 0 < length (hd parts)
      then Some (say ''Comando sconosciuto: digita help per vedere i comandi disponibili.'' sh)
      else Some sh)"

definition run_command :: "'d env \<Rightarrow> 'd shell \<Rightarrow> 'd shell option" where
  "run_command e sh =
     do {
       (command, sh) \<leftarrow> read_line (say_part ''> '' (on_screen (print (k_root sh)) sh));
       run_parts e (split_line command) sh
     }"

partial_function (option) handle_commands :: "'d env \<Rightarrow> 'd shell \<Rightarrow> 'd shell option" where
  "handle_commands e sh =
     (if exited sh \<or> halted sh then Some sh
      else do { sh \<leftarrow> run_command e sh; handle_commands e sh })"

section \<open>Start and login\<close>

definition os_main :: "'d env \<Rightarrow> 'd shell \<Rightarrow> 'd shell option" where
  "os_main e sh =
     (let sh = on_screen clear_screen (say ''Accesso consentito!'' sh);
          sh = say ''Benvenuto in 7OS!'' sh;
          sh = say ''Digita help per vedere i comandi disponibili.'' sh
      in handle_commands e sh)"

definition boot_fs :: "'d env \<Rightarrow> 'd shell \<Rightarrow> 'd shell" where
  "boot_fs e sh =
     (let (ok, sh) = on_fs (fs_init (drv e)) (say ''fs_init...'' sh);
          sh = (if ok then sh else
                let (_, sh) = on_fs (fs_format (drv e) 0 64) (say ''fs_format...'' sh);
                    (_, sh) = on_fs (fs_init (drv e)) (say ''fs_init2...'' sh)
                in sh)
      in say ''fs done'' sh)"

text \<open>The attempts at the password, by the number left.\<close>

fun login :: "nat \<Rightarrow> 'd env \<Rightarrow> 'd shell \<Rightarrow> 'd shell option" where
  "login 0 e sh = Some sh"
| "login (Suc n) e sh =
     do {
       (text, sh) \<leftarrow> read_line (say_part ''Scrivi la password: '' sh);
       let (h, sh) = stored_hash e sh;
       if fs_hash_password text = h then Some (on_screen clear_screen sh\<lparr>exited := False\<rparr>)
       else login n e (say ''Accesso negato!'' sh)
     }"

partial_function (option) os_loop :: "'d env \<Rightarrow> 'd shell \<Rightarrow> 'd shell option" where
  "os_loop e sh =
     do {
       sh \<leftarrow> (if exited sh then login 3 e (on_screen clear_screen sh) else Some sh);
       if exited sh then Some (poweroff (say ''Troppi tentativi, sistema bloccato.'' sh))
       else do { sh \<leftarrow> os_main e sh; if halted sh then Some sh else os_loop e sh }
     }"

definition os_init :: "'d env \<Rightarrow> 'd shell \<Rightarrow> 'd shell option" where
  "os_init e sh = os_loop e (boot_fs e sh)"

text \<open>The part of \<^verbatim>\<open>_kmain\<close> before \<^verbatim>\<open>init\<close>: the chips, the drive behind the ports \<open>p\<close>, the screen.\<close>

definition kmain_start :: "handlers \<Rightarrow> 'w ports \<Rightarrow> chips \<times> 'w \<times> console \<Rightarrow> chips \<times> 'w \<times> console" where
  "kmain_start h p st =
     (let (c, w, scr) = st;
          c = idt_install h c;
          scr = print (ascii ''IDT ok'' @ [10]) scr;
          c = pit_init 1000 c;
          scr = print (ascii ''PIT ok'' @ [10]) scr;
          (ok, w) = ata_init p w;
          scr = print ((if ok then ascii ''ATA ok'' else ascii ''ATA no drive'') @ [10]) scr
      in (c, w, scr))"

end
