(* ===== verification/FsSafety.thy ===== *)
theory FsSafety
  imports FsMount FsRecursive FsRename
begin

text \<open>
  What no sequence of calls can break. On a device whose commands may fail: the tables in memory, the
  sectors below the file system and, unless it formats, the superblock. On a device that carries out every
  command: the consistency of the tables and the tree.
\<close>

section \<open>A device that may fail\<close>

lemma fs_deviceI:
  assumes "block_device io sec ready"
  shows "fs_device io sec ready (fixed ready sec h low)" and "fs_device io sec ready (boot_kept ready sec low)"
  using assms unfolding fs_device_def fs_device_axioms_def by (auto simp: fixed_def boot_kept_def)

lemma failing_session_keeps:
  assumes bd: "block_device io sec ready"
    and "fs_session io (\<lambda>c _. \<not> removes_call c \<and> c \<noteq> Init) s s'" and "fs_ok (boot_kept ready sec low) s"
  shows "fs_ok (boot_kept ready sec low) s'"
  using assms(2,3)
proof (induction rule: fs_session.induct)
  case (session_call s s1 c s2)
  then have k: "fs_ok (boot_kept ready sec low) s1" by blast
  show ?case
  proof (cases "formats_call c")
    case False
    then show ?thesis
      using fs_device.run_call_keeps [OF fs_deviceI(2) [OF bd] k session_call.hyps(3)] session_call.hyps(2)
      by (simp add: plain_call_def)
  next
    case True
    then obtain n m where c: "c = Format n m" by (cases c) auto
    have r: "ready (disk s1)" "boot_mem s1" "\<forall>l < 128. sec (disk s1) l = low l"
      using k by (auto simp: fs_ok_def boot_kept_def mem_inv_def boot_mem_def)
    have "post (\<lambda>ok s'. fs_ok (boot_kept ready sec (sec (disk s1))) s' \<and>
        (ok \<longrightarrow> fs_ok (boot_synced ready sec (sec (disk s1))) s' \<and> g_mounted s')) (fs_format io n m s1)"
      using block_device.fs_format_keeps [OF bd r(1)] r(2) by (simp add: boot_mem_def)
    then show ?thesis
      using session_call.hyps(3) r(3) by (auto simp: c post_def fs_ok_def boot_kept_def)
  qed
qed

text \<open>C21: Between two mounts no sequence of calls other than removals, on a device whose commands may
  fail, makes the tables in memory inconsistent or touches a sector below 128, formatting included and whether the
  calls succeed or not: every live inode keeps a block of its own that the bitmap marks, and boot code and
  kernel stay as they are. If no call formats, the superblock too stays as it is, in memory and on the disk.
\<close>

theorem fs_session_safe:
  assumes "block_device io sec ready" and "mem_inv s" and "ready (disk s)"
    and "fs_session io (\<lambda>c _. \<not> removes_call c \<and> c \<noteq> Init) s s'"
  shows "mem_inv s' \<and> (\<forall>l < 128. sec (disk s') l = sec (disk s) l) \<and>
    (fs_session io (\<lambda>c _. \<not> removes_call c \<and> plain_call c) s s' \<longrightarrow>
       fs_head s' = fs_head s \<and> sec (disk s') 128 = sec (disk s) 128)"
proof -
  have "fs_ok (boot_kept ready sec (sec (disk s))) s'"
    by (rule failing_session_keeps [OF assms(1,4)]) (use assms(2,3) in \<open>simp add: fs_ok_def boot_kept_def\<close>)
  moreover have "fs_head s' = fs_head s \<and> sec (disk s') 128 = sec (disk s) 128"
    if "fs_session io (\<lambda>c _. \<not> removes_call c \<and> plain_call c) s s'"
    using fs_device.session_keeps [OF fs_deviceI(1) [OF assms(1), of "fs_head s" "sec (disk s)"] that] assms(2,3)
    by (simp add: fs_ok_def fixed_def)
  ultimately show ?thesis by (simp add: fs_ok_def boot_kept_def)
qed

lemma reliable_pinned:
  assumes "reliable_disk io sec ready"
  shows "reliable_fs io sec ready (fixed ready sec h low)"
  using assms unfolding reliable_fs_def reliable_disk_def fs_device_def fs_device_axioms_def by (auto simp: fixed_def)

text \<open>On a device that does not fail the same holds of removals.\<close>

lemma reliable_session_safe:
  assumes "reliable_disk io sec ready" and "mem_inv s" and "ready (disk s)"
    and "fs_session io (\<lambda>c _. plain_call c) s s'"
  shows "mem_inv s' \<and> fs_head s' = fs_head s \<and> (\<forall>l < 129. sec (disk s') l = sec (disk s) l)"
proof -
  note K = reliable_pinned [OF assms(1), of "fs_head s" "sec (disk s)"]
  show ?thesis
    using reliable_fs.reliable_session_keeps [OF K assms(4)] assms(2,3) by (simp add: fs_ok_def fixed_def)
qed

section \<open>A device that does not\<close>

text \<open>A state whose tree is consistent, under the header \<open>h\<close>.\<close>

definition under_head :: "('d \<Rightarrow> bool) \<Rightarrow> ('d \<Rightarrow> nat \<Rightarrow> u8 list) \<Rightarrow> fs_head \<Rightarrow> 'd fs \<Rightarrow> bool" where
  "under_head ready sec h s \<longleftrightarrow> fs_consistent ready sec s \<and> fs_head s = h"

lemma under_tree: "\<exists>tab B. tree_at (at_head ready h) sec tab B s \<Longrightarrow> under_head ready sec h s"
  unfolding under_head_def by (blast dest: consistentI)

lemma under_step: "step_effect ready sec c E s ok s' \<Longrightarrow> under_head ready sec (fs_head s) s'"
  by (simp add: step_effect_def under_head_def)

lemma under_path:
  "path_effect ready sec path P s ok s' \<Longrightarrow> (\<And>d. P d \<Longrightarrow> under_head ready sec (fs_head s) s') \<Longrightarrow>
    under_head ready sec (fs_head s) s'"
  by (auto simp: path_effect_def under_head_def split: option.splits)

lemma under_looked:
  assumes "looked ready sec s s'" and "fs_consistent ready sec s"
  shows "under_head ready sec (fs_head s) s'"
proof -
  note L = lookedD [OF assms(1)]
  have "blks sec s' = blks sec s" using L by (simp add: blks_def block_lba_def inode_at_def fun_eq_iff)
  then have "fs_consistent ready sec s'"
    using assms(2) L by (simp add: fs_consistent_def tree_at_def fs_at_def fs_ok_def)
  then show ?thesis using L by (simp add: under_head_def)
qed

definition live_fs :: "'d disk_ops \<Rightarrow> ('d \<Rightarrow> nat \<Rightarrow> u8 list) \<Rightarrow> ('d \<Rightarrow> bool) \<Rightarrow> 'd fs \<Rightarrow> bool" where
  "live_fs io sec ready s \<longleftrightarrow> reliable_disk io sec ready \<and> fs_consistent ready sec s"

lemma live_fsD:
  assumes "live_fs io sec ready s"
  shows "reliable_disk io sec ready" "fs_consistent ready sec s" "under_head ready sec (fs_head s) s"
    "reliable_fs io sec ready (at_head ready (fs_head s))"
    "tree_at (at_head ready (fs_head s)) sec (g_inodes s) (blks sec s) s"
  using assms by (simp_all add: live_fs_def under_head_def reliable_fsI consistentD)

lemma create_kept:
  assumes "live_fs io sec ready s"
  shows "under_head ready sec (fs_head s) (snd (fs_create io a s))"
  using under_step [OF fs_create_effect [OF live_fsD(1,2) [OF assms]]] live_fsD(3) [OF assms] by (cases a) (simp_all add: fs_create_def)

lemma mkdir_kept:
  assumes "live_fs io sec ready s"
  shows "under_head ready sec (fs_head s) (snd (fs_mkdir io a s))"
  using under_step [OF fs_mkdir_effect [OF live_fsD(1,2) [OF assms]]] live_fsD(3) [OF assms] by (cases a) (simp_all add: fs_mkdir_def)

lemma fs_write_kept:
  assumes "live_fs io sec ready s"
  shows "under_head ready sec (fs_head s) (snd (fs_write io a b s))"
  using under_step [OF fs_write_effect [OF live_fsD(1,2) [OF assms]]] live_fsD(3) [OF assms] by (cases a) (simp_all add: fs_write_def)

lemma remove_kept:
  assumes "live_fs io sec ready s"
  shows "under_head ready sec (fs_head s) (snd (fs_remove io a s))"
  using under_step [OF fs_remove_effect [OF live_fsD(1,2) [OF assms]]] live_fsD(3) [OF assms] by (cases a) (simp_all add: fs_remove_def)

lemma mkdir_path_kept:
  assumes l: "live_fs io sec ready s"
  shows "under_head ready sec (fs_head s) (snd (fs_mkdir_path io a s))"
proof (cases a)
  case (Some p)
  show ?thesis
  proof (cases "has_sep p \<and> \<not> is_empty p")
    case True
    have "path_effect ready sec p (\<lambda>d. under_head ready sec (fs_head s) (snd (fs_mkdir_path io (Some p) s))) s
        (fst (fs_mkdir_path io (Some p) s)) (snd (fs_mkdir_path io (Some p) s))"
      by (rule in_subdirD [OF reliable_fs.fs_mkdir_path_step [OF live_fsD(4,5) [OF l]]])
        (use True in \<open>auto intro: under_step stepD dir_effect\<close>)
    then show ?thesis unfolding Some by (rule under_path)
  next
    case False
    then show ?thesis using mkdir_kept [OF l, of "Some p"] live_fsD(3) [OF l] by (auto simp: Some fs_mkdir_path_def)
  qed
qed (simp add: fs_mkdir_path_def live_fsD(3) [OF l])

lemma remove_path_kept:
  assumes l: "live_fs io sec ready s"
  shows "under_head ready sec (fs_head s) (snd (fs_remove_path io a s))"
proof (cases a)
  case (Some p)
  show ?thesis
  proof (cases "has_sep p \<and> \<not> is_empty p")
    case True
    have "path_effect ready sec p (\<lambda>d. under_head ready sec (fs_head s) (snd (fs_remove_path io (Some p) s))) s
        (fst (fs_remove_path io (Some p) s)) (snd (fs_remove_path io (Some p) s))"
      by (rule in_subdirD [OF reliable_fs.fs_remove_path_step [OF live_fsD(4,5) [OF l]]])
        (use True in \<open>auto intro: under_step stepD del_effect\<close>)
    then show ?thesis unfolding Some by (rule under_path)
  next
    case False
    then show ?thesis using remove_kept [OF l, of "Some p"] live_fsD(3) [OF l] by (auto simp: Some fs_remove_path_def)
  qed
qed (simp add: fs_remove_path_def live_fsD(3) [OF l])

lemma write_path_kept:
  assumes l: "live_fs io sec ready s" and "\<And>p. a = Some p \<Longrightarrow> has_sep p \<Longrightarrow> str_len (path_rest p) < 30"
  shows "under_head ready sec (fs_head s) (snd (fs_write_path io a b s))"
proof (cases a)
  case (Some p)
  show ?thesis
  proof (cases "has_sep p \<and> \<not> is_empty p")
    case True
    then have "path_effect ready sec p (\<lambda>d. step_effect ready sec (g_mounted s \<and> \<not> is_empty (path_rest p) \<and>
        (file_at sec s d (path_rest p) \<noteq> None \<or> has_slot (blks sec s) d \<and> room s))
      (file_changed sec d (path_rest p) (Some (file_content b))) s
      (fst (fs_write_path io (Some p) b s)) (snd (fs_write_path io (Some p) b s))) s
      (fst (fs_write_path io (Some p) b s)) (snd (fs_write_path io (Some p) b s))"
      using assms(2) [OF Some] by (intro fs_write_path_effect [OF live_fsD(1,2) [OF l]]) simp_all
    then show ?thesis unfolding Some by (rule under_path) (rule under_step)
  next
    case False
    then show ?thesis using fs_write_kept [OF l, of "Some p" b] live_fsD(3) [OF l] by (auto simp: Some fs_write_path_def)
  qed
qed (simp add: fs_write_path_def live_fsD(3) [OF l])

lemma copy_path_kept:
  assumes l: "live_fs io sec ready s"
  shows "under_head ready sec (fs_head s) (snd (fs_copy_path io a b s))"
proof (cases "a = None \<or> b = None")
  case True
  then show ?thesis using live_fsD(3) [OF l] by (cases a) (auto simp: fs_copy_path_def)
next
  case False
  then obtain p q where p: "a = Some p" "b = Some q" by auto
  obtain ok s' where r: "fs_copy_path io (Some p) (Some q) s = (ok, s')" by (metis surj_pair)
  have "\<exists>tab B. tree_at (at_head ready (fs_head s)) sec tab B s'"
    using reliable_fs.fs_copy_path_step [OF live_fsD(4,5) [OF l], of p q]
    unfolding r post_def prod.case tree_step_def by (auto split: option.splits if_splits)
  from under_tree [OF this] show ?thesis by (simp add: p r)
qed

lemma outcome_tree: "rename_outcome K sec tab B src dst ok s' \<Longrightarrow> \<exists>tab B. tree_at K sec tab B s'"
  unfolding rename_outcome_def by (fastforce split: option.split_asm prod.split_asm if_split_asm)

lemma rename_kept:
  assumes l: "live_fs io sec ready s"
  shows "under_head ready sec (fs_head s) (snd (fs_rename io a b s))"
proof (cases "\<exists>p q. a = Some p \<and> b = Some q \<and> g_mounted s \<and> \<not> is_empty p \<and> \<not> is_empty q")
  case False
  then show ?thesis using live_fsD(3) [OF l] by (cases a; cases b) (auto simp: fs_rename_def)
next
  case True
  then obtain p q where p: "a = Some p" "b = Some q" "g_mounted s" "\<not> is_empty p" "\<not> is_empty q" by auto
  obtain ok s' where r: "fs_rename io (Some p) (Some q) s = (ok, s')" by (metis surj_pair)
  have "\<exists>tab B. tree_at (at_head ready (fs_head s)) sec tab B s'"
    using reliable_fs.fs_rename_step [OF live_fsD(4,5) [OF l] p(3-5)] unfolding r post_def prod.case
    by (blast intro: outcome_tree)
  from under_tree [OF this] show ?thesis by (simp add: p r)
qed

lemma remove_recursive_kept:
  assumes l: "live_fs io sec ready s"
  shows "\<exists>ok s'. fs_remove_path_recursive FS_MAX_INODES io a s = Some (ok, s') \<and> under_head ready sec (fs_head s) s'"
proof (cases "\<exists>p. a = Some p \<and> g_mounted s \<and> \<not> is_empty p")
  case False
  then show ?thesis using live_fsD(3) [OF l] by (cases a) (auto simp: fs_remove_path_recursive_def)
next
  case True
  then obtain p where p: "a = Some p" "g_mounted s" "\<not> is_empty p" by auto
  obtain ok s' where r: "fs_remove_path_recursive 64 io (Some p) s = Some (ok, s')"
    "case path_place (g_inodes s) (blks sec s) p of
       None \<Rightarrow> \<not> ok \<and> tree_at (at_head ready (fs_head s)) sec (g_inodes s) (blks sec s) s'
     | Some (d, name) \<Rightarrow> cut_step (at_head ready (fs_head s)) sec d name (g_inodes s) (blks sec s) ok s'"
    using reliable_fs.fs_remove_recursive_step [OF live_fsD(4,5) [OF l] p(2,3)] by blast
  have "\<exists>tab B. tree_at (at_head ready (fs_head s)) sec tab B s'"
    using r(2) unfolding cut_step_def by (fastforce split: option.splits)
  from under_tree [OF this] show ?thesis using r(1) by (simp add: p(1))
qed

lemma passwd_kept:
  assumes l: "live_fs io sec ready s" and "passwd_at sec s \<noteq> None"
  shows "under_head ready sec (fs_head s) (snd (fs_write_passwd io h s))"
proof -
  obtain d where d: "subdir_at sec s 0 sys_name = Some d" "file_at sec s d passwd_name \<noteq> None"
    using assms(2) by (auto simp: passwd_at_def split: option.splits)
  show ?thesis
    using write_passwd_effect [OF live_fsD(1,2) [OF l] d, of h] by (simp add: under_head_def prod_eq_iff)
qed

text \<open>
  Which calls a client may make in which state: a name that fits its entry for \<^verbatim>\<open>fs_write_path\<close>, a size
  that leaves room for the directories and files of the system for \<^verbatim>\<open>fs_format\<close>, the password only where a
  password file exists, as formatting leaves it, and mounting only what has been written back. All others always.
\<close>

fun allowed_call :: "'d disk_ops \<Rightarrow> ('d \<Rightarrow> bool) \<Rightarrow> ('d \<Rightarrow> nat \<Rightarrow> u8 list) \<Rightarrow> fs_call \<Rightarrow> 'd fs \<Rightarrow> bool" where
  "allowed_call io ready sec (WritePath (Some p) b) s \<longleftrightarrow> (has_sep p \<longrightarrow> str_len (path_rest p) < 30)"
| "allowed_call io ready sec (Format n m) s \<longleftrightarrow> 5 \<le> unat (fst (format_blocks io n s)) \<and> (m = 0 \<or> 4 \<le> m)"
| "allowed_call io ready sec (WritePasswd h) s \<longleftrightarrow> passwd_at sec s \<noteq> None"
| "allowed_call io ready sec Init s \<longleftrightarrow> on_disk ready sec s"
| "allowed_call io ready sec _ s \<longleftrightarrow> True"

lemma run_plain:
  assumes l: "live_fs io sec ready s" and c: "plain_call c" "allowed_call io ready sec c s"
  shows "\<exists>s'. run_call io c s = Some s' \<and> under_head ready sec (fs_head s) s'"
proof (cases "looks_call c")
  case True
  have "ready (disk s)" using live_fsD(2) [OF l] by (simp add: fs_consistent_def tree_at_def fs_at_def fs_ok_def)
  then obtain s' where "run_call io c s = Some s'" "looked ready sec s s'"
    using block_device.run_look [OF _ True] live_fsD(1) [OF l] unfolding reliable_disk_def by blast
  then show ?thesis using under_looked live_fsD(2) [OF l] by blast
next
  case False
  show ?thesis
  proof (cases c)
    case (WritePath a b)
    then have "has_sep p \<Longrightarrow> str_len (path_rest p) < 30" if "a = Some p" for p using c(2) that by simp
    from write_path_kept [OF l this] show ?thesis by (simp add: WritePath)
  next
    case (RemoveRecursive a)
    obtain ok s' where "fs_remove_path_recursive FS_MAX_INODES io a s = Some (ok, s')"
      "under_head ready sec (fs_head s) s'" using remove_recursive_kept [OF l] by blast
    then show ?thesis by (simp add: RemoveRecursive)
  qed (use False c create_kept [OF l] mkdir_kept [OF l] mkdir_path_kept [OF l] fs_write_kept [OF l]
      copy_path_kept [OF l] rename_kept [OF l] remove_kept [OF l] remove_path_kept [OF l] passwd_kept [OF l]
      in \<open>simp_all add: plain_call_def\<close>)
qed

text \<open>One call: it returns, and leaves a consistent, mounted file system and the boot sectors.\<close>

definition sound_fs :: "('d \<Rightarrow> bool) \<Rightarrow> ('d \<Rightarrow> nat \<Rightarrow> u8 list) \<Rightarrow> (nat \<Rightarrow> u8 list) \<Rightarrow> 'd fs \<Rightarrow> bool" where
  "sound_fs ready sec low s \<longleftrightarrow> fs_consistent ready sec s \<and> g_mounted s \<and> (\<forall>l < 128. sec (disk s) l = low l)"

lemma consistent_mem: "fs_consistent ready sec s \<Longrightarrow> mem_inv s \<and> ready (disk s)"
  by (simp add: fs_consistent_def tree_at_def fs_at_def fs_ok_def)

lemma format_sound:
  assumes io: "reliable_disk io sec ready" and s: "sound_fs ready sec low s" and c: "allowed_call io ready sec (Format n m) s"
  shows "sound_fs ready sec low (snd (fs_format io n m s))"
proof -
  have bd: "block_device io sec ready" using io by (simp add: reliable_disk_def)
  obtain ok s' where f: "fs_format io n m s = (ok, s')" by (metis surj_pair)
  have b: "boot_mem s" "ready (disk s)"
    using s consistent_mem [of ready sec s] by (auto simp: sound_fs_def mem_inv_def boot_mem_def)
  have F: "ok" "g_mounted s'" "fs_consistent ready sec s'"
    using format_effect [OF io b(2,1) _ _ f] c by simp_all
  have "post (\<lambda>ok s'. fs_ok (boot_kept ready sec (sec (disk s))) s' \<and>
      (ok \<longrightarrow> fs_ok (boot_synced ready sec (sec (disk s))) s' \<and> g_mounted s')) (fs_format io n m s)"
    using block_device.fs_format_keeps [OF bd b(2)] b(1) by (simp add: boot_mem_def)
  then have "\<forall>l < 128. sec (disk s') l = sec (disk s) l" by (simp add: f post_def fs_ok_def boot_kept_def)
  then show ?thesis using F s by (simp add: f sound_fs_def)
qed

lemma init_sound:
  assumes io: "reliable_disk io sec ready" and s: "sound_fs ready sec low s" and c: "on_disk ready sec s"
  shows "sound_fs ready sec low (snd (fs_init io s))"
proof -
  obtain ok s' where i: "fs_init io s = (ok, s')" by (metis surj_pair)
  have b: "fs_consistent ready sec s" "boot_mem s" "mem_inv s"
    using s consistent_mem [of ready sec s] by (auto simp: sound_fs_def mem_inv_def boot_mem_def)
  have su: "super_synced ready sec (fs_head s) (disk s)" "synced sec s" using c by (simp_all add: on_disk_def)
  have "sec (disk s') = sec (disk s)"
    using reliable_disk.fs_init_restores [OF io b(3) su(2,1) refl, unfolded i] b(2) by (simp add: boot_mem_def post_def)
  moreover have "fs_consistent ready sec s'" "g_mounted s'" using init_effect [OF io b(1) c refl b(2) i] by simp_all
  ultimately show ?thesis using s by (simp add: i sound_fs_def)
qed

lemma run_sound:
  assumes io: "reliable_disk io sec ready" and s: "sound_fs ready sec low s" and c: "allowed_call io ready sec c s"
  shows "\<exists>s'. run_call io c s = Some s' \<and> sound_fs ready sec low s'"
proof (cases "plain_call c")
  case True
  have l: "live_fs io sec ready s" using io s by (simp add: live_fs_def sound_fs_def)
  obtain s' where s': "run_call io c s = Some s'" "under_head ready sec (fs_head s) s'"
    using run_plain [OF l True c] by blast
  have "fs_ok (fixed ready sec (fs_head s) (sec (disk s))) s"
    using s consistent_mem [of ready sec s] by (simp add: sound_fs_def fs_ok_def fixed_def)
  from reliable_fs.reliable_run_call_keeps [OF reliable_pinned [OF io] this s'(1) True]
  have "\<forall>l < 128. sec (disk s') l = sec (disk s) l" by (simp add: fs_ok_def fixed_def)
  then show ?thesis using s s' by (auto simp: sound_fs_def under_head_def fs_head_def)
next
  case False
  then consider n m where "c = Format n m" | "c = Init" by (cases c) (auto simp: plain_call_def)
  then show ?thesis using format_sound [OF io s] init_sound [OF io s] c by cases auto
qed

lemma session_sound:
  assumes "reliable_disk io sec ready" and "fs_session io (allowed_call io ready sec) s s'" and "sound_fs ready sec low s"
  shows "sound_fs ready sec low s'"
  using assms(2,3)
proof (induction rule: fs_session.induct)
  case (session_call s s1 c s2)
  then show ?case using run_sound [OF assms(1), of low s1 c] by auto
qed

text \<open>C22: With a device that carries out every command no sequence of calls breaks a consistent file
  system, and none fails to return: in every state reached the tables and the tree are consistent, the file
  system is mounted, the sectors below 128 are as they were, and every call of the interface, recursive removal,
  formatting and mounting included, returns. What is asked of a call is that a name written below a directory fits its entry
  (C24 shows what happens if not), that formatting gets at least 5 blocks and 4 inodes, that
  the password is set where a password file exists, and that only tables that are written back are mounted again.
\<close>

theorem fs_session_reliable:
  assumes "reliable_disk io sec ready" and "fs_consistent ready sec s" and "g_mounted s"
    and "fs_session io (allowed_call io ready sec) s s'"
  shows "fs_consistent ready sec s' \<and> g_mounted s' \<and> (\<forall>l < 128. sec (disk s') l = sec (disk s) l) \<and>
    (\<forall>c. allowed_call io ready sec c s' \<longrightarrow> run_call io c s' \<noteq> None)"
proof -
  have "sound_fs ready sec (sec (disk s)) s'"
    by (rule session_sound [OF assms(1,4)]) (use assms(2,3) in \<open>simp add: sound_fs_def\<close>)
  then show ?thesis using run_sound [OF assms(1)] by (fastforce simp: sound_fs_def)
qed

section \<open>Witnesses\<close>

text \<open>A session on a device in memory that creates a file and formats.\<close>

theorem fs_session_safe_witness:
  "\<exists>s s'. s = snd (fs_create ram_ops (Some [110]) demo_fs) \<and> s' = snd (fs_format ram_ops 100 64 s) \<and>
     mem_inv s' \<and> ram_sec (disk s') 0 = ram_sec (disk demo_fs) 0 \<and> ram_sec (disk s) 128 = ram_sec (disk demo_fs) 128"
proof -
  let ?A = "\<lambda>c _. \<not> removes_call c \<and> c \<noteq> Init" and ?B = "\<lambda>c _. \<not> removes_call c \<and> plain_call c"
  let ?s = "snd (fs_create ram_ops (Some [110]) demo_fs)"
  have 1: "fs_session ram_ops ?A demo_fs ?s" "fs_session ram_ops ?B demo_fs ?s"
    by (rule session_call [OF session_start, where c = "Create (Some [110])"]; simp add: plain_call_def)+
  have 2: "fs_session ram_ops ?A demo_fs (snd (fs_format ram_ops 100 64 ?s))"
    by (rule session_call [OF 1(1), where c = "Format 100 64"]) simp_all
  show ?thesis
    using fs_session_safe [OF ram.block_device_axioms demo_mem_inv _ 1(1)] 1(2)
      fs_session_safe [OF ram.block_device_axioms demo_mem_inv _ 2] by auto
qed

text \<open>A session that removes a directory with all it holds, formats and mounts.\<close>

theorem fs_session_reliable_witness:
  "\<exists>s s'. run_call ram_ops (RemoveRecursive (Some [100])) demo_fs = Some s \<and>
     run_call ram_ops (Format 100 64) s = Some s' \<and> fs_consistent (\<lambda>_. True) ram_sec s' \<and>
     ram_sec (disk s') 0 = ram_sec (disk demo_fs) 0"
proof -
  let ?A = "allowed_call ram_ops (\<lambda>_. True) ram_sec"
  note S = fs_session_reliable [OF ram.reliable_disk_axioms demo_consistent demo_fs_simps(3)]
  obtain s where s: "run_call ram_ops (RemoveRecursive (Some [100])) demo_fs = Some s"
    using S [OF session_start, THEN conjunct2, THEN conjunct2, THEN conjunct2, THEN spec, of "RemoveRecursive (Some [100])"]
    by (auto simp del: run_call.simps)
  have 1: "fs_session ram_ops ?A demo_fs s" by (rule session_call [OF session_start _ s]) simp
  obtain s' where s': "run_call ram_ops (Format 100 64) s = Some s'" by simp
  have "fs_session ram_ops ?A demo_fs s'"
    by (rule session_call [OF 1 _ s']) (simp add: format_blocks_def)
  with S [OF this] s s' show ?thesis by auto
qed

end
