(* ===== verification/ShellTheorems.thy ===== *)
theory ShellTheorems
  imports Shell FsSafety
begin

text \<open>
  What the shell promises: how it resolves paths, that no command breaks the file system or its own
  prompt, that the login lets in who types the password, and that what \<^verbatim>\<open>write\<close> has stored \<^verbatim>\<open>read\<close> shows.
\<close>

section \<open>Paths\<close>

text \<open>
  By specification: each leading \<^verbatim>\<open>..\<close> goes from the current directory to its parent; what is left is
  taken from there if it has no slash, and as a path from the root if it has.
\<close>

definition parent_of :: "u8 list \<Rightarrow> u8 list" where
  "parent_of cwd = rev (drop 1 (dropWhile (\<lambda>c. c \<noteq> 47) (rev cwd)))"

fun climb :: "u8 list \<Rightarrow> u8 list \<Rightarrow> u8 list \<times> u8 list" where
  "climb (a # b # c # rest) cwd =
     (if a = 46 \<and> b = 46 \<and> c = 47 then climb rest (parent_of cwd) else (a # b # c # rest, cwd))"
| "climb [a, b] cwd = (if a = 46 \<and> b = 46 then ([], parent_of cwd) else ([a, b], cwd))"
| "climb path cwd = (path, cwd)"

definition join_path :: "u8 list \<times> u8 list \<Rightarrow> u8 list" where
  "join_path pc = (case pc of (path, cwd) \<Rightarrow>
     if 47 \<in> set path \<or> cwd = [] then path else if path = [] then cwd else cwd @ 47 # path)"

lemma last_sep_snoc: "last_sep (cs @ [c]) = (if c = 47 then Some (length cs) else last_sep cs)"
proof -
  have "fold (\<lambda>i l. if (cs @ [c]) ! i = 47 then Some i else l) [0..<length cs] None = last_sep cs"
    unfolding last_sep_def by (rule fold_cong) (auto simp: nth_append)
  then show ?thesis by (simp add: last_sep_def nth_append)
qed

lemma last_sep_le: "last_sep cs = Some i \<Longrightarrow> i < length cs"
proof (induction cs rule: rev_induct)
  case Nil
  then show ?case by (simp add: last_sep_def)
next
  case (snoc c cs)
  then show ?case by (cases "c = 47") (simp_all add: last_sep_snoc less_SucI)
qed

lemma parent_dir_of: "parent_dir cwd = parent_of cwd"
proof (induction cwd rule: rev_induct)
  case Nil
  then show ?case by (simp add: parent_dir_def parent_of_def)
next
  case (snoc c cs)
  show ?case
  proof (cases "c = 47")
    case True
    then show ?thesis by (simp add: parent_dir_def parent_of_def last_sep_snoc)
  next
    case False
    then have "parent_of (cs @ [c]) = parent_of cs" by (simp add: parent_of_def)
    moreover have "parent_dir (cs @ [c]) = parent_dir cs"
      using False last_sep_le [of cs]
      by (auto simp: parent_dir_def last_sep_snoc split: option.split)
    ultimately show ?thesis using snoc by simp
  qed
qed

lemma climb_short: "path = [] \<or> hd path \<noteq> 46 \<or> tl path = [] \<or> hd (tl path) \<noteq> 46 \<Longrightarrow> climb path cwd = (path, cwd)"
  by (cases "(path, cwd)" rule: climb.cases) auto

lemma dotdots_climb: "(case dotdots input cwd of (inp, cwd') \<Rightarrow> (cstr inp, cwd')) = climb (cstr input) cwd"
proof (induction "length input" arbitrary: input cwd rule: less_induct)
  case less
  note d = dotdots.simps [of input cwd]
  show ?case
  proof (cases "byte_at input 0 = 46 \<and> byte_at input 1 = 46")
    case False
    then have "climb (cstr input) cwd = (cstr input, cwd)"
      by (intro climb_short) (cases input; cases "tl input"; auto)
    moreover have "dotdots input cwd = (input, cwd)" using False by (subst d) auto
    ultimately show ?thesis by simp
  next
    case True
    then obtain rest where i: "input = 46 # 46 # rest"
      by (cases input; cases "tl input") auto
    consider (none) "rest = []" | (last) c rest' where "rest = c # rest'" "c = 0"
      | (slash) rest' where "rest = 47 # rest'" | (other) c rest' where "rest = c # rest'" "c \<noteq> 0" "c \<noteq> 47"
      by (cases rest) auto
    then show ?thesis
    proof cases
      case slash
      then show ?thesis using less [of rest' "parent_of cwd"] by (subst d) (simp add: i parent_dir_of)
    qed (subst d, simp add: i parent_dir_of)+
  qed
qed

lemma resolve_fs_path_spec':
  assumes "0 < max_len"
  shows "resolve_fs_path root input max_len =
      take (max_len - 1) (join_path (climb (cstr input) (take 63 (root_dir root)))) \<and>
    length (resolve_fs_path root input max_len) < max_len"
proof -
  obtain inp cwd where d: "dotdots input (take 63 (root_dir root)) = (inp, cwd)" by fastforce
  have c: "climb (cstr input) (take 63 (root_dir root)) = (cstr inp, cwd)"
    using dotdots_climb [of input "take 63 (root_dir root)"] by (simp add: d)
  have e: "byte_at inp 0 \<noteq> 0 \<longleftrightarrow> cstr inp \<noteq> []" by (cases inp) auto
  have "resolve_fs_path root input max_len = take (max_len - 1) (join_path (cstr inp, cwd))"
    unfolding resolve_fs_path_def d Let_def prod.case e
    by (auto simp: join_path_def min_def take_Cons' Suc_diff_Suc)
  then show ?thesis using assms unfolding c by simp
qed

text \<open>C40: \<open>resolve_fs_path\<close> stores the path it stands for, cut off at one byte less than the buffer has: each
  leading \<open>..\<close> goes to the parent of the current directory, the rest is taken relative to it if it has
  no slash, and as it is if it has one. The terminator always fits.\<close>

theorem resolve_fs_path_spec:
  assumes "0 < max_len"
  shows "resolve_fs_path root input max_len =
      take (max_len - 1) (join_path (climb (cstr input) (take 63 (root_dir root)))) \<and>
    length (resolve_fs_path root input max_len) < max_len"
  by (rule resolve_fs_path_spec' [OF assms])

theorem resolve_fs_path_spec_witness:
  "resolve_fs_path (ascii ''7:/a'') (ascii ''../b'') 64 = ascii ''b'' \<and>
   resolve_fs_path (ascii ''7:/a'') (ascii ''b'') 64 = ascii ''a/b''"
proof -
  have "climb (cstr (ascii ''../b'')) (take 63 (root_dir (ascii ''7:/a''))) = (ascii ''b'', [])"
    "climb (cstr (ascii ''b'')) (take 63 (root_dir (ascii ''7:/a''))) = (ascii ''b'', ascii ''a'')"
    by code_simp+
  then show ?thesis
    using resolve_fs_path_spec [of 64 "ascii ''7:/a''" "ascii ''../b''"]
      resolve_fs_path_spec [of 64 "ascii ''7:/a''" "ascii ''b''"]
    by (simp add: join_path_def ascii_def)
qed

section \<open>Safety\<close>

text \<open>The prompt is \<^verbatim>\<open>7:/\<close> and a path that fits the 64 bytes of \<^verbatim>\<open>k_root\<close>.\<close>

definition root_ok :: "u8 list \<Rightarrow> bool" where
  "root_ok root \<longleftrightarrow> take 3 root = ascii ''7:/'' \<and> length root < 64 \<and> 0 \<notin> set root"

text \<open>A step of the shell is a session of file-system calls without formatting and mounting, and keeps the prompt.\<close>

definition shell_step :: "'d env \<Rightarrow> 'd shell \<Rightarrow> 'd shell \<Rightarrow> bool" where
  "shell_step e sh sh' \<longleftrightarrow> fs_session (drv e) (\<lambda>c _. plain_call c) (fsys sh) (fsys sh') \<and>
     (root_ok (k_root sh) \<longrightarrow> root_ok (k_root sh'))"

lemma fs_session_trans:
  "fs_session io A s' s'' \<Longrightarrow> fs_session io A s s' \<Longrightarrow> fs_session io A s s''"
  by (induction rule: fs_session.induct) (auto intro: session_call)

lemma step_refl [simp]: "shell_step e sh sh"
  by (simp add: shell_step_def session_start)

lemma step_trans: "shell_step e sh sh' \<Longrightarrow> shell_step e sh' sh'' \<Longrightarrow> shell_step e sh sh''"
  by (auto simp: shell_step_def intro: fs_session_trans)

lemma step_screen [simp]: "shell_step e sh (on_screen f sh') = shell_step e sh sh'"
  by (simp add: shell_step_def on_screen_def)

lemma step_from_screen [simp]: "shell_step e (on_screen f sh) sh' = shell_step e sh sh'"
  by (simp add: shell_step_def on_screen_def)

lemma step_flags [simp]: "shell_step e sh (sh'\<lparr>exited := b\<rparr>) = shell_step e sh sh'"
  "shell_step e sh (poweroff sh') = shell_step e sh sh'"
  by (simp_all add: shell_step_def poweroff_def)

lemma step_call:
  "run_call (drv e) c (fsys sh) = Some s \<Longrightarrow> plain_call c \<Longrightarrow> shell_step e sh (sh\<lparr>fsys := s\<rparr>)"
  using session_call [OF session_start, of "\<lambda>c _. plain_call c"] by (simp add: shell_step_def)

lemma step_on_fs:
  assumes "run_call (drv e) c (fsys sh) = Some (snd (f (fsys sh)))" "plain_call c" "on_fs f sh = (r, sh')"
  shows "shell_step e sh sh'"
  using assms step_call [of e c sh] by (auto simp: on_fs_def split: prod.splits)

lemma step_calls:
  "on_fs (fs_list_dir (drv e) d1 n1) sh = (r1, sh') \<Longrightarrow> shell_step e sh sh'"
  "on_fs (fs_list_root (drv e) n2) sh = (r2, sh') \<Longrightarrow> shell_step e sh sh'"
  "on_fs (fs_write_path (drv e) p3 d3) sh = (r3, sh') \<Longrightarrow> shell_step e sh sh'"
  "on_fs (fs_read_passwd (drv e)) sh = (r4, sh') \<Longrightarrow> shell_step e sh sh'"
  "on_fs (fs_write_passwd (drv e) h5) sh = (r5, sh') \<Longrightarrow> shell_step e sh sh'"
  "on_fs (fs_mkdir_path (drv e) p6) sh = (r6, sh') \<Longrightarrow> shell_step e sh sh'"
  "on_fs (fs_read_path (drv e) p7 n7) sh = (r7, sh') \<Longrightarrow> shell_step e sh sh'"
  "on_fs (fs_is_dir (drv e) p8) sh = (r8, sh') \<Longrightarrow> shell_step e sh sh'"
  "on_fs (fs_rename (drv e) p9 q9) sh = (r9, sh') \<Longrightarrow> shell_step e sh sh'"
  "on_fs (fs_copy_path (drv e) p10 q10) sh = (r10, sh') \<Longrightarrow> shell_step e sh sh'"
  subgoal by (rule step_on_fs [of e "ListDir d1 n1"]) (simp_all add: plain_call_def)
  subgoal by (rule step_on_fs [of e "ListRoot n2"]) (simp_all add: plain_call_def)
  subgoal by (rule step_on_fs [of e "WritePath p3 d3"]) (simp_all add: plain_call_def)
  subgoal by (rule step_on_fs [of e "ReadPasswd"]) (simp_all add: plain_call_def)
  subgoal by (rule step_on_fs [of e "WritePasswd h5"]) (simp_all add: plain_call_def)
  subgoal by (rule step_on_fs [of e "MkdirPath p6"]) (simp_all add: plain_call_def)
  subgoal by (rule step_on_fs [of e "ReadPath p7 n7"]) (simp_all add: plain_call_def)
  subgoal by (rule step_on_fs [of e "IsDir p8"]) (simp_all add: plain_call_def)
  subgoal by (rule step_on_fs [of e "Rename p9 q9"]) (simp_all add: plain_call_def)
  subgoal by (rule step_on_fs [of e "CopyPath p10 q10"]) (simp_all add: plain_call_def)
  done

lemma step_read_line: "read_line sh = Some (l, sh') \<Longrightarrow> shell_step e sh sh'"
  by (auto simp: read_line_def shell_step_def session_start)

lemma step_fold_screen [simp]: "shell_step e sh (fold (\<lambda>x. on_screen (f x)) xs sh') = shell_step e sh sh'"
  by (induction xs arbitrary: sh') auto

lemma stored_hash_step: "stored_hash e sh = (h, sh') \<Longrightarrow> shell_step e sh sh'"
  by (auto simp: stored_hash_def split: prod.splits dest!: step_calls(4))

lemma passwd_loop_step:
  assumes "passwd_loop e sh = Some sh'"
  shows "shell_step e sh sh'"
proof (rule passwd_loop.raw_induct [where P = shell_step, OF _ assms], goal_cases)
  case (1 rec e sh sh')
  have rec: "shell_step e x sh'" if "rec e (on_screen f x) = Some sh'" for f x
    using 1(1) [OF that] by simp
  show ?case
    using 1(2) by (auto simp: Let_def split: Option.bind_splits prod.splits if_splits
        dest!: step_read_line [where e = e] step_calls(5) rec) (blast intro: step_trans)+
qed

lemma cmd_passwd_step: "cmd_passwd e sh = Some sh' \<Longrightarrow> shell_step e sh sh'"
  by (auto simp: cmd_passwd_def Let_def split: Option.bind_splits prod.splits if_splits
      intro: step_trans dest!: step_read_line [where e = e] stored_hash_step passwd_loop_step)

lemma rm_loop_step: "rm_loop e args rec any sh = Some (b, sh') \<Longrightarrow> shell_step e sh sh'"
proof (induction args arbitrary: rec any sh)
  case (Cons arg args)
  let ?p = "Some (resolve_fs_path (k_root sh) arg 64)"
  have "shell_step e sh (sh\<lparr>fsys := s\<rparr>)"
    if "(if rec then fs_remove_path_recursive FS_MAX_INODES (drv e) ?p (fsys sh)
      else Some (fs_remove_path (drv e) ?p (fsys sh))) = Some (ok, s)" for ok s
    using that step_call [of e "RemoveRecursive ?p" sh s] step_call [of e "RemovePath ?p" sh s]
    by (auto simp: plain_call_def split: if_splits)
  moreover have IH: "shell_step e x sh'" if "rm_loop e args r a (on_screen f (on_screen g x)) = Some (b, sh')" for f g r a x
    using Cons.IH [OF that] by simp
  ultimately show ?case
    using Cons by (auto simp: Let_def split: if_splits option.splits prod.splits dest!: IH intro: step_trans)
qed simp

lemma cmd_rm_step: "cmd_rm e parts sh = Some sh' \<Longrightarrow> shell_step e sh sh'"
  by (auto simp: cmd_rm_def split: Option.bind_splits if_splits prod.splits dest!: rm_loop_step)

lemma cmd_cd_step: "shell_step e sh (cmd_cd e parts sh)"
proof -
  have "root_ok (ascii ''7:/'' @ take 60 (cstr p))" for p
    by (auto simp: root_ok_def ascii_def dest: in_set_takeD)
  then have "shell_step e sh (sh'\<lparr>k_root := ascii ''7:/'' @ take 60 (cstr p)\<rparr>)" if "shell_step e sh sh'" for sh' p
    using that by (simp add: shell_step_def)
  then show ?thesis
    by (auto simp: cmd_cd_def Let_def split: prod.splits if_splits dest: step_calls(8))
qed

lemma plain_steps:
  "shell_step e sh (cmd_help sh)" "shell_step e sh (cmd_ls e parts sh)" "shell_step e sh (cmd_info e sh)"
  "shell_step e sh (cmd_touch e parts sh)" "shell_step e sh (cmd_mkdir e parts sh)"
  "shell_step e sh (cmd_write e parts sh)" "shell_step e sh (cmd_read e parts sh)"
  "shell_step e sh (cmd_mv e parts sh)" "shell_step e sh (cmd_cp e parts sh)"
  subgoal by (simp add: cmd_help_def)
  subgoal by (auto simp: cmd_ls_def Let_def split: prod.splits option.splits if_splits dest: step_calls(1,2))
  subgoal by (auto simp: cmd_info_def Let_def print_size_auto_def print_size_autonl_def split: option.splits)
  subgoal by (auto simp: cmd_touch_def Let_def split: prod.splits dest: step_calls(3))
  subgoal by (auto simp: cmd_mkdir_def Let_def split: prod.splits if_splits dest: step_calls(6))
  subgoal by (auto simp: cmd_write_def Let_def split: prod.splits dest: step_calls(3))
  subgoal by (auto simp: cmd_read_def Let_def split: prod.splits option.splits dest: step_calls(7))
  subgoal by (auto simp: cmd_mv_def Let_def split: prod.splits dest: step_calls(9))
  subgoal by (auto simp: cmd_cp_def Let_def split: prod.splits dest: step_calls(10))
  done

lemma run_parts_step:
  assumes "run_parts e parts sh = Some sh'"
    and "parts \<noteq> [] \<Longrightarrow> \<not> strcmp (hd parts) (ascii ''mkfs'') \<and> \<not> strcmp (hd parts) (ascii ''test'')"
  shows "shell_step e sh sh'"
proof (cases "parts = []")
  case False
  then show ?thesis
    using assms unfolding run_parts_def Let_def
    by (auto simp: plain_steps cmd_cd_step cmd_rm_step cmd_passwd_step split: if_splits)
qed (use assms in \<open>simp add: run_parts_def\<close>)

lemma strcmp_ascii: "0 \<notin> set w \<Longrightarrow> 0 \<notin> set (ascii name) \<Longrightarrow> strcmp w (ascii name) \<longleftrightarrow> w = ascii name"
  by (simp add: strcmp_cstr cstr_id)

lemma split_line_segments: "split_line line = segments 32 line"
  unfolding split_line_def by (rule split_loop_all)

text \<open>Whatever line is typed, short of formatting and of the external \<^verbatim>\<open>test\<close>, running it keeps the file
  system's tables consistent, the superblock in memory and every sector below 129 as they are, and the
  prompt within its 64 bytes.\<close>

theorem shell_command_safe:
  assumes "reliable_disk (drv e) sec ready" and "mem_inv (fsys sh)" and "ready (disk (fsys sh))"
    and "root_ok (k_root sh)" and "0 \<notin> set line"
    and "hd (split_line line) \<notin> {ascii ''mkfs'', ascii ''test''}"
    and "run_parts e (split_line line) sh = Some sh'"
  shows "mem_inv (fsys sh') \<and> fs_head (fsys sh') = fs_head (fsys sh) \<and>
    (\<forall>l < 129. sec (disk (fsys sh')) l = sec (disk (fsys sh)) l) \<and> root_ok (k_root sh')"
proof -
  have "shell_step e sh sh'"
  proof (rule run_parts_step [OF assms(7)])
    assume "split_line line \<noteq> []"
    then have z: "0 \<notin> set (hd (split_line line))"
      using segments_ok [OF hd_in_set, of 32 line] assms(5) by (auto simp: split_line_segments)
    show "\<not> strcmp (hd (split_line line)) (ascii ''mkfs'') \<and> \<not> strcmp (hd (split_line line)) (ascii ''test'')"
      using assms(6) strcmp_ascii [OF z, of "''mkfs''"] strcmp_ascii [OF z, of "''test''"] by (auto simp: ascii_def)
  qed
  then show ?thesis
    using reliable_session_safe [OF assms(1-3)] assms(4) by (simp add: shell_step_def)
qed

definition demo_env :: "ramdisk env" where
  "demo_env = \<lparr>drv = ram_ops, cpuid = (\<lambda>_. (0, 0, 0, 0)), ram_count = 0, ram_map = [], test_call = (\<lambda>sh. sh)\<rparr>"

definition demo_shell :: "ramdisk shell" where
  "demo_shell = \<lparr>tty = demo_terminal, fsys = demo_fs, k_root = ascii ''7:/'', exited = False, halted = False,
     power_ports = []\<rparr>"

theorem shell_command_safe_witness:
  "\<exists>sh'. run_parts demo_env (split_line (ascii ''rm f'')) demo_shell = Some sh' \<and> mem_inv (fsys sh') \<and>
    root_ok (k_root sh')"
proof -
  define line where "line = ascii ''rm f''"
  have sl: "split_line line = [ascii ''rm'', ascii ''f'']" and z: "0 \<notin> set line"
    unfolding line_def by code_simp+
  have "run_parts demo_env (split_line line) demo_shell \<noteq> None"
    unfolding sl by (simp add: run_parts_def cmd_rm_def ascii_def Let_def split: prod.splits)
  then obtain sh' where r: "run_parts demo_env (split_line line) demo_shell = Some sh'" by auto
  have "root_ok (k_root demo_shell)" "mem_inv (fsys demo_shell)"
    by (simp_all add: demo_shell_def root_ok_def ascii_def demo_mem_inv)
  then have "mem_inv (fsys sh') \<and> root_ok (k_root sh')"
    using shell_command_safe [of demo_env ram_sec "\<lambda>_. True", OF _ _ _ _ z _ r] ram.reliable_disk_axioms
    by (simp add: sl demo_env_def ascii_def)
  then show ?thesis using r unfolding line_def by blast
qed

section \<open>Login\<close>

text \<open>The lines the user types, at most \<open>n\<close>: the keys decide them, not the screen.\<close>

fun typed_line :: "u8 list \<Rightarrow> u8 list \<Rightarrow> bool \<Rightarrow> (u8 list \<times> u8 list \<times> bool) option" where
  "typed_line [] line sh = None"
| "typed_line (sc # scs) line sh =
     (if is_shift sc then typed_line scs line (\<not> released sc)
      else if released sc then typed_line scs line sh
      else if key_char sh sc = 10 then Some (line, scs, sh)
      else typed_line scs (edit_char (key_char sh sc) line) sh)"

fun typed_lines :: "nat \<Rightarrow> u8 list \<Rightarrow> bool \<Rightarrow> u8 list list" where
  "typed_lines 0 scs sh = []"
| "typed_lines (Suc n) scs sh =
     (case typed_line scs [] sh of None \<Rightarrow> [] | Some (line, rest, sh) \<Rightarrow> line # typed_lines n rest sh)"

lemma type_line_typed:
  "map_option (\<lambda>(l, rest, sh, _). (l, rest, sh)) (type_line scs line sh con) = typed_line scs line sh"
  by (induction scs line sh con rule: type_line.induct) auto

lemma readl_typed:
  "(case readl t of None \<Rightarrow> typed_line (keys t) [] (shift_pressed t) = None
    | Some (l, t') \<Rightarrow> typed_line (keys t) [] (shift_pressed t) = Some (l, keys t', shift_pressed t'))"
  using readl_types [of t] type_line_typed [of "keys t" "[]" "shift_pressed t" "screen t"]
  by (auto split: option.splits)

lemma read_passwd_same:
  assumes "reliable_disk io sec ready" and "fs_consistent ready sec s" and "g_mounted s"
    and "passwd_at sec s = Some (hash_buf h)" and "fs_read_passwd io s = (r, s')"
  shows "r = Some h" "fs_consistent ready sec s'" "g_mounted s'" "passwd_at sec s' = Some (hash_buf h)"
proof -
  show "r = Some h" using read_passwd_effect [OF assms(1-4)] assms(5) by simp
  obtain d where d: "subdir_at sec s 0 sys_name = Some d" "file_at sec s d passwd_name = Some (hash_buf h)"
    using assms(4) by (auto simp: passwd_at_def split: option.splits)
  have "post (\<lambda>r s'. r = map_option (take (unat (4 :: u32))) (file_view (g_inodes s) (blks sec s) d passwd_name) \<and>
      tree_at (at_head ready (fs_head s)) sec (g_inodes s) (blks sec s) s') (read_sys_file io passwd_name 4 s)"
    by (rule reliable_disk.read_sys_result [OF assms(1) consistentD [OF assms(2)] reliable_fsI(1) [OF assms(1)] assms(3)])
      (use d in \<open>simp add: subdir_at_def\<close>)
  then have "tree_at (at_head ready (fs_head s)) sec (g_inodes s) (blks sec s) s'"
    using assms(5) by (auto simp: fs_read_passwd_def post_def split: prod.splits option.splits if_splits)
  note c = consistentI [OF this]
  have "passwd_at sec s' = passwd_at sec s"
    using c by (simp add: passwd_at_def subdir_at_def file_at_def split: option.split)
  with c show "fs_consistent ready sec s'" "g_mounted s'" "passwd_at sec s' = Some (hash_buf h)"
    using assms(3,4) by (auto simp: fs_head_def)
qed

lemma login_grants:
  assumes "reliable_disk (drv e) sec ready"
  shows "fs_consistent ready sec (fsys sh) \<Longrightarrow> g_mounted (fsys sh) \<Longrightarrow>
    passwd_at sec (fsys sh) = Some (hash_buf h) \<Longrightarrow> exited sh \<Longrightarrow>
    ls = typed_lines n (keys (tty sh)) (shift_pressed (tty sh)) \<Longrightarrow>
    (case login n e sh of
       Some sh' \<Rightarrow> exited sh' = (\<forall>l \<in> set ls. fs_hash_password l \<noteq> h)
     | None \<Rightarrow> length ls < n \<and> (\<forall>l \<in> set ls. fs_hash_password l \<noteq> h))"
proof (induction n arbitrary: sh ls)
  case (Suc n)
  let ?sh = "say_part ''Scrivi la password: '' sh"
  show ?case
  proof (cases "readl (tty ?sh)")
    case None
    have "typed_line (keys (tty sh)) [] (shift_pressed (tty sh)) = None"
      using readl_typed [of "tty ?sh"] by (simp add: None) (simp add: on_screen_def)
    then show ?thesis using Suc.prems(5) by (simp add: read_line_def None)
  next
    case (Some lt)
    then obtain line t where t: "readl (tty ?sh) = Some (line, t)" by (cases lt) auto
    have typed: "typed_line (keys (tty sh)) [] (shift_pressed (tty sh)) = Some (line, keys t, shift_pressed t)"
      using readl_typed [of "tty ?sh"] by (simp add: t) (simp add: on_screen_def)
    obtain r s where p: "fs_read_passwd (drv e) (fsys sh) = (r, s)" by fastforce
    note same = read_passwd_same [OF assms Suc.prems(1-3) p]
    have st: "stored_hash e (?sh\<lparr>tty := t\<rparr>) = (h, ?sh\<lparr>tty := t, fsys := s\<rparr>)"
      using p same(1) by (simp add: stored_hash_def on_fs_def on_screen_def)
    have rl: "read_line ?sh = Some (line, ?sh\<lparr>tty := t\<rparr>)" by (simp add: read_line_def t)
    let ?sh2 = "say ''Accesso negato!'' (?sh\<lparr>tty := t, fsys := s\<rparr>)"
    have l: "login (Suc n) e sh = (if fs_hash_password line = h
        then Some (on_screen clear_screen (?sh\<lparr>tty := t, fsys := s\<rparr>)\<lparr>exited := False\<rparr>)
        else login n e ?sh2)"
      by (simp add: rl st)
    have sh2: "fsys ?sh2 = s" "exited ?sh2" "keys (tty ?sh2) = keys t" "shift_pressed (tty ?sh2) = shift_pressed t"
      using Suc.prems(4) by (simp_all add: on_screen_def)
    show ?thesis
      using Suc.IH [of ?sh2, OF _ _ _ sh2(2) refl] same(2-4) typed Suc.prems(5)
      unfolding l sh2(1,3,4) by (auto split: option.splits)
  qed
qed simp

text \<open>C39: The login allows three attempts. It grants access exactly if one of the first three lines typed has
  the stored hash; it waits only while fewer than three lines have been typed, none of them right.\<close>

theorem login_spec:
  assumes "reliable_disk (drv e) sec ready" and "fs_consistent ready sec (fsys sh)" and "g_mounted (fsys sh)"
    and "passwd_at sec (fsys sh) = Some (hash_buf h)" and "exited sh"
    and "ls = typed_lines 3 (keys (tty sh)) (shift_pressed (tty sh))"
  shows "case login 3 e sh of
       Some sh' \<Rightarrow> exited sh' = (\<forall>l \<in> set ls. fs_hash_password l \<noteq> h)
     | None \<Rightarrow> length ls < 3 \<and> (\<forall>l \<in> set ls. fs_hash_password l \<noteq> h)"
  by (rule login_grants [OF assms])

text \<open>The keys of \<^verbatim>\<open>password123\<close> and Return.\<close>

definition demo_keys :: "u8 list" where
  "demo_keys = [0x19, 0x1E, 0x1F, 0x1F, 0x11, 0x18, 0x13, 0x20, 0x02, 0x03, 0x04, 0x1C]"

theorem login_spec_witness:
  "\<exists>s sh'. fs_format ram_ops 100 64 blank_fs = (True, s) \<and>
    login 3 demo_env (demo_shell\<lparr>fsys := s, exited := True, tty := demo_terminal\<lparr>keys := demo_keys\<rparr>\<rparr>) = Some sh' \<and>
    \<not> exited sh'"
proof -
  obtain s where s: "fs_format ram_ops 100 64 blank_fs = (True, s)" "g_mounted s" "fs_consistent (\<lambda>_. True) ram_sec s"
    "formatted_tree (g_inodes s) (blks ram_sec s)" by (rule blank_formatted)
  have p: "passwd_at ram_sec s = Some (hash_buf default_hash)"
    by (rule formatted_passwd [OF s(4)]) (simp add: passwd_at_def)
  have t: "typed_lines 3 demo_keys False = [default_password]" by code_simp
  let ?sh = "demo_shell\<lparr>fsys := s, exited := True, tty := demo_terminal\<lparr>keys := demo_keys\<rparr>\<rparr>"
  have "fs_hash_password default_password = default_hash"
    by (simp add: default_hash_def fs_hash_password_def)
  then show ?thesis
    using login_spec [of demo_env ram_sec "\<lambda>_. True" ?sh default_hash "[default_password]"]
      ram.reliable_disk_axioms s p t
    by (auto simp: demo_env_def demo_terminal_def split: option.splits)
qed

section \<open>Writing and reading\<close>

lemma climb_name: "47 \<notin> set name \<Longrightarrow> name \<noteq> [46, 46] \<Longrightarrow> climb name cwd = (name, cwd)"
  by (cases "(name, cwd)" rule: climb.cases) auto

lemma resolve_name:
  assumes "0 \<notin> set name" "47 \<notin> set name" "name \<noteq> [46, 46]" "length name < 64"
  shows "resolve_fs_path (ascii ''7:/'') name 64 = name"
proof -
  have "root_dir (ascii ''7:/'') = []" by code_simp
  then show ?thesis
    using resolve_fs_path_spec' [of 64 "ascii ''7:/''" name] assms
    by (simp add: cstr_id climb_name join_path_def)
qed

lemma has_sep_Cons: "has_sep (c # cs) \<longleftrightarrow> c = 47 \<or> c \<noteq> 0 \<and> has_sep cs"
  by (auto simp: has_sep_def path_sep_def)

lemma has_sep_iff: "0 \<notin> set name \<Longrightarrow> has_sep name \<longleftrightarrow> 47 \<in> set name"
  by (induction name) (auto simp: has_sep_Cons, simp add: has_sep_def path_sep_def)

lemma joined_no_zero: "0 \<notin> set (joined_words parts)"
  by (auto simp: joined_words_def)

text \<open>C38: In the root directory, \<^verbatim>\<open>write\<close> of a file name of up to 29 characters without slash, followed by
  words, reports success if the file exists or there is room for it, and \<^verbatim>\<open>read\<close> of this name then shows the
  words, joined by blanks and cut off at 512 characters.\<close>

theorem shell_write_read:
  assumes "reliable_disk (drv e) sec ready" and "fs_consistent ready sec (fsys sh)" and "g_mounted (fsys sh)"
    and "k_root sh = ascii ''7:/''" and "name_ok name" and "0 \<notin> set name" "47 \<notin> set name" and "name \<noteq> [46, 46]"
    and "file_at sec (fsys sh) 0 name \<noteq> None \<or> has_slot (blks sec (fsys sh)) 0 \<and> room (fsys sh)"
    and "words \<noteq> []" and "sh1 = cmd_write e (cw # name # words) sh"
  shows "screen (tty sh1) = println (ascii ''File scritto con successo.'') (screen (tty sh)) \<and>
    screen (tty (cmd_read e [cr, name] sh1)) =
      println (take 512 (joined_words (cw # name # words)) @ [0]) (screen (tty sh1))"
proof -
  let ?text = "joined_words (cw # name # words)"
  have len: "length name < 30" "\<not> is_empty name"
    using assms(5,6) by (auto simp: name_ok_def str_len_cstr cstr_id)
  have r: "resolve_fs_path (k_root sh) name 64 = name"
    unfolding assms(4) using assms(6-8) len by (intro resolve_name) auto
  have ns: "\<not> has_sep name" using assms(6,7) by (simp add: has_sep_iff)
  obtain ok s1 where w: "fs_write (drv e) (Some name) (Some ?text) (fsys sh) = (ok, s1)" by fastforce
  have wp: "fs_write_path (drv e) (Some name) (Some ?text) (fsys sh) = (ok, s1)"
    using w ns len assms(3) by (simp add: fs_write_path_def)
  have eff: "ok" "fs_consistent ready sec s1" "g_mounted s1" "file_changed sec 0 name (Some (file_content (Some ?text))) (fsys sh) s1"
    using fs_write_effect [OF assms(1,2), of name "Some ?text"] w assms(3,5,9)
    by (auto simp: step_effect_def fs_head_def)
  have "is_dir (g_inodes (fsys sh)) 0" using assms(2) by (simp add: fs_consistent_def tree_at_def)
  then have f: "file_at sec s1 0 name = Some (take 512 ?text)"
    using eff(4) joined_no_zero by (simp add: file_changed_def file_content_def cstr_id)
  have "3 \<le> length (cw # name # words)" using assms(10) by (cases words) auto
  then have s1: "sh1 = say ''File scritto con successo.'' (sh\<lparr>fsys := s1\<rparr>)"
    using assms(10,11) wp eff(1) r by (simp add: cmd_write_def on_fs_def Let_def)
  have rd: "fst (fs_read (drv e) (Some name) 512 s1) = Some (take 512 ?text)"
    using fs_read_effect [OF assms(1) eff(2,3) len(2), of 512] f by simp
  have "fs_read_path (drv e) (Some name) 512 s1 = fs_read (drv e) (Some name) 512 s1"
    using ns len eff(3) by (simp add: fs_read_path_def)
  then show ?thesis
    using rd r by (auto simp: s1 cmd_read_def on_fs_def on_screen_def Let_def split: prod.splits)
qed

theorem shell_write_read_witness:
  "screen (tty (cmd_read demo_env [[114], [110]] (cmd_write demo_env [[119], [110], [104, 105], [49]] demo_shell))) =
     println ([104, 105, 32, 49] @ [0]) (println (ascii ''File scritto con successo.'') demo_screen)"
proof -
  have "joined_words [[119], [110], [104, 105], [49]] = [104, 105, 32, 49]" by code_simp
  then show ?thesis
    using shell_write_read [of demo_env ram_sec "\<lambda>_. True" demo_shell "[110]" "[[104, 105], [49]]" _ "[119]" "[114]", OF _ _ _ _ _ _ _ _ _ _ refl]
      ram.reliable_disk_axioms demo_consistent
    by (simp add: demo_env_def demo_shell_def demo_terminal_def demo_fs_simps demo_room name_ok_def is_empty_def)
qed

text \<open>
  \<^verbatim>\<open>touch\<close> of a file that exists succeeds and empties it, although the message for its failure says that
  an existing file is what makes it fail.
\<close>

theorem touch_truncates:
  assumes "reliable_disk (drv e) sec ready" and "fs_consistent ready sec (fsys sh)" and "g_mounted (fsys sh)"
    and "k_root sh = ascii ''7:/''" and "name_ok name" and "0 \<notin> set name" "47 \<notin> set name"
    and "file_at sec (fsys sh) 0 name \<noteq> None"
  shows "screen (tty (cmd_touch e [cw, name] sh)) = println (ascii ''File creato con successo.'') (screen (tty sh)) \<and>
    file_at sec (fsys (cmd_touch e [cw, name] sh)) 0 name = Some []"
proof -
  have len: "length name < 30" "\<not> is_empty name"
    using assms(5,6) by (auto simp: name_ok_def str_len_cstr cstr_id)
  have "root_dir (ascii ''7:/'') = []" by code_simp
  then have r: "touch_path (k_root sh) name = name"
    unfolding assms(4) using assms(6) len by (simp add: touch_path_def cstr_id)
  have ns: "\<not> has_sep name" using assms(6,7) by (simp add: has_sep_iff)
  obtain ok s1 where w: "fs_write (drv e) (Some name) (Some []) (fsys sh) = (ok, s1)" by fastforce
  have wp: "fs_write_path (drv e) (Some name) (Some []) (fsys sh) = (ok, s1)"
    using w ns len assms(3) by (simp add: fs_write_path_def)
  have eff: "ok" "file_changed sec 0 name (Some (file_content (Some []))) (fsys sh) s1"
    using fs_write_effect [OF assms(1,2), of name "Some []"] w assms(3,5,8) by (auto simp: step_effect_def)
  have "is_dir (g_inodes (fsys sh)) 0" using assms(2) by (simp add: fs_consistent_def tree_at_def)
  then have "file_at sec s1 0 name = Some []"
    using eff(2) by (simp add: file_changed_def file_content_def cstr_def)
  then show ?thesis
    using wp eff(1) r by (simp add: cmd_touch_def on_fs_def on_screen_def Let_def)
qed

theorem touch_truncates_witness: "file_at ram_sec (fsys (cmd_touch demo_env [[116], [102]] demo_shell)) 0 [102] = Some []"
proof -
  have "file_at ram_sec demo_fs 0 [102] \<noteq> None" by (simp add: demo_at demo_tree)
  then show ?thesis
    using touch_truncates [of demo_env ram_sec "\<lambda>_. True" demo_shell "[102]" "[116]"] ram.reliable_disk_axioms demo_consistent
    by (simp add: demo_env_def demo_shell_def demo_fs_simps name_ok_def is_empty_def)
qed

end
