(* ===== verification/Boot.thy ===== *)
theory Boot
  imports ShellTheorems
begin

text \<open>
  The first boot: the shell over the file system over the ATA driver over a drive that has never been
  formatted.
\<close>

text \<open>On a disk without a superblock \<^verbatim>\<open>fs_init\<close> fails and leaves the disk as it was.\<close>

lemma fs_init_fresh:
  assumes io: "reliable_disk io sec ready" and s: "ready (disk s)" "boot_mem s"
    and fresh: "magic (sb_of_bytes (sec (disk s) 128)) \<noteq> FS_MAGIC"
  obtains s1 where "fs_init io s = (False, s1)" "ready (disk s1)" "sec (disk s1) = sec (disk s)" "boot_mem s1"
proof -
  obtain ok bs d where r: "read_sectors io (disk s) 128 1 = (ok, bs, d)" by (metis prod_cases3)
  have area: "unat (128 :: u32) + unat (1 :: u32) \<le> lba_limit" by simp
  have ok using reliable_disk.read_total [OF io s(1) area] r by simp
  then have law: "ready d" "sec d = sec (disk s)" "bs = sec (disk s) 128"
    using block_device.read_law [OF io [unfolded reliable_disk_def, THEN conjunct1] s(1) area r] by simp_all
  have len: "length bs = 512" using law(3) block_device.sec_length [OF io [unfolded reliable_disk_def, THEN conjunct1] s(1)] by simp
  have "length (sb_bytes (g_sb s) @ g_sb_pad s) = 512" using s(2) by (simp add: boot_mem_def)
  then have new: "bs @ drop (length bs) (sb_bytes (g_sb s) @ g_sb_pad s) = bs" using len by simp
  show thesis
    using law len s(2) fresh \<open>ok\<close>
    by (intro that [of "s\<lparr>disk := d, g_sb := sb_of_bytes bs, g_sb_pad := drop 32 bs, g_last_error := FS_ERR_BAD_MAGIC, g_mounted := False\<rparr>"])
      (simp_all add: fs_init_def disk_read_lba_def r Let_def new boot_mem_def)
qed

context big_drive
begin

lemma reliable: "reliable_disk (ata_ops p) sec (\<lambda>w. phase w = Idle)"
  by unfold_locales

end

text \<open>The size that formatting settles on, asked of a drive of this size.\<close>

lemma drive_blocks:
  assumes d: "big_drive p sec regs phase lag ident" and s: "phase (disk s) = Idle"
  shows "5 \<le> unat (fst (format_blocks (ata_ops p) 0 s))"
proof -
  obtain r w where r: "ata_get_sector_count p (disk s) = (r, w)" by (metis surj_pair)
  have n: "32913 \<le> unat (identify_sectors ident)" using big_drive.capacity [OF d] by simp
  then have "identify_sectors ident \<noteq> 0" by auto
  moreover have "sound_drive p sec regs phase lag ident" using d by (simp add: big_drive_def)
  ultimately have rs: "r = Some (identify_sectors ident)"
    using sound_drive.sector_count_ok [of p sec regs phase lag ident, OF _ s r] by blast
  let ?n = "identify_sectors ident"
  have lt: "145 < ?n" using n by (simp add: word_less_nat_alt)
  have u: "unat (?n - 145) = unat ?n - 145" using unat_sub [OF order_less_imp_le [OF lt]] by simp
  show ?thesis
  proof (cases "32768 < ?n - 145")
    case True
    then show ?thesis using lt by (simp add: format_blocks_def ata_ops_def r rs)
  next
    case False
    then have le: "unat (?n - 145) \<le> 32768" by (simp add: word_less_nat_alt not_less)
    have "unat (ucast (?n - 145) :: u32) = unat (?n - 145) mod 2 ^ 32" by (simp add: unsigned_ucast_eq take_bit_eq_mod)
    then show ?thesis using False lt le u n by (simp add: format_blocks_def ata_ops_def r rs)
  qed
qed

lemma boot_fs_fresh:
  assumes "big_drive p sec regs phase lag ident" and "drv e = ata_ops p"
    and "phase (disk (fsys sh)) = Idle" and "boot_mem (fsys sh)"
    and "magic (sb_of_bytes (sec (disk (fsys sh)) 128)) \<noteq> FS_MAGIC"
  shows "g_mounted (fsys (boot_fs e sh)) \<and> fs_consistent (\<lambda>w. phase w = Idle) sec (fsys (boot_fs e sh)) \<and>
    passwd_at sec (fsys (boot_fs e sh)) = Some (hash_buf default_hash) \<and>
    exited (boot_fs e sh) = exited sh \<and> keys (tty (boot_fs e sh)) = keys (tty sh) \<and>
    shift_pressed (tty (boot_fs e sh)) = shift_pressed (tty sh)"
proof -
  let ?ready = "\<lambda>w. phase w = Idle" and ?io = "ata_ops p" and ?s = "fsys sh"
  note io = big_drive.reliable [OF assms(1)]
  obtain s1 where s1: "fs_init ?io ?s = (False, s1)" "phase (disk s1) = Idle" "sec (disk s1) = sec (disk ?s)" "boot_mem s1"
    using fs_init_fresh [OF io, of ?s] assms(3-5) by metis
  obtain ok2 s2 where s2: "fs_format ?io 0 64 s1 = (ok2, s2)" by (metis surj_pair)
  have F: "fs_consistent ?ready sec s2" "on_disk ?ready sec s2" "formatted_tree (g_inodes s2) (blks sec s2)"
    using format_effect [OF io s1(2,4) drive_blocks [OF assms(1) s1(2)] _ s2] by simp_all
  obtain ok3 s3 where s3: "fs_init ?io s2 = (ok3, s3)" by (metis surj_pair)
  have "boot_mem s2" using F(1) by (simp add: fs_consistent_def tree_at_def fs_at_def fs_ok_def mem_inv_def boot_mem_def)
  note I = init_effect [OF io F(1,2) refl this s3]
  have p2: "passwd_at sec s2 = Some (hash_buf default_hash)"
    by (rule formatted_passwd [OF F(3)]) (simp add: passwd_at_def)
  have same: "tree_same sec s2 s3" using I by simp
  have p3: "passwd_at sec s3 = Some (hash_buf default_hash)"
    using p2 unfolding passwd_at_def tree_same_views [OF same] .
  have fs: "fsys (say t x) = fsys x" for t and x :: "'a shell" by (simp add: on_screen_def)
  have b: "boot_fs e sh = say ''fs done'' ((say ''fs_init2...'' ((say ''fs_format...'' ((say ''fs_init...'' sh)\<lparr>fsys := s1\<rparr>))\<lparr>fsys := s2\<rparr>))\<lparr>fsys := s3\<rparr>)"
    unfolding boot_fs_def Let_def on_fs_def using s1(1) s2 s3 by (simp add: assms(2) fs)
  show ?thesis using I p3 unfolding b by (simp add: on_screen_def)
qed

text \<open>C16: The first boot. On a drive that reports no errors on the sectors it has, has at least the 32913 that the
  largest layout of the file system takes, and holds no superblock, the start of the shell formats the disk and mounts a consistent file system, and the login that follows ends
  and grants access to whoever types the default password in one of three lines.\<close>

theorem first_boot:
  assumes "big_drive p sec regs phase lag ident" and "drv e = ata_ops p"
    and "phase (disk (fsys sh)) = Idle" and "boot_mem (fsys sh)"
    and "magic (sb_of_bytes (sec (disk (fsys sh)) 128)) \<noteq> FS_MAGIC"
    and "exited sh" and "default_password \<in> set (typed_lines 3 (keys (tty sh)) (shift_pressed (tty sh)))"
  shows "g_mounted (fsys (boot_fs e sh)) \<and> fs_consistent (\<lambda>w. phase w = Idle) sec (fsys (boot_fs e sh)) \<and>
    (\<exists>sh'. login 3 e (on_screen clear_screen (boot_fs e sh)) = Some sh' \<and> \<not> exited sh')"
proof -
  let ?sh = "on_screen clear_screen (boot_fs e sh)"
  note B = boot_fs_fresh [OF assms(1-5)]
  have sh: "fsys ?sh = fsys (boot_fs e sh)" "exited ?sh" "keys (tty ?sh) = keys (tty sh)"
    "shift_pressed (tty ?sh) = shift_pressed (tty sh)"
    using B assms(6) by (simp_all add: on_screen_def)
  have h: "fs_hash_password default_password = default_hash" by (simp add: default_hash_def fs_hash_password_def)
  have io: "reliable_disk (drv e) sec (\<lambda>w. phase w = Idle)"
    unfolding assms(2) by (rule big_drive.reliable [OF assms(1)])
  have "case login 3 e ?sh of
       Some sh' \<Rightarrow> exited sh' = (\<forall>l \<in> set (typed_lines 3 (keys (tty sh)) (shift_pressed (tty sh))). fs_hash_password l \<noteq> default_hash)
     | None \<Rightarrow> length (typed_lines 3 (keys (tty sh)) (shift_pressed (tty sh))) < 3 \<and>
         (\<forall>l \<in> set (typed_lines 3 (keys (tty sh)) (shift_pressed (tty sh))). fs_hash_password l \<noteq> default_hash)"
    by (rule login_grants [OF io _ _ _ sh(2)]) (use B in \<open>simp_all add: sh\<close>)
  then show ?thesis using B assms(7) h by (auto split: option.splits)
qed

text \<open>A machine whose drive has 65536 sectors, each filled with its number.\<close>

definition new_drive :: "drive fs" where
  "new_drive = \<lparr>g_sb = sb_of_bytes [], g_sb_pad = replicate 480 0, g_bitmap = replicate 4096 0,
     g_inodes = replicate 64 zero_inode, g_mounted = False, g_last_error = FS_ERR_NONE, disk = demo_drive\<rparr>"

definition new_machine :: "drive shell" where
  "new_machine = \<lparr>tty = demo_terminal\<lparr>keys := demo_keys\<rparr>, fsys = new_drive, k_root = ascii ''7:/'', exited = True, halted = False,
     power_ports = []\<rparr>"

definition machine_env :: "drive env" where
  "machine_env = \<lparr>drv = ata_ops (disk_ports demo_ident), cpuid = (\<lambda>_. (0, 0, 0, 0)), ram_count = 0, ram_map = [],
     test_call = (\<lambda>sh. sh)\<rparr>"

lemma machine_facts:
  "magic (sb_of_bytes (drive_sec (disk (fsys new_machine)) 128)) \<noteq> FS_MAGIC"
  "drv machine_env = ata_ops (disk_ports demo_ident)"
  "exited new_machine" "keys (tty new_machine) = demo_keys" "\<not> shift_pressed (tty new_machine)"
  "now (disk (fsys new_machine)) = Idle" "boot_mem (fsys new_machine)" "root_ok (k_root new_machine)"
proof -
  have "drive_sec demo_drive 128 = replicate 512 128" by (simp add: drive_sec_def demo_drive_def pad_sector_id)
  moreover have "magic (sb_of_bytes (replicate 512 128)) \<noteq> FS_MAGIC"
    unfolding sb_of_bytes_def superblock.simps by code_simp
  ultimately show "magic (sb_of_bytes (drive_sec (disk (fsys new_machine)) 128)) \<noteq> FS_MAGIC"
    by (simp add: new_machine_def new_drive_def)
qed (simp_all add: machine_env_def new_machine_def new_drive_def boot_mem_def demo_drive_def demo_terminal_def
    root_ok_def ascii_def)

theorem first_boot_witness:
  "\<exists>sh'. login 3 machine_env (on_screen clear_screen (boot_fs machine_env new_machine)) = Some sh' \<and> \<not> exited sh'"
proof -
  have t: "typed_lines 3 demo_keys False = [default_password]" by code_simp
  show ?thesis
    using first_boot [OF big.big_drive_axioms machine_facts(2), of new_machine] by (simp add: machine_facts t)
qed

end
