(* ===== verification/System.thy ===== *)
theory System
  imports Boot
begin

text \<open>
  The running system: the states the shell goes through from the start on, one command at a time, and
  that none of them has lost the boot sectors or broken the tables, formatting included.
\<close>

section \<open>The states of the running system\<close>

text \<open>
  \<open>os_reach e A sh0 sh\<close>: started on \<open>sh0\<close> the system gets to \<open>sh\<close>, after the start, a login, its
  greeting, or a command, every line typed so far, split into its parts, being in \<open>A\<close>. A command that does not
  end, for want of a typed line or on directories nested deeper than there are inodes, is followed by no state.
\<close>

inductive os_reach :: "'d env \<Rightarrow> (u8 list list \<Rightarrow> bool) \<Rightarrow> 'd shell \<Rightarrow> 'd shell \<Rightarrow> bool"
  for e :: "'d env" and A :: "u8 list list \<Rightarrow> bool" and sh0 :: "'d shell" where
  started: "os_reach e A sh0 (boot_fs e sh0)"
| locked: "os_reach e A sh0 sh \<Longrightarrow> exited sh \<Longrightarrow> login 3 e (on_screen clear_screen sh) = Some sh' \<Longrightarrow> exited sh' \<Longrightarrow>
    os_reach e A sh0 (poweroff (say ''Troppi tentativi, sistema bloccato.'' sh'))"
| logged_in: "os_reach e A sh0 sh \<Longrightarrow> exited sh \<Longrightarrow> login 3 e (on_screen clear_screen sh) = Some sh' \<Longrightarrow> \<not> exited sh' \<Longrightarrow>
    os_reach e A sh0 sh'"
| greeted: "os_reach e A sh0 sh \<Longrightarrow> \<not> exited sh \<Longrightarrow>
    os_reach e A sh0 (say ''Digita help per vedere i comandi disponibili.'' (say ''Benvenuto in 7OS!''
      (on_screen clear_screen (say ''Accesso consentito!'' sh))))"
| command: "os_reach e A sh0 sh \<Longrightarrow> \<not> exited sh \<Longrightarrow> \<not> halted sh \<Longrightarrow>
    read_line (say_part ''> '' (on_screen (print (k_root sh)) sh)) = Some (line, sh1) \<Longrightarrow> A (split_line line) \<Longrightarrow>
    run_parts e (split_line line) sh1 = Some sh' \<Longrightarrow> os_reach e A sh0 sh'"

lemma run_command_reach:
  assumes "os_reach e (\<lambda>_. True) sh0 sh" and "\<not> exited sh" "\<not> halted sh" and "run_command e sh = Some sh'"
  shows "os_reach e (\<lambda>_. True) sh0 sh'"
  using assms by (auto simp: run_command_def split: Option.bind_splits intro: command)

text \<open>The loops of the code go through these states, and end in one of them.\<close>

lemma handle_commands_reach:
  assumes "handle_commands e sh = Some sh'" and "os_reach e (\<lambda>_. True) sh0 sh"
  shows "os_reach e (\<lambda>_. True) sh0 sh'"
proof -
  let ?R = "\<lambda>e. os_reach e (\<lambda>_. True) sh0"
  have "?R e sh \<longrightarrow> ?R e sh'"
  proof (rule handle_commands.raw_induct [where P = "\<lambda>e sh sh'. ?R e sh \<longrightarrow> ?R e sh'", OF _ assms(1)], goal_cases)
    case (1 rec e sh sh')
    have rec: "?R e x \<Longrightarrow> ?R e sh'" if "rec e x = Some sh'" for x using 1(1) [OF that] by simp
    show ?case using 1(2) by (auto split: if_splits Option.bind_splits dest!: rec intro: run_command_reach)
  qed
  then show ?thesis using assms(2) by simp
qed

lemma os_loop_reach:
  assumes "os_loop e sh = Some sh'" and "os_reach e (\<lambda>_. True) sh0 sh"
  shows "os_reach e (\<lambda>_. True) sh0 sh'"
proof -
  let ?R = "\<lambda>e. os_reach e (\<lambda>_. True) sh0"
  have "?R e sh \<longrightarrow> ?R e sh'"
  proof (rule os_loop.raw_induct [where P = "\<lambda>e sh sh'. ?R e sh \<longrightarrow> ?R e sh'", OF _ assms(1)], goal_cases)
    case (1 rec e sh sh')
    have rec: "?R e x \<Longrightarrow> ?R e sh'" if "rec e x = Some sh'" for x using 1(1) [OF that] by simp
    have main: "?R e x'" if "os_main e x = Some x'" "?R e x" "\<not> exited x" for x x'
      using handle_commands_reach [OF that(1) [unfolded os_main_def Let_def]] greeted [OF that(2,3)] by simp
    show ?case
      using 1(2) by (auto split: if_splits Option.bind_splits dest!: rec intro: main locked logged_in)
  qed
  then show ?thesis using assms(2) by simp
qed

lemma os_init_reach: "os_init e sh = Some sh' \<Longrightarrow> os_reach e (\<lambda>_. True) sh sh'"
  unfolding os_init_def by (rule os_loop_reach [OF _ started])

section \<open>Formatting\<close>

definition image_kept :: "('d \<Rightarrow> bool) \<Rightarrow> ('d \<Rightarrow> nat \<Rightarrow> u8 list) \<Rightarrow> (nat \<Rightarrow> u8 list) \<Rightarrow> 'd shell \<Rightarrow> bool" where
  "image_kept ready sec low sh \<longleftrightarrow> mem_inv (fsys sh) \<and> ready (disk (fsys sh)) \<and> root_ok (k_root sh) \<and>
     (\<forall>l < 128. sec (disk (fsys sh)) l = low l)"

lemma image_screen [simp]: "image_kept ready sec low (on_screen f sh) = image_kept ready sec low sh"
  by (simp add: image_kept_def on_screen_def)

lemma image_flags [simp]:
  "image_kept ready sec low (sh\<lparr>exited := b\<rparr>) = image_kept ready sec low sh"
  "image_kept ready sec low (poweroff sh) = image_kept ready sec low sh"
  by (simp_all add: image_kept_def poweroff_def)

lemma mem_boot: "mem_inv s \<Longrightarrow> boot_mem s"
  by (simp add: mem_inv_def boot_mem_def)

text \<open>Formatting and mounting again, as the start and \<^verbatim>\<open>mkfs\<close> do.\<close>

lemma format_mount_image:
  assumes io: "reliable_disk io sec ready" and s: "ready (disk s)" "boot_mem s"
    and n: "5 \<le> unat (fst (format_blocks io 0 s))"
    and f: "fs_format io 0 64 s = (ok, s1)" and i: "fs_init io s1 = (ok', s2)"
  shows "ok \<and> mem_inv s2 \<and> ready (disk s2) \<and> (\<forall>l < 128. sec (disk s2) l = sec (disk s) l)"
proof -
  have bd: "block_device io sec ready" using io by (simp add: reliable_disk_def)
  have F: "ok" "fs_consistent ready sec s1" "on_disk ready sec s1"
    using format_effect [OF io s n _ f] by simp_all
  have "post (\<lambda>ok s'. fs_ok (boot_kept ready sec (sec (disk s))) s' \<and>
      (ok \<longrightarrow> fs_ok (boot_synced ready sec (sec (disk s))) s' \<and> g_mounted s')) (fs_format io 0 64 s)"
    using block_device.fs_format_keeps [OF bd s(1), of 0 64] s(2) by (simp add: boot_mem_def)
  then have low: "\<forall>l < 128. sec (disk s1) l = sec (disk s) l" and m: "mem_inv s1"
    by (simp_all add: f post_def fs_ok_def boot_kept_def)
  have su: "super_synced ready sec (fs_head s1) (disk s1)" "synced sec s1" using F(3) by (simp_all add: on_disk_def)
  have "boot_mem s1" using m by (rule mem_boot)
  note R = reliable_disk.fs_init_restores [OF io m su(2,1) refl, unfolded i]
  have r: "sec (disk s2) = sec (disk s1)" "ready (disk s2)"
    using R \<open>boot_mem s1\<close> by (simp_all add: boot_mem_def post_def)
  have "fs_consistent ready sec s2" using init_effect [OF io F(2,3) refl \<open>boot_mem s1\<close> i] by simp
  then have "mem_inv s2" by (simp add: fs_consistent_def tree_at_def fs_at_def fs_ok_def)
  then show ?thesis using F(1) r low by simp
qed

section \<open>Every state\<close>

lemma step_image:
  assumes "reliable_disk (drv e) sec ready" and "shell_step e sh sh'" and "image_kept ready sec low sh"
  shows "image_kept ready sec low sh'"
proof -
  have se: "fs_session (drv e) (\<lambda>c _. plain_call c) (fsys sh) (fsys sh')" using assms(2) by (simp add: shell_step_def)
  have K: "fs_ok (fixed ready sec (fs_head (fsys sh)) (sec (disk (fsys sh)))) (fsys sh)"
    using assms(3) by (simp add: image_kept_def fs_ok_def fixed_def)
  have "fs_ok (fixed ready sec (fs_head (fsys sh)) (sec (disk (fsys sh)))) (fsys sh')"
    by (rule reliable_fs.reliable_session_keeps [OF reliable_pinned [OF assms(1)] se K])
  then show ?thesis using assms(2,3) by (simp add: image_kept_def shell_step_def fs_ok_def fixed_def)
qed

lemma login_step: "login n e sh = Some sh' \<Longrightarrow> shell_step e sh sh'"
proof (induction n arbitrary: sh)
  case (Suc n)
  have IH: "shell_step e x sh'" if "login n e (on_screen f x) = Some sh'" for f x
    using Suc.IH [OF that] by simp
  show ?case
    using Suc.prems by (auto simp: Let_def split: Option.bind_splits prod.splits if_splits
        dest!: step_read_line [where e = e] stored_hash_step IH intro: step_trans)
qed simp

lemma mkfs_image:
  assumes "reliable_disk (drv e) sec ready" and "\<And>s. ready (disk s) \<Longrightarrow> 5 \<le> unat (fst (format_blocks (drv e) 0 s))"
    and "image_kept ready sec low sh"
  shows "image_kept ready sec low (cmd_mkfs e sh)"
proof -
  obtain ok s1 where f: "fs_format (drv e) 0 64 (fsys sh) = (ok, s1)" by (metis surj_pair)
  obtain ok' s2 where i: "fs_init (drv e) s1 = (ok', s2)" by (metis surj_pair)
  have s: "ready (disk (fsys sh))" "boot_mem (fsys sh)" using assms(3) mem_boot by (auto simp: image_kept_def)
  note F = format_mount_image [OF assms(1) s assms(2) [OF s(1)] f i]
  have "image_kept ready sec low (sh\<lparr>fsys := s2\<rparr>)" using F assms(3) by (simp add: image_kept_def)
  then show ?thesis using F f i by (simp add: cmd_mkfs_def Let_def on_fs_def on_screen_def image_kept_def)
qed

text \<open>A line whose first word is not \<^verbatim>\<open>test\<close>.\<close>

definition no_test :: "u8 list list \<Rightarrow> bool" where
  "no_test parts \<longleftrightarrow> parts = [] \<or> \<not> strcmp (hd parts) (ascii ''test'')"

lemma parts_image:
  assumes "reliable_disk (drv e) sec ready" and "\<And>s. ready (disk s) \<Longrightarrow> 5 \<le> unat (fst (format_blocks (drv e) 0 s))"
    and "image_kept ready sec low sh" and "run_parts e parts sh = Some sh'" and "no_test parts"
  shows "image_kept ready sec low sh'"
proof (cases "parts \<noteq> [] \<and> strcmp (hd parts) (ascii ''mkfs'')")
  case False
  then have "shell_step e sh sh'"
    by (intro run_parts_step [OF assms(4)]) (use assms(5) in \<open>auto simp: no_test_def\<close>)
  then show ?thesis using step_image [OF assms(1) _ assms(3)] by blast
next
  case True
  have "sh' = cmd_mkfs e sh \<or> shell_step e sh sh'"
    using True assms(4,5) unfolding run_parts_def Let_def no_test_def
    by (auto simp: plain_steps cmd_cd_step cmd_rm_step cmd_passwd_step split: if_splits)
  then show ?thesis
    using mkfs_image [OF assms(1,2,3)] step_image [OF assms(1) _ assms(3)] by blast
qed

lemma reach_image:
  assumes "reliable_disk (drv e) sec ready" and "\<And>s. ready (disk s) \<Longrightarrow> 5 \<le> unat (fst (format_blocks (drv e) 0 s))"
    and "image_kept ready sec low (boot_fs e sh0)"
  shows "os_reach e no_test sh0 sh \<Longrightarrow> image_kept ready sec low sh"
proof (induction rule: os_reach.induct)
  case (locked sh sh')
  then show ?case using step_image [OF assms(1) login_step [OF locked(3)]] by simp
next
  case (logged_in sh sh')
  then show ?case using step_image [OF assms(1) login_step [OF logged_in(3)]] by simp
next
  case (command sh line sh1 sh')
  then have "image_kept ready sec low sh1" using step_image [OF assms(1) step_read_line [OF command.hyps(4)]] by simp
  then show ?case using parts_image [OF assms(1,2) _ command.hyps(6,5)] by blast
qed (simp_all add: assms(3))

text \<open>The start, on a disk without a superblock or on one that was written back.\<close>

definition bootable :: "('d \<Rightarrow> bool) \<Rightarrow> ('d \<Rightarrow> nat \<Rightarrow> u8 list) \<Rightarrow> 'd \<Rightarrow> bool" where
  "bootable ready sec d \<longleftrightarrow> magic (sb_of_bytes (sec d 128)) \<noteq> FS_MAGIC \<or>
     (\<exists>s. disk s = d \<and> fs_consistent ready sec s \<and> on_disk ready sec s)"

lemma boot_image:
  assumes io: "reliable_disk (drv e) sec ready" and n: "\<And>s. ready (disk s) \<Longrightarrow> 5 \<le> unat (fst (format_blocks (drv e) 0 s))"
    and sh: "ready (disk (fsys sh))" "boot_mem (fsys sh)" "root_ok (k_root sh)" "bootable ready sec (disk (fsys sh))"
  shows "image_kept ready sec (sec (disk (fsys sh))) (boot_fs e sh)"
proof (cases "magic (sb_of_bytes (sec (disk (fsys sh)) 128)) \<noteq> FS_MAGIC")
  case True
  obtain s1 where s1: "fs_init (drv e) (fsys sh) = (False, s1)" "ready (disk s1)" "sec (disk s1) = sec (disk (fsys sh))"
    "boot_mem s1" using fs_init_fresh [OF io sh(1,2) True] by metis
  obtain ok s2 where f: "fs_format (drv e) 0 64 s1 = (ok, s2)" by (metis surj_pair)
  obtain ok' s3 where i: "fs_init (drv e) s2 = (ok', s3)" by (metis surj_pair)
  note F = format_mount_image [OF io s1(2,4) n [OF s1(2)] f i]
  show ?thesis using F s1 f i sh(3) by (simp add: boot_fs_def Let_def on_fs_def on_screen_def image_kept_def)
next
  case False
  then obtain s where s: "disk s = disk (fsys sh)" "fs_consistent ready sec s" "on_disk ready sec s"
    using sh(4) by (auto simp: bootable_def)
  obtain ok s1 where i: "fs_init (drv e) (fsys sh) = (ok, s1)" by (metis surj_pair)
  have I: "ok" "fs_consistent ready sec s1" using init_effect [OF io s(2,3) s(1) [symmetric] sh(2) i] by simp_all
  have m: "mem_inv s" using s(2) by (simp add: fs_consistent_def tree_at_def fs_at_def fs_ok_def)
  have su: "super_synced ready sec (fs_head s) (disk s)" "synced sec s" using s(3) by (simp_all add: on_disk_def)
  have "sec (disk s1) = sec (disk (fsys sh))"
    using reliable_disk.fs_init_restores [OF io m su(2,1) s(1) [symmetric], unfolded i] sh(2) s(1)
    by (simp add: boot_mem_def post_def)
  moreover have "mem_inv s1" "ready (disk s1)" using I(2) by (simp_all add: fs_consistent_def tree_at_def fs_at_def fs_ok_def)
  ultimately show ?thesis using I(1) i sh(3) by (simp add: boot_fs_def Let_def on_fs_def on_screen_def image_kept_def)
qed

text \<open>C7: The running system. It starts on a drive that reports no errors on the sectors it has, has at least the
  32913 that the largest layout takes, and holds either no superblock or one that was written back. Then after the start,
  every login and every command that has ended, whatever lines are typed, formatting included, the tables in
  memory are consistent, the prompt fits its 64 bytes, and the first 128 sectors of the disk, boot code and
  kernel, are as they were. Only lines that start with \<^verbatim>\<open>test\<close>, whose code the repository does not have, are left out.\<close>

theorem system_keeps_image:
  assumes "big_drive p sec regs phase lag ident" and "drv e = ata_ops p"
    and "phase (disk (fsys sh0)) = Idle" and "boot_mem (fsys sh0)" and "root_ok (k_root sh0)"
    and "bootable (\<lambda>w. phase w = Idle) sec (disk (fsys sh0))"
    and "os_reach e no_test sh0 sh"
  shows "mem_inv (fsys sh) \<and> root_ok (k_root sh) \<and> phase (disk (fsys sh)) = Idle \<and>
    (\<forall>l < 128. sec (disk (fsys sh)) l = sec (disk (fsys sh0)) l)"
proof -
  have io: "reliable_disk (drv e) sec (\<lambda>w. phase w = Idle)"
    unfolding assms(2) by (rule big_drive.reliable [OF assms(1)])
  have n: "5 \<le> unat (fst (format_blocks (drv e) 0 s))" if "phase (disk s) = Idle" for s
    unfolding assms(2) by (rule drive_blocks [OF assms(1) that])
  have b: "image_kept (\<lambda>w. phase w = Idle) sec (sec (disk (fsys sh0))) (boot_fs e sh0)"
    by (rule boot_image [OF io n assms(3-6)])
  have "image_kept (\<lambda>w. phase w = Idle) sec (sec (disk (fsys sh0))) sh"
    by (rule reach_image [OF io n b assms(7)])
  then show ?thesis by (simp add: image_kept_def)
qed

text \<open>The machine of theory \<open>Boot\<close> on which \<^verbatim>\<open>password123\<close> and \<^verbatim>\<open>mkfs\<close> are typed.\<close>

definition typed_machine :: "drive shell" where
  "typed_machine = new_machine\<lparr>tty := demo_terminal\<lparr>keys := demo_keys @ [0x32, 0x25, 0x21, 0x1F, 0x1C]\<rparr>\<rparr>"

lemma typed_machine_simps:
  "fsys typed_machine = fsys new_machine" "k_root typed_machine = k_root new_machine" "exited typed_machine"
  "\<not> halted typed_machine" "keys (tty typed_machine) = demo_keys @ [0x32, 0x25, 0x21, 0x1F, 0x1C]"
  "\<not> shift_pressed (tty typed_machine)"
  by (simp_all add: typed_machine_def new_machine_def demo_terminal_def)

lemma boot_halted: "halted (boot_fs e sh) = halted sh"
  by (auto simp: boot_fs_def Let_def on_fs_def on_screen_def split: prod.splits)

text \<open>What a line typed in full does to the keys.\<close>

lemma read_line_typed:
  assumes "typed_line (keys (tty sh)) [] (shift_pressed (tty sh)) = Some (line, rest, shift)"
  shows "\<exists>t. read_line sh = Some (line, sh\<lparr>tty := t\<rparr>) \<and> keys t = rest \<and> shift_pressed t = shift"
  using readl_typed [of "tty sh"] assms by (auto simp: read_line_def split: option.splits)

text \<open>The first line typed is the password.\<close>

lemma login_first:
  assumes io: "reliable_disk (drv e) sec ready" and c: "fs_consistent ready sec (fsys sh)" "g_mounted (fsys sh)"
    and p: "passwd_at sec (fsys sh) = Some (hash_buf (fs_hash_password line))"
    and t: "typed_line (keys (tty sh)) [] (shift_pressed (tty sh)) = Some (line, rest, shift)"
  shows "\<exists>sh'. login (Suc n) e sh = Some sh' \<and> \<not> exited sh' \<and> halted sh' = halted sh \<and> keys (tty sh') = rest \<and>
    shift_pressed (tty sh') = shift"
proof -
  let ?sh = "say_part ''Scrivi la password: '' sh"
  have "typed_line (keys (tty ?sh)) [] (shift_pressed (tty ?sh)) = Some (line, rest, shift)" using t by (simp add: on_screen_def)
  from read_line_typed [OF this] obtain t' where
    r: "read_line ?sh = Some (line, ?sh\<lparr>tty := t'\<rparr>)" "keys t' = rest" "shift_pressed t' = shift" by blast
  obtain x s where h: "fs_read_passwd (drv e) (fsys sh) = (x, s)" by fastforce
  have "x = Some (fs_hash_password line)" by (rule read_passwd_same [OF io c p h])
  then show ?thesis using r h by (simp add: stored_hash_def on_fs_def on_screen_def)
qed

theorem system_keeps_image_witness:
  "\<exists>sh1 sh2. login 3 machine_env (on_screen clear_screen (boot_fs machine_env typed_machine)) = Some sh1 \<and>
     run_command machine_env sh1 = Some sh2 \<and> mem_inv (fsys sh2) \<and>
     drive_sec (disk (fsys sh2)) 0 = drive_sec (disk (fsys typed_machine)) 0"
proof -
  let ?b = "boot_fs machine_env typed_machine" and ?w = "ascii ''mkfs''"
  note M = machine_facts [folded typed_machine_simps(1,2)]
  note B = boot_fs_fresh [OF big.big_drive_axioms M(2,6,7,1)]
  have io: "reliable_disk (drv machine_env) drive_sec (\<lambda>w. now w = Idle)"
    unfolding M(2) by (rule big_drive.reliable [OF big.big_drive_axioms])
  have h: "fs_hash_password default_password = default_hash" by (simp add: default_hash_def fs_hash_password_def)
  have t: "typed_line (demo_keys @ [0x32, 0x25, 0x21, 0x1F, 0x1C]) [] False = Some (default_password, [0x32, 0x25, 0x21, 0x1F, 0x1C], False)"
    "typed_line [0x32, 0x25, 0x21, 0x1F, 0x1C] [] False = Some (?w, [], False)" by code_simp+
  have nh: "\<not> halted ?b" using typed_machine_simps(4) by (simp add: boot_halted)
  obtain sh1 where sh1: "login 3 machine_env (on_screen clear_screen ?b) = Some sh1" "\<not> exited sh1" "\<not> halted sh1"
    "keys (tty sh1) = [0x32, 0x25, 0x21, 0x1F, 0x1C]" "\<not> shift_pressed (tty sh1)"
  proof -
    let ?c = "on_screen clear_screen ?b"
    have c: "fsys ?c = fsys ?b" "halted ?c = halted ?b" "keys (tty ?c) = keys (tty ?b)"
      "shift_pressed (tty ?c) = shift_pressed (tty ?b)" by (simp_all add: on_screen_def)
    have "fs_consistent (\<lambda>w. now w = Idle) drive_sec (fsys ?c)" "g_mounted (fsys ?c)"
      "passwd_at drive_sec (fsys ?c) = Some (hash_buf (fs_hash_password default_password))"
      "typed_line (keys (tty ?c)) [] (shift_pressed (tty ?c)) = Some (default_password, [0x32, 0x25, 0x21, 0x1F, 0x1C], False)"
      unfolding c h using B t(1) by (simp_all add: typed_machine_simps(5,6))
    from login_first [OF io this, of 2] show thesis
      using that nh by (auto simp: c simp del: login.simps)
  qed
  let ?p = "say_part ''> '' (on_screen (print (k_root sh1)) sh1)"
  have "typed_line (keys (tty ?p)) [] (shift_pressed (tty ?p)) = Some (?w, [], False)"
    using sh1(4,5) t(2) by (simp add: on_screen_def)
  from read_line_typed [OF this] obtain tt where r: "read_line ?p = Some (?w, ?p\<lparr>tty := tt\<rparr>)" by blast
  have w: "split_line ?w = [?w]" "\<not> strcmp ?w (ascii ''help'')" "\<not> strcmp ?w (ascii ''shutdown'')" "\<not> strcmp ?w (ascii ''clear'')"
    "\<not> strcmp ?w (ascii ''print'')" "\<not> strcmp ?w (ascii ''ls'')" "strcmp ?w (ascii ''mkfs'')" "\<not> strcmp ?w (ascii ''test'')" by code_simp+
  have p: "run_parts machine_env (split_line ?w) (?p\<lparr>tty := tt\<rparr>) = Some (cmd_mkfs machine_env (?p\<lparr>tty := tt\<rparr>))"
    unfolding w(1) run_parts_def by (simp add: w(2-7))
  have R: "os_reach machine_env no_test typed_machine (cmd_mkfs machine_env (?p\<lparr>tty := tt\<rparr>))"
    by (rule command [OF logged_in [OF started _ sh1(1,2)] sh1(2,3) r _ p])
      (use B typed_machine_simps(3) in \<open>simp_all add: no_test_def w(1,8)\<close>)
  have b: "bootable (\<lambda>w. now w = Idle) drive_sec (disk (fsys typed_machine))"
    using M(1) by (simp add: bootable_def)
  have "run_command machine_env sh1 = Some (cmd_mkfs machine_env (?p\<lparr>tty := tt\<rparr>))"
    using r p by (simp add: run_command_def)
  then show ?thesis
    using system_keeps_image [OF big.big_drive_axioms M(2,6,7,8) b R] sh1(1) by auto
qed

end
