(* ===== verification/Spec2Isabelle.thy ===== *)
theory Spec2Isabelle
  imports HeapList FsRename FsLimits System
begin

text \<open>
  A verification development for 7OS, a small operating system for the i386 written in C++: a boot
  loader, a kernel with a heap, an ATA driver, a file system, a text screen and a keyboard, and a shell
  with a login. The development models the C++ code under \<^verbatim>\<open>src/src/\<close> function by function and proves
  it correct down to the ports of the drive.

  The parts and how they interact

  \<^item> The shell (\<^verbatim>\<open>os/main.cpp\<close>) reads lines from the keyboard, splits them, and runs one command per
    line. It calls the file system with paths it has resolved against its prompt \<^verbatim>\<open>k_root\<close>, and prints on
    the screen.
  \<^item> The file system (\<^verbatim>\<open>kernel/filesystem/filesystem.cpp\<close>) keeps the superblock, the block bitmap and 64
    inodes in memory, writes them back after every change, and reads and writes directory and data blocks
    of 512 bytes through the disk driver.
  \<^item> The driver (\<^verbatim>\<open>kernel/drivers/ata.cpp\<close>) moves sectors through ports, polling the drive.
  \<^item> The heap (\<^verbatim>\<open>kernel/mem/kheap.cpp\<close>) serves the arrays of strings and lists
    (\<^verbatim>\<open>kernel/util/string.cpp\<close>, \<^verbatim>\<open>types.h\<close>).

  Theories, from the bottom up

  \<^item> \<open>Prelude\<close>: the machine integers of \<^verbatim>\<open>types.h\<close> as words, buffers and C strings as lists of bytes,
    the little-endian layout of packed structs, and the rewrite collections.
  \<^item> \<open>Kheap\<close>: the allocator over a map from addresses to block headers, with the list walk of the code;
    its abstraction is the list of blocks in address order. The locale \<open>allocator\<close> states what a client
    may rely on, and is interpreted on the model.
  \<^item> \<open>Util\<close>, \<open>Text\<close>: the helpers of \<^verbatim>\<open>util.cpp\<close>, the classes \<^verbatim>\<open>String\<close> and \<^verbatim>\<open>ArrayList\<close> over a store of
    arrays in which sharing, leaking and freeing show.
  \<^item> \<open>HeapList\<close>: \<^verbatim>\<open>ArrayList\<close> with its elements in blocks of the heap, a client of the locale \<open>allocator\<close>:
    it refines the lists of \<open>Text\<close> as long as the heap has room (\<open>heap_room\<close>), and what happens when not.
  \<^item> \<open>Console\<close>, \<open>Keyboard\<close>, \<open>Chips\<close>: the screen (\<^verbatim>\<open>vga.cpp\<close>), the keyboard (\<^verbatim>\<open>keyboard.cpp\<close>), the
    interrupt table, the interrupt controllers and the timer (\<^verbatim>\<open>idt.cpp\<close>, \<^verbatim>\<open>pit.cpp\<close>).
  \<^item> \<open>Disk\<close>: the interface between file system and driver as two locales, \<open>block_device\<close> (commands may
    fail) and \<open>reliable_disk\<close> (they do not), with a disk in memory as an instance.
  \<^item> \<open>Ata\<close>: the driver over port functions. What a drive does on these ports is a chain of locales: \<open>ata_drive\<close> is the protocol,
    \<open>pio_drive\<close> a drive that keeps the pace of the polling, \<open>sound_drive\<close> one without errors on the
    sectors it has, \<open>big_drive\<close> one that has all the sectors the file system can use. The contract
    \<open>block_device\<close> follows for the driver from \<open>pio_drive\<close> by \<^theory_text>\<open>sublocale\<close>, \<open>reliable_disk\<close> from
    \<open>big_drive\<close>, and an executable drive, which is busy for a while after each command, interprets them.
  \<^item> \<open>FsLayout\<close>, \<open>FsDir\<close>, \<open>FsCore\<close>, \<open>FsSys\<close>, \<open>FsOps\<close>, \<open>FsTree\<close>: the file system in the order
    of the source. The record \<open>fs\<close> holds its global variables and the disk; every definition takes the
    operations of the driver as an argument and returns the state after the call.
  \<^item> \<open>FsInv\<close>, \<open>FsKeep\<close>, \<open>FsSession\<close>: the consistency of the tables, and that every call
    keeps it, whatever bytes the directory blocks hold. \<open>FsInv\<close> has the calculus of postconditions these
    proofs run on; \<open>FsSession\<close> has the calls of \<^verbatim>\<open>filesystem.h\<close> as a datatype and sequences of calls as an
    inductive relation.
  \<^item> \<open>FsView\<close>, \<open>FsSpec\<close>, \<open>FsCalls\<close>, \<open>FsSample\<close>, \<open>FsTheorems\<close>, \<open>FsPaths\<close>: the abstract file system, a
    tree of directories and files by name, and the calls as steps of this tree: each succeeds exactly
    under its condition, then changes the tree in one way, and otherwise changes nothing.
  \<^item> \<open>FsSysSpec\<close>, \<open>FsFormat\<close>, \<open>FsMount\<close>: formatting, mounting and the password, and that what is
    written survives mounting again.
  \<^item> \<open>FsCopy\<close>, \<open>FsRename\<close>, \<open>FsRecursive\<close>, \<open>FsLimits\<close>: copying, moving, recursive removal and the usage
    figures on the tree.
  \<^item> \<open>FsSafety\<close>: what sequences of calls keep, formatting, mounting and recursive removal included, on a
    device that may fail and on one that does not, where every call also returns.
  \<^item> \<open>Shell\<close>, \<open>ShellTheorems\<close>: the commands and the login; path resolution, the login, and what a
    command can and cannot change.
  \<^item> \<open>Boot\<close>, \<open>System\<close>: the parts composed: shell, file system and driver over a drive. \<open>Boot\<close> follows the
    first start from a blank drive to the login; \<open>System\<close> has the states of the running system as an
    inductive relation, one step per login or command that has ended, and an invariant of all of them.

  What the theorems show

  \<^item> Functional behaviour, on every branch: each file-system call with the exact condition under which
    it succeeds, and its effect on the whole tree; the driver's transfers; allocation as first fit.
  \<^item> Invariants under any sequence of calls or commands, with failing disk commands where the code
    withstands them: removals need commands that do not fail, since the code frees a block before it
    knows that the block was cleared.
  \<^item> Round trips: sector, file, password and superblock are read back as written, also after a restart.
  \<^item> Refinement and equivalence: first fit for the heap, an endless page for the screen, line editing for
    the keyboard, climbing for path resolution.
  \<^item> Termination of recursive removal on every consistent file system.
  \<^item> Where the code does not do what it means to do, the theorem states what it does: a path with a long
    name, a directory moved into itself, a request for almost all of memory, the least integer.

  Bounds and fuel

  The driver polls at most \<open>0x4000\<close> times, as the code does. A \<open>pio_drive\<close> answers
  earlier; what a write does on a drive that does not is part of the theorem on \<^verbatim>\<open>ata_write_sectors\<close>, which
  needs \<open>ata_drive\<close> only. The theorems on the composed system are about drives with at least 32913
  sectors (\<open>lba_limit\<close>), the end of the largest layout: 145 sectors before the data area and 32768
  blocks. \<^verbatim>\<open>ata.cpp\<close> issues CACHE FLUSH without waiting for the drive to store the sector; \<open>ata_drive\<close> leaves
  open whether the busy drive ignores the command or, having finished, carries it out, and every theorem
  holds in both cases. Recursive removal takes the depth of its recursion as fuel: the shell gives it 64, the number
  of inodes, and \<open>FsRecursive\<close> proves this enough on a consistent tree: an inode there has one entry, so
  a directory found from the root cannot contain itself, and each level down has fewer inodes below it. Loops that wait for the user (\<^verbatim>\<open>readl\<close>, the password
  dialogue, the command loop) are partial functions into options; \<open>None\<close> means that the keys given
  were not enough. The walk over the heap's list is one too, and is proved to return. \<^verbatim>\<open>wait\<close> is
  modelled by the number of its turns and left out where the shell calls it, as it changes no state.

  Parameters

  The ports, the address of the heap and of the interrupt handlers, the memory map that the boot loader
  leaves, the instruction \<^verbatim>\<open>cpuid\<close>, and \<^verbatim>\<open>test()\<close> of the interpreter, whose source is not in the
  repository: theorems about command lines exclude those that start with \<^verbatim>\<open>test\<close>.

  Not modelled

  The boot loader, the kernel entry and the interrupt stubs (assembly), the build scripts, exhaustion of
  the heap under \<^verbatim>\<open>new\<close> (strings take fresh addresses that never run out), interrupts that
  arrive in the middle of a function, and drives on which a write has failed before the flush command that
  follows it arrives, or that report an error in the fault bit only. Reads and writes past the end of a buffer have the fixed meaning of
  theory \<open>Prelude\<close>; theorems that depend on an access being in range state the range.
\<close>

end
